(* ===== verification/MCX_Prelude.thy ===== *)
theory MCX_Prelude
  imports Main "HOL-Library.Word" "HOL-Library.Sublist" "HOL-Library.Multiset"
    "HOL-Library.Code_Target_Nat" "HOL-Library.Finite_Map"
begin

text \<open>
  Shared vocabulary of the development: faults and results (exceptions and undefined
  behaviour as values), the output channel of the process, checked machine arithmetic, and
  the interfaces (locales) that several components of MCX share. Everything here is generic;
  the only code modelled is the logger of \<^verbatim>\<open>src/src/core/log.cpp\<close>, which every other
  component calls.
\<close>

named_theorems result_simps \<open>rewriting of results: sums of a fault and a value\<close>
named_theorems bytes_simps \<open>bytes, characters and little-endian words\<close>

subsection \<open>Faults and results\<close>

text \<open>
  A C++ call either returns, throws, or has undefined behaviour. \<open>Undefined\<close> marks the
  points where the standard gives no meaning to the code (a signed overflow, a read past the
  end of a buffer); \<open>Exception\<close> carries the class of the exception that is thrown. \<open>exn\<close>
  holds the exceptions that derive from \<^verbatim>\<open>std::exception\<close>: the code throws no others, and its handlers
  (\<^verbatim>\<open>catch (const std::exception&)\<close>) catch no others. That the functions given to it (tasks, callbacks,
  modules, scripts) throw no others either is an assumption of the development: an object of another
  type would pass the handlers of the loops and threads and end the process.
\<close>

datatype exn = Invalid_argument | Out_of_range | Length_error | Std_exception string

datatype fault = Undefined | Exception exn

type_synonym 'a result = "fault + 'a"

definition rbind :: "'a result \<Rightarrow> ('a \<Rightarrow> 'b result) \<Rightarrow> 'b result" where
  "rbind r f = (case r of Inl e \<Rightarrow> Inl e | Inr x \<Rightarrow> f x)"

definition rmap :: "('a \<Rightarrow> 'b) \<Rightarrow> 'a result \<Rightarrow> 'b result" where
  "rmap f r = (case r of Inl e \<Rightarrow> Inl e | Inr x \<Rightarrow> Inr (f x))"

lemma rbind_simps [simp, result_simps]:
  "rbind (Inl e) f = Inl e" "rbind (Inr x) f = f x"
  by (simp_all add: rbind_def)

lemma rmap_simps [simp, result_simps]:
  "rmap f (Inl e) = Inl e" "rmap f (Inr x) = Inr (f x)"
  by (simp_all add: rmap_def)

lemma rbind_Inr_iff: "rbind r f = Inr y \<longleftrightarrow> (\<exists>x. r = Inr x \<and> f x = Inr y)"
  by (cases r) auto

lemma rmap_Inr_iff: "rmap f r = Inr y \<longleftrightarrow> (\<exists>x. r = Inr x \<and> y = f x)"
  by (cases r) auto

subsection \<open>Machine integers\<close>

text \<open>
  Signed integers are mathematical integers whose range is checked: an operation that leaves
  the range is undefined behaviour. Unsigned integers and bytes are words, which wrap.
\<close>

type_synonym byte = "8 word"
type_synonym u32 = "32 word"
type_synonym size_t = "64 word"

definition INT_MIN :: int where "INT_MIN = - 2147483648"
definition INT_MAX :: int where "INT_MAX = 2147483647"
definition INT64_MIN :: int where "INT64_MIN = - 9223372036854775808"
definition INT64_MAX :: int where "INT64_MAX = 9223372036854775807"

definition in_int :: "int \<Rightarrow> bool" where
  "in_int n \<longleftrightarrow> INT_MIN \<le> n \<and> n \<le> INT_MAX"

definition in_int64 :: "int \<Rightarrow> bool" where
  "in_int64 n \<longleftrightarrow> INT64_MIN \<le> n \<and> n \<le> INT64_MAX"

definition chk64 :: "int \<Rightarrow> int result" where
  "chk64 n = (if in_int64 n then Inr n else Inl Undefined)"

lemmas int_range_defs = in_int_def in_int64_def INT_MIN_def INT_MAX_def INT64_MIN_def INT64_MAX_def

lemma chk64_Inr_iff: "chk64 n = Inr m \<longleftrightarrow> in_int64 n \<and> m = n"
  by (auto simp: chk64_def)

lemma chk64_in [simp]: "in_int64 n \<Longrightarrow> chk64 n = Inr n"
  by (simp add: chk64_def)

lemma chk64_out [simp]: "\<not> in_int64 n \<Longrightarrow> chk64 n = Inl Undefined"
  by (simp add: chk64_def)

subsection \<open>Bytes and characters\<close>

text \<open>A \<^verbatim>\<open>char\<close> of a \<^verbatim>\<open>std::string\<close> is a HOL character; as a byte it is its 8-bit code.\<close>

definition byte_of :: "char \<Rightarrow> byte" where
  "byte_of c = of_char c"

definition char_of_byte :: "byte \<Rightarrow> char" where
  "char_of_byte b = char_of (unat b)"

lemma unat_byte_of [simp, bytes_simps]: "unat (byte_of c) = of_char c"
proof -
  have "byte_of c = word_of_nat (of_char c)"
    by (simp only: byte_of_def of_nat_of_char)
  then show ?thesis by (simp add: unat_of_nat)
qed

lemma char_of_byte_of [simp, bytes_simps]: "char_of_byte (byte_of c) = c"
  by (simp add: char_of_byte_def)

lemma byte_of_char_of_byte [simp, bytes_simps]: "byte_of (char_of_byte b) = b"
proof -
  have "unat b < 256" using unsigned_less [of b, where ?'a = nat] by simp
  then have "(of_char (char_of (unat b)) :: nat) = unat b" by simp
  then show ?thesis
    by (simp add: char_of_byte_def word_unat_eq_iff)
qed

lemma inj_byte_of: "inj byte_of"
  by (metis char_of_byte_of injI)

lemma char_byte_comp [simp]: "char_of_byte \<circ> byte_of = id" "byte_of \<circ> char_of_byte = id"
  by (simp_all add: fun_eq_iff)

lemma map_char_of_byte_of [simp, bytes_simps]: "map char_of_byte (map byte_of s) = s"
  by (induction s) auto

lemma map_byte_of_char_of [simp, bytes_simps]: "map byte_of (map char_of_byte bs) = bs"
  by (induction bs) auto

lemma byte_of_eq_iff [simp]: "byte_of c = byte_of d \<longleftrightarrow> c = d"
  using inj_byte_of by (auto simp: inj_def)

subsection \<open>The output channel\<close>

text \<open>
  Operations that write to the console return what they write. \<open>Stdout\<close> and \<open>Stderr\<close>
  are one write to \<^verbatim>\<open>std::cout\<close> and \<^verbatim>\<open>std::cerr\<close>.
\<close>

datatype console = Stdout string | Stderr string

definition nl :: string where "nl = [CHR 0x0A]"

definition log_Info :: "string \<Rightarrow> console" where
  "log_Info m = Stdout (''[MCX] '' @ m @ nl)"

definition log_Warn :: "string \<Rightarrow> console" where
  "log_Warn m = Stdout (''[MCX][WARN] '' @ m @ nl)"

definition log_Error :: "string \<Rightarrow> console" where
  "log_Error m = Stderr (''[MCX][ERROR] '' @ m @ nl)"

lemma log_Info_inj [simp]: "log_Info a = log_Info b \<longleftrightarrow> a = b"
  by (simp add: log_Info_def)

subsection \<open>Callbacks\<close>

text \<open>
  A callback (\<^verbatim>\<open>std::function<void(...)>\<close>) acts on the state of the client that
  registered it and may throw. A sequence of callbacks stops at the first that throws.
\<close>

type_synonym 'c effect = "'c \<Rightarrow> 'c \<times> exn option"

fun run_effects :: "'c effect list \<Rightarrow> 'c effect" where
  "run_effects [] c = (c, None)"
| "run_effects (f # fs) c = (case f c of (c', None) \<Rightarrow> run_effects fs c' | (c', Some e) \<Rightarrow> (c', Some e))"

lemma run_effects_append:
  "run_effects (fs @ gs) c = (case run_effects fs c of (c', None) \<Rightarrow> run_effects gs c' | (c', Some e) \<Rightarrow> (c', Some e))"
  by (induction fs arbitrary: c) (auto split: prod.splits option.splits)

lemma run_effects_no_throw:
  "\<forall>f \<in> set fs. \<forall>c. snd (f c) = None \<Longrightarrow> snd (run_effects fs c) = None"
proof (induction fs arbitrary: c)
  case Nil
  then show ?case by simp
next
  case (Cons f fs)
  obtain c' ex where "f c = (c', ex)" by fastforce
  moreover have "snd (f c) = None" using Cons.prems by simp
  ultimately show ?case using Cons by simp
qed

text \<open>The text of \<^verbatim>\<open>what()\<close>.\<close>

definition exn_text :: "exn \<Rightarrow> string" where
  "exn_text e = (case e of Invalid_argument \<Rightarrow> ''stoi'' | Out_of_range \<Rightarrow> ''out_of_range''
     | Length_error \<Rightarrow> ''length_error'' | Std_exception m \<Rightarrow> m)"

subsection \<open>Hash maps\<close>

text \<open>
  \<^verbatim>\<open>std::unordered_map\<close> and \<^verbatim>\<open>std::map\<close> are finite maps. Where the code iterates
  over an unordered map the order is not specified: the iteration takes an enumeration of the
  keys as an argument, and \<open>enumerates\<close> says that it is one.
\<close>

type_synonym ('k, 'v) umap = "('k, 'v) fmap"

definition umap_size :: "('k, 'v) umap \<Rightarrow> nat" where
  "umap_size m = fcard (fmdom m)"

definition enumerates :: "'k list \<Rightarrow> ('k, 'v) umap \<Rightarrow> bool" where
  "enumerates ks m \<longleftrightarrow> distinct ks \<and> fset_of_list ks = fmdom m"

definition entries :: "'k list \<Rightarrow> ('k, 'v) umap \<Rightarrow> ('k \<times> 'v) list" where
  "entries ks m = List.map_filter (\<lambda>k. map_option (Pair k) (fmlookup m k)) ks"

lemma fmlookup_fmupd: "fmlookup (fmupd k v m) = (fmlookup m)(k \<mapsto> v)"
  by (auto simp: fun_eq_iff)

lemma fmlookup_fmdrop: "fmlookup (fmdrop k m) = (fmlookup m)(k := None)"
  by (auto simp: fun_eq_iff)

lemma entries_simps [simp]:
  "entries [] m = []"
  "entries (k # ks) m = (case fmlookup m k of None \<Rightarrow> entries ks m | Some v \<Rightarrow> (k, v) # entries ks m)"
  by (simp_all add: entries_def map_filter_simps split: option.split)

lemma set_entries: "set (entries ks m) = {(k, v). k \<in> set ks \<and> fmlookup m k = Some v}"
  by (induction ks) (auto split: option.splits)

lemma enumerates_set: "enumerates ks m \<Longrightarrow> set ks = fmdom' m"
  by (metis enumerates_def fmdom'_alt_def fset_of_list.rep_eq)

lemma set_entries_enum: "enumerates ks m \<Longrightarrow> set (entries ks m) = {(k, v). fmlookup m k = Some v}"
  by (auto simp: set_entries enumerates_set fmdom'_alt_def intro: fmdomI)

lemma map_fst_entries: "set ks \<subseteq> fmdom' m \<Longrightarrow> map fst (entries ks m) = ks"
  by (induction ks) (auto simp: fmlookup_dom'_iff split: option.splits)

lemma map_fst_entries_enum: "enumerates ks m \<Longrightarrow> map fst (entries ks m) = ks"
  by (simp add: map_fst_entries enumerates_set)

lemma distinct_entries: "enumerates ks m \<Longrightarrow> distinct (entries ks m)"
  by (metis distinct_map enumerates_def map_fst_entries_enum)

lemma length_entries: "enumerates ks m \<Longrightarrow> length (entries ks m) = umap_size m"
proof -
  assume a: "enumerates ks m"
  then have "length (entries ks m) = length ks"
    by (metis length_map map_fst_entries_enum)
  also have "\<dots> = card (set ks)"
    using a by (simp add: enumerates_def distinct_card)
  also have "\<dots> = umap_size m"
    using a by (simp add: umap_size_def fcard.rep_eq fmdom'_alt_def enumerates_set)
  finally show ?thesis .
qed

lemma umap_size_card: "umap_size m = card (dom (fmlookup m))"
  by (simp add: umap_size_def fcard.rep_eq fmdom'_alt_def)

lemma umap_size_empty [simp]: "umap_size fmempty = 0"
  by (simp add: umap_size_def)

lemma finite_dom_fmlookup [simp]: "finite (dom (fmlookup m))"
  by simp

subsection \<open>Interfaces shared by components\<close>

text \<open>
  Most managers of MCX keep a map from a key to an entry and change it one key at a time. The
  client sees a lookup, an insertion and a removal; what the provider promises is how the
  lookup changes. \<open>mk k a\<close> is the entry that the provider builds from the key and the
  argument of the insertion.
\<close>

locale keyed_store =
  fixes look :: "'s \<Rightarrow> 'k \<Rightarrow> 'v option"
    and mk :: "'k \<Rightarrow> 'a \<Rightarrow> 'v"
    and put :: "'k \<Rightarrow> 'a \<Rightarrow> 's \<Rightarrow> 's"
    and del :: "'k \<Rightarrow> 's \<Rightarrow> 's"
  assumes look_put: "look (put k a s) = (look s)(k \<mapsto> mk k a)"
    and look_del: "look (del k s) = (look s)(k := None)"
begin

lemma look_put_same: "look (put k a s) k = Some (mk k a)"
  by (simp add: look_put)

lemma look_put_other: "j \<noteq> k \<Longrightarrow> look (put k v s) j = look s j"
  by (simp add: look_put)

lemma look_del_same: "look (del k s) k = None"
  by (simp add: look_del)

lemma look_del_other: "j \<noteq> k \<Longrightarrow> look (del k s) j = look s j"
  by (simp add: look_del)

lemma last_put_wins: "look (put k v (put k w s)) = look (put k v s)"
  by (simp add: look_put)

lemma put_commute: "j \<noteq> k \<Longrightarrow> look (put j v (put k w s)) = look (put k w (put j v s))"
  by (simp add: look_put fun_upd_twist)

lemma put_then_del: "look s k = None \<Longrightarrow> look (del k (put k v s)) = look s"
  by (auto simp: look_put look_del)

lemma dom_put: "dom (look (put k v s)) = insert k (dom (look s))"
  by (simp add: look_put)

lemma dom_del: "dom (look (del k s)) = dom (look s) - {k}"
  by (simp add: look_del)

lemma finite_put: "finite (dom (look s)) \<Longrightarrow> finite (dom (look (put k v s)))"
  by (simp add: dom_put)

lemma finite_del: "finite (dom (look s)) \<Longrightarrow> finite (dom (look (del k s)))"
  by (simp add: dom_del)

lemma card_put:
  "finite (dom (look s)) \<Longrightarrow>
   card (dom (look (put k v s))) = (if look s k = None then Suc (card (dom (look s))) else card (dom (look s)))"
  by (auto simp: dom_put card_insert_if domIff)

lemma card_del:
  "finite (dom (look s)) \<Longrightarrow>
   card (dom (look (del k s))) = (if look s k = None then card (dom (look s)) else card (dom (look s)) - 1)"
  by (auto simp: dom_del card_Diff_singleton_if domIff)

end

text \<open>
  A component whose operations all keep an invariant: the runs of a list of operations keep
  it too.
\<close>

locale invariant_machine =
  fixes exec :: "'op \<Rightarrow> 's \<Rightarrow> 's"
    and inv :: "'s \<Rightarrow> bool"
  assumes exec_inv: "inv s \<Longrightarrow> inv (exec c s)"
begin

lemma run_inv: "inv s \<Longrightarrow> inv (fold exec ops s)"
  by (induction ops arbitrary: s) (auto intro: exec_inv)

end

text \<open>
  A component that implements an abstract one operation by operation: an abstraction function
  that commutes with every operation commutes with every run.
\<close>

locale simulation =
  fixes exec :: "'op \<Rightarrow> 's \<Rightarrow> 's"
    and abs_of :: "'s \<Rightarrow> 'a"
    and aexec :: "'op \<Rightarrow> 'a \<Rightarrow> 'a"
  assumes abs_exec: "abs_of (exec c s) = aexec c (abs_of s)"
begin

lemma abs_run: "abs_of (fold exec ops s) = fold aexec ops (abs_of s)"
  by (induction ops arbitrary: s) (auto simp: abs_exec)

end

text \<open>
  The same for a step relation: an invariant that holds at the start and that every step
  keeps holds in every reachable state.
\<close>

locale invariant_steps =
  fixes start :: "'s \<Rightarrow> bool"
    and step :: "'s \<Rightarrow> 's \<Rightarrow> bool"
    and inv :: "'s \<Rightarrow> bool"
  assumes start_inv: "start s \<Longrightarrow> inv s"
    and step_inv: "step s t \<Longrightarrow> inv s \<Longrightarrow> inv t"
begin

lemma steps_inv: "step\<^sup>*\<^sup>* s t \<Longrightarrow> inv s \<Longrightarrow> inv t"
  by (induction rule: rtranclp_induct) (auto intro: step_inv)

lemma reachable_inv: "start s \<Longrightarrow> step\<^sup>*\<^sup>* s t \<Longrightarrow> inv t"
  by (blast intro: steps_inv start_inv)

end

text \<open>
  A byte codec: what the encoder writes, the decoder reads back, leaving what follows. A
  stream of encoded values is then decoded one value at a time.
\<close>

locale byte_codec =
  fixes enc :: "'a \<Rightarrow> 'b list"
    and dec :: "'b list \<Rightarrow> ('a \<times> 'b list) option"
    and ok :: "'a \<Rightarrow> bool"
  assumes dec_enc: "ok x \<Longrightarrow> dec (enc x @ rest) = Some (x, rest)"
begin

lemma dec_enc_all: "ok x \<Longrightarrow> dec (enc x) = Some (x, [])"
  using dec_enc [of x "[]"] by simp

lemma enc_inj: "ok x \<Longrightarrow> ok y \<Longrightarrow> enc x = enc y \<Longrightarrow> x = y"
  by (metis dec_enc_all option.inject prod.inject)

lemma enc_prefix_free:
  "ok x \<Longrightarrow> ok y \<Longrightarrow> enc x @ r = enc y @ q \<Longrightarrow> x = y \<and> r = q"
  by (metis dec_enc option.inject prod.inject)

primrec enc_stream :: "'a list \<Rightarrow> 'b list" where
  "enc_stream [] = []"
| "enc_stream (x # xs) = enc x @ enc_stream xs"

primrec dec_stream :: "nat \<Rightarrow> 'b list \<Rightarrow> ('a list \<times> 'b list) option" where
  "dec_stream 0 bs = Some ([], bs)"
| "dec_stream (Suc n) bs = (case dec bs of None \<Rightarrow> None
     | Some (x, r) \<Rightarrow> (case dec_stream n r of None \<Rightarrow> None | Some (xs, q) \<Rightarrow> Some (x # xs, q)))"

lemma dec_enc_stream:
  "(\<And>x. x \<in> set xs \<Longrightarrow> ok x) \<Longrightarrow>
   dec_stream (length xs) (enc_stream xs @ rest) = Some (xs, rest)"
proof (induction xs)
  case Nil
  then show ?case by simp
next
  case (Cons x xs)
  then have "dec_stream (length xs) (enc_stream xs @ rest) = Some (xs, rest)" and "ok x" by auto
  then show ?case by (simp add: dec_enc)
qed

end

text \<open>A first-in first-out queue seen through its contents.\<close>

locale fifo =
  fixes push :: "'a \<Rightarrow> 'q \<Rightarrow> 'q"
    and pop :: "'q \<Rightarrow> ('a \<times> 'q) option"
    and contents :: "'q \<Rightarrow> 'a list"
  assumes contents_push: "contents (push x q) = contents q @ [x]"
    and pop_empty: "contents q = [] \<Longrightarrow> pop q = None"
    and pop_nonempty: "contents q = x # xs \<Longrightarrow> \<exists>q'. pop q = Some (x, q') \<and> contents q' = xs"
begin

lemma contents_pushes: "contents (fold push xs q) = contents q @ xs"
  by (induction xs arbitrary: q) (auto simp: contents_push)

primrec pops :: "nat \<Rightarrow> 'q \<Rightarrow> 'a list" where
  "pops 0 q = []"
| "pops (Suc n) q = (case pop q of None \<Rightarrow> [] | Some (x, q') \<Rightarrow> x # pops n q')"

lemma pops_contents: "pops n q = take n (contents q)"
proof (induction n arbitrary: q)
  case 0
  then show ?case by simp
next
  case (Suc n)
  show ?case
  proof (cases "contents q")
    case Nil
    then show ?thesis by (simp add: pop_empty)
  next
    case (Cons x xs)
    then obtain q' where "pop q = Some (x, q')" and "contents q' = xs"
      using pop_nonempty by blast
    with Cons Suc show ?thesis by simp
  qed
qed

lemma pushes_pops: "contents q = [] \<Longrightarrow> pops (length xs) (fold push xs q) = xs"
  by (simp add: pops_contents contents_pushes)

end

subsection \<open>Generic lemmas\<close>

lemma filter_split: "xs \<noteq> [] \<Longrightarrow> filter P xs = (if P (hd xs) then hd xs # filter P (tl xs) else filter P (tl xs))"
  by (cases xs) auto

lemma takeWhile_append_stop: "(\<And>x. x \<in> set xs \<Longrightarrow> P x) \<Longrightarrow> \<not> P y \<Longrightarrow> takeWhile P (xs @ y # ys) = xs"
  by (induction xs) auto

lemma dropWhile_append_stop: "(\<And>x. x \<in> set xs \<Longrightarrow> P x) \<Longrightarrow> \<not> P y \<Longrightarrow> dropWhile P (xs @ y # ys) = y # ys"
  by (induction xs) auto

lemma takeWhile_all: "(\<And>x. x \<in> set xs \<Longrightarrow> P x) \<Longrightarrow> takeWhile P xs = xs"
  by (induction xs) auto

lemma dropWhile_all: "(\<And>x. x \<in> set xs \<Longrightarrow> P x) \<Longrightarrow> dropWhile P xs = []"
  by (induction xs) auto

lemma two_steps: "r a b \<Longrightarrow> r b c \<Longrightarrow> r\<^sup>*\<^sup>* a c"
  by (rule rtranclp.rtrancl_into_rtrancl [OF r_into_rtranclp])

lemma three_steps: "r a b \<Longrightarrow> r b c \<Longrightarrow> r c d \<Longrightarrow> r\<^sup>*\<^sup>* a d"
  by (rule rtranclp.rtrancl_into_rtrancl [OF two_steps])

end
