(* ===== verification/MCX_Strings.thy ===== *)
theory MCX_Strings
  imports MCX_Prelude
begin

text \<open>
  The parts of the C++ standard library on strings that MCX uses: searching and slicing
  (\<^verbatim>\<open>find\<close>, \<^verbatim>\<open>substr\<close>), numbers (\<^verbatim>\<open>to_string\<close>, \<^verbatim>\<open>stoi\<close>), splitting
  (\<^verbatim>\<open>getline\<close> with a delimiter, \<^verbatim>\<open>operator>>\<close>) and character classes of the C locale.
  They model no file of the repository; every component that handles text uses them.
\<close>

subsection \<open>Character classes\<close>

definition is_space :: "char \<Rightarrow> bool" where
  "is_space c \<longleftrightarrow> c \<in> {CHR 0x20, CHR 0x09, CHR 0x0A, CHR 0x0B, CHR 0x0C, CHR 0x0D}"

definition is_digit :: "char \<Rightarrow> bool" where
  "is_digit c \<longleftrightarrow> (48::nat) \<le> of_char c \<and> of_char c \<le> (57::nat)"

definition digit_value :: "char \<Rightarrow> nat" where
  "digit_value c = of_char c - 48"

definition to_lower :: "char \<Rightarrow> char" where
  "to_lower c = (if (65::nat) \<le> of_char c \<and> of_char c \<le> (90::nat) then char_of (of_char c + 32 :: nat) else c)"

subsection \<open>Decimal numbers: std::to_string and std::stoi\<close>

definition digit_char :: "nat \<Rightarrow> char" where
  "digit_char d = char_of (48 + d)"

fun show_nat :: "nat \<Rightarrow> string" where
  "show_nat n = (if n < 10 then [digit_char n] else show_nat (n div 10) @ [digit_char (n mod 10)])"

declare show_nat.simps [simp del]

definition show_int :: "int \<Rightarrow> string" where
  "show_int i = (if i < 0 then CHR ''-'' # show_nat (nat (- i)) else show_nat (nat i))"

definition read_digits :: "string \<Rightarrow> nat" where
  "read_digits ds = foldl (\<lambda>acc c. 10 * acc + digit_value c) 0 ds"

text \<open>
  \<^verbatim>\<open>std::stoi\<close> is \<^verbatim>\<open>strtol\<close> in base 10: leading white space, an optional sign, the
  longest run of digits; nothing to convert throws \<open>invalid_argument\<close>, a value that is no
  \<^verbatim>\<open>int\<close> throws \<open>out_of_range\<close>. What follows the digits is ignored.
\<close>

definition stoi_sign :: "string \<Rightarrow> bool \<times> string" where
  "stoi_sign s = (case s of
     [] \<Rightarrow> (False, [])
   | c # cs \<Rightarrow> if c = CHR ''-'' then (True, cs) else if c = CHR ''+'' then (False, cs) else (False, s))"

definition stoi :: "string \<Rightarrow> int result" where
  "stoi s = (let (neg, u) = stoi_sign (dropWhile is_space s); ds = takeWhile is_digit u in
     if ds = [] then Inl (Exception Invalid_argument)
     else let v = (if neg then - int (read_digits ds) else int (read_digits ds)) in
       if in_int v then Inr v else Inl (Exception Out_of_range))"

lemma of_char_digit_char [simp]: "d < 10 \<Longrightarrow> (of_char (digit_char d) :: nat) = 48 + d"
  by (simp add: digit_char_def)

lemma digit_value_digit_char [simp]: "d < 10 \<Longrightarrow> digit_value (digit_char d) = d"
  by (simp add: digit_value_def)

lemma is_digit_digit_char [simp]: "d < 10 \<Longrightarrow> is_digit (digit_char d)"
  by (simp add: is_digit_def)

lemma is_digit_not_space: "is_digit c \<Longrightarrow> \<not> is_space c"
  by (auto simp: is_digit_def is_space_def)

lemma digit_char_digit_value: "is_digit c \<Longrightarrow> digit_char (digit_value c) = c"
  by (simp add: is_digit_def digit_char_def digit_value_def)

lemma digit_value_less: "is_digit c \<Longrightarrow> digit_value c < 10"
  unfolding is_digit_def digit_value_def by arith

lemma show_nat_digits: "c \<in> set (show_nat n) \<Longrightarrow> is_digit c"
proof (induction n rule: show_nat.induct)
  case (1 n)
  then show ?case
    by (subst (asm) show_nat.simps) (auto split: if_splits)
qed

lemma show_nat_nonempty [simp]: "show_nat n \<noteq> []"
  by (subst show_nat.simps) simp

lemma read_digits_snoc [simp]: "read_digits (ds @ [c]) = 10 * read_digits ds + digit_value c"
  by (simp add: read_digits_def)

lemma read_digits_show_nat [simp]: "read_digits (show_nat n) = n"
proof (induction n rule: show_nat.induct)
  case (1 n)
  show ?case
  proof (cases "n < 10")
    case True
    then show ?thesis by (subst show_nat.simps) (simp add: read_digits_def)
  next
    case False
    then have "read_digits (show_nat (n div 10)) = n div 10" using 1 by simp
    with False show ?thesis by (subst show_nat.simps) simp
  qed
qed

lemma show_nat_inj: "show_nat a = show_nat b \<longleftrightarrow> a = b"
  by (metis read_digits_show_nat)

lemma takeWhile_show_nat:
  "rest = [] \<or> \<not> is_digit (hd rest) \<Longrightarrow> takeWhile is_digit (show_nat n @ rest) = show_nat n"
  by (cases rest) (auto simp: takeWhile_append_stop takeWhile_all show_nat_digits)

lemma takeWhile_digits_show_nat [simp]: "takeWhile is_digit (show_nat n) = show_nat n"
  by (rule takeWhile_all) (rule show_nat_digits)

lemma show_nat_hd: "is_digit (hd (show_nat n))"
  by (rule show_nat_digits [where n = n]) simp

lemma stoi_sign_show_nat: "stoi_sign (show_nat n @ rest) = (False, show_nat n @ rest)"
proof -
  obtain c cs where c: "show_nat n = c # cs" by (cases "show_nat n") auto
  with show_nat_hd [of n] have "is_digit c" by simp
  then have "c \<noteq> CHR ''-''" "c \<noteq> CHR ''+''" by (auto simp: is_digit_def)
  with c show ?thesis by (simp add: stoi_sign_def)
qed

lemma dropWhile_space_show_nat: "dropWhile is_space (show_nat n @ rest) = show_nat n @ rest"
  using show_nat_hd [of n] is_digit_not_space [of "hd (show_nat n)"] by (cases "show_nat n") auto

lemma stoi_show_nat_append:
  assumes "rest = [] \<or> \<not> is_digit (hd rest)" "in_int (int n)"
  shows "stoi (show_nat n @ rest) = Inr (int n)"
  using assms
  by (simp add: stoi_def dropWhile_space_show_nat stoi_sign_show_nat takeWhile_show_nat)

lemma stoi_show_nat [simp]: "in_int (int n) \<Longrightarrow> stoi (show_nat n) = Inr (int n)"
  using stoi_show_nat_append [of "[]" n] by simp

lemma stoi_show_int [simp]:
  assumes "in_int i"
  shows "stoi (show_int i) = Inr i"
proof (cases "i < 0")
  case True
  have "\<not> is_space (CHR ''-'')" by (simp add: is_space_def)
  with True assms show ?thesis
    by (simp add: show_int_def stoi_def stoi_sign_def Let_def)
next
  case False
  with assms show ?thesis by (simp add: show_int_def)
qed

lemma stoi_in_range: "stoi s = Inr n \<Longrightarrow> in_int n"
  by (auto simp: stoi_def Let_def split: prod.splits if_splits)

subsection \<open>Searching and slicing\<close>

text \<open>
  \<open>find_from p s i\<close> is the position (counted from \<open>i\<close>) of the first occurrence of \<open>p\<close>
  in \<open>s\<close>; \<open>str_find s p pos\<close> is \<^verbatim>\<open>s.find(p, pos)\<close>, with \<open>None\<close> for
  \<^verbatim>\<open>npos\<close>.
\<close>

fun find_from :: "string \<Rightarrow> string \<Rightarrow> nat \<Rightarrow> nat option" where
  "find_from p [] i = (if p = [] then Some i else None)"
| "find_from p (c # s) i = (if prefix p (c # s) then Some i else find_from p s (Suc i))"

definition str_find :: "string \<Rightarrow> string \<Rightarrow> nat \<Rightarrow> nat option" where
  "str_find s p pos = (if length s < pos then None else find_from p (drop pos s) pos)"

definition str_contains :: "string \<Rightarrow> string \<Rightarrow> bool" where
  "str_contains s p \<longleftrightarrow> str_find s p 0 \<noteq> None"

text \<open>\<^verbatim>\<open>s.substr(pos, n)\<close> throws when \<open>pos\<close> is past the end; \<open>n\<close> is cut to what is left.\<close>

definition substr :: "string \<Rightarrow> nat \<Rightarrow> nat \<Rightarrow> string result" where
  "substr s pos n = (if length s < pos then Inl (Exception Out_of_range) else Inr (take n (drop pos s)))"

lemma find_from_Some:
  "find_from p s i = Some j \<Longrightarrow> i \<le> j \<and> j - i + length p \<le> length s \<and> take (length p) (drop (j - i) s) = p"
proof (induction p s i rule: find_from.induct)
  case (1 p i)
  then show ?case by (auto split: if_splits)
next
  case (2 p c s i)
  show ?case
  proof (cases "prefix p (c # s)")
    case True
    with 2 show ?thesis by (auto simp: prefix_def) (metis append_eq_conv_conj length_Cons length_append le_add1)
  next
    case False
    from False 2(2) have "find_from p s (Suc i) = Some j" by simp
    from 2(1) [OF False this]
    have "Suc i \<le> j \<and> j - Suc i + length p \<le> length s \<and> take (length p) (drop (j - Suc i) s) = p" .
    moreover from this obtain k where "j = Suc i + k" using le_Suc_ex by blast
    ultimately show ?thesis by simp
  qed
qed

lemma find_from_shift: "find_from p s (i + k) = map_option (\<lambda>j. j + k) (find_from p s i)"
  by (induction p s i rule: find_from.induct) (auto simp flip: add_Suc)

lemma find_from_None_iff: "find_from p s i = None \<longleftrightarrow> \<not> sublist p s"
proof (induction p s i rule: find_from.induct)
  case (1 p i)
  then show ?case by auto
next
  case (2 p c s i)
  then show ?case by (auto simp: sublist_Cons_right)
qed

lemma str_contains_iff: "str_contains s p \<longleftrightarrow> sublist p s"
  by (simp add: str_contains_def str_find_def find_from_None_iff)

lemma str_find_Some:
  "str_find s p pos = Some j \<Longrightarrow> pos \<le> j \<and> j + length p \<le> length s \<and> take (length p) (drop j s) = p"
  by (auto simp: str_find_def split: if_splits dest!: find_from_Some)

text \<open>The first occurrence of a pattern behind a text that does not contain its first character.\<close>

lemma find_from_skip:
  assumes "p = a # q" "a \<notin> set u"
  shows "find_from p (u @ p @ v) i = Some (i + length u)"
  using assms(2)
proof (induction u arbitrary: i)
  case Nil
  have "prefix p (p @ v)" by simp
  with assms(1) show ?case by simp
next
  case (Cons c u)
  then have "\<not> prefix p ((c # u) @ p @ v)" by (auto simp: assms(1))
  with Cons show ?case by simp
qed

lemma find_from_absent_char:
  assumes "p = a # q" "a \<notin> set s"
  shows "find_from p s i = None"
  unfolding find_from_None_iff
  using assms set_mono_sublist [of p s] by auto

lemma str_find_skip:
  assumes "p = a # q" "a \<notin> set u" "length w = pos"
  shows "str_find (w @ u @ p @ v) p pos = Some (pos + length u)"
  using find_from_skip [OF assms(1,2), of v pos] assms(3) by (simp add: str_find_def)

lemma find_from_pass:
  "p = a # q \<Longrightarrow> a \<notin> set u \<Longrightarrow> find_from p (u @ v) i = find_from p v (i + length u)"
  by (induction u arbitrary: i) auto

lemma find_from_here: "prefix p s \<Longrightarrow> find_from p s i = Some i"
  by (cases s) auto

lemma find_from_step: "\<not> prefix p (c # s) \<Longrightarrow> find_from p (c # s) i = find_from p s (Suc i)"
  by simp

lemma str_find_suffix: "length u = n \<Longrightarrow> str_find (u @ v) p n = find_from p v n"
  by (auto simp: str_find_def)

lemma substr_mid: "length u = k \<Longrightarrow> length v = n \<Longrightarrow> substr (u @ v @ w) k n = Inr v"
  by (auto simp: substr_def)

lemma substr_rest: "length u = k \<Longrightarrow> length v \<le> n \<Longrightarrow> substr (u @ v) k n = Inr v"
  by (auto simp: substr_def)

text \<open>The end of a line.\<close>

definition crlf :: string where "crlf = [CHR 0x0D, CHR 0x0A]"

lemma length_crlf [simp]: "length crlf = 2"
  by (simp add: crlf_def)

subsection \<open>Splitting\<close>

text \<open>
  \<open>split_lines d s\<close> is what a loop of \<^verbatim>\<open>std::getline(ss, token, d)\<close> reads: the pieces
  between delimiters; a trailing delimiter starts no further piece.
\<close>

function split_on :: "char \<Rightarrow> string \<Rightarrow> string list" where
  "split_on d s = (if s = [] then []
     else takeWhile (\<lambda>c. c \<noteq> d) s # split_on d (tl (dropWhile (\<lambda>c. c \<noteq> d) s)))"
  by pat_completeness auto
termination
proof (relation "measure (\<lambda>(d, s). length s)")
  fix d :: char and s :: string
  assume "s \<noteq> []"
  then have "0 < length s" by simp
  moreover have "length (dropWhile (\<lambda>c. c \<noteq> d) s) \<le> length s" by (rule length_dropWhile_le)
  ultimately have "length (dropWhile (\<lambda>c. c \<noteq> d) s) - 1 < length s" by linarith
  then show "((d, tl (dropWhile (\<lambda>c. c \<noteq> d) s)), (d, s)) \<in> measure (\<lambda>(d, s). length s)"
    by simp
qed simp

declare split_on.simps [simp del]

lemma split_on_Nil [simp]: "split_on d [] = []"
  by (simp add: split_on.simps)

lemma split_on_piece:
  assumes "d \<notin> set u" "u \<noteq> []"
  shows "split_on d u = [u]"
proof -
  have "takeWhile (\<lambda>c. c \<noteq> d) u = u" "dropWhile (\<lambda>c. c \<noteq> d) u = []"
    using assms(1) by (auto intro!: takeWhile_all dropWhile_all)
  with assms(2) show ?thesis by (subst split_on.simps) (simp del: dropWhile_eq_Nil_conv)
qed

lemma split_on_sep: "d \<notin> set u \<Longrightarrow> split_on d (u @ d # v) = u # split_on d v"
proof -
  assume "d \<notin> set u"
  then have "takeWhile (\<lambda>c. c \<noteq> d) (u @ d # v) = u" "dropWhile (\<lambda>c. c \<noteq> d) (u @ d # v) = d # v"
    by (auto intro!: takeWhile_append_stop dropWhile_append_stop)
  then show ?thesis by (subst split_on.simps) simp
qed

lemma split_on_no_delim: "t \<in> set (split_on d s) \<Longrightarrow> d \<notin> set t"
proof (induction d s rule: split_on.induct)
  case (1 d s)
  then show ?case
    by (subst (asm) split_on.simps) (auto split: if_splits dest: set_takeWhileD)
qed

text \<open>\<open>words_of s\<close> is what a loop of \<^verbatim>\<open>stream >> token\<close> reads.\<close>

function words_of :: "string \<Rightarrow> string list" where
  "words_of s = (let t = dropWhile is_space s in
     if t = [] then [] else takeWhile (\<lambda>c. \<not> is_space c) t # words_of (dropWhile (\<lambda>c. \<not> is_space c) t))"
  by pat_completeness auto
termination
proof (relation "measure length")
  fix s t :: string
  assume t: "t = dropWhile is_space s" "t \<noteq> []"
  then have "\<not> is_space (hd t)" using hd_dropWhile by blast
  with t(2) have "length (dropWhile (\<lambda>c. \<not> is_space c) t) \<le> length (tl t)"
    by (cases t) (auto simp: length_dropWhile_le)
  also have "\<dots> < length t" using t(2) by (cases t) auto
  also have "\<dots> \<le> length s" unfolding t(1) by (rule length_dropWhile_le)
  finally show "(dropWhile (\<lambda>c. \<not> is_space c) t, s) \<in> measure length" by simp
qed simp

declare words_of.simps [simp del]

definition no_space :: "string \<Rightarrow> bool" where
  "no_space s \<longleftrightarrow> (\<forall>c \<in> set s. \<not> is_space c)"

lemma words_of_Nil [simp]: "words_of [] = []"
  by (simp add: words_of.simps)

lemma words_of_space: "is_space c \<Longrightarrow> words_of (c # s) = words_of s"
  by (subst (1 2) words_of.simps) simp

lemma words_of_word:
  assumes "no_space w" "w \<noteq> []" "rest = [] \<or> is_space (hd rest)"
  shows "words_of (w @ rest) = w # words_of rest"
proof -
  obtain c cs where w: "w = c # cs" using assms(2) by (cases w) auto
  with assms(1) have "\<not> is_space c" by (simp add: no_space_def)
  then have "dropWhile is_space (w @ rest) = w @ rest" by (simp add: w)
  moreover have "takeWhile (\<lambda>c. \<not> is_space c) (w @ rest) = w"
    "dropWhile (\<lambda>c. \<not> is_space c) (w @ rest) = rest"
    using assms by (cases rest; auto simp: no_space_def takeWhile_append_stop dropWhile_append_stop
        takeWhile_all dropWhile_all)+
  ultimately show ?thesis
    using assms(2) by (subst words_of.simps) simp
qed

lemma words_of_props: "w \<in> set (words_of s) \<Longrightarrow> w \<noteq> [] \<and> no_space w"
proof (induction s rule: words_of.induct)
  case (1 s)
  let ?t = "dropWhile is_space s"
  show ?case
  proof (cases "?t = []")
    case True
    with 1(2) show ?thesis by (simp add: words_of.simps [of s])
  next
    case False
    then have "\<not> is_space (hd ?t)" using hd_dropWhile by blast
    then have head: "takeWhile (\<lambda>c. \<not> is_space c) ?t \<noteq> [] \<and> no_space (takeWhile (\<lambda>c. \<not> is_space c) ?t)"
      using False by (cases ?t) (auto simp: no_space_def dest: set_takeWhileD)
    have "words_of s = takeWhile (\<lambda>c. \<not> is_space c) ?t # words_of (dropWhile (\<lambda>c. \<not> is_space c) ?t)"
      using False by (subst words_of.simps) (simp only: Let_def if_False)
    with 1 False head show ?thesis by (metis set_ConsD)
  qed
qed

lemma words_of_all_space: "(\<forall>c \<in> set s. is_space c) \<Longrightarrow> words_of s = []"
  by (induction s) (auto simp: words_of_space)

end
