(* ===== verification/MCX_Double.thy ===== *)
theory MCX_Double
  imports MCX_Strings
begin

text \<open>
  The C++ \<^verbatim>\<open>double\<close> as MCX uses it: a 64-bit IEEE 754 pattern that is stored, copied
  byte by byte and printed by \<^verbatim>\<open>std::to_string\<close> (that is \<^verbatim>\<open>printf\<close> with
  \<^verbatim>\<open>%f\<close>: six decimals, the exact value rounded half to even, as glibc does), and the
  conversion and division that the kill/death ratio needs. They model no file of the
  repository; actions, teleports, statistics and the packet serializer use them.
\<close>

type_synonym double = "64 word"

definition dbl_neg :: "double \<Rightarrow> bool" where
  "dbl_neg d = (unat d div 2 ^ 63 = 1)"

definition dbl_exp :: "double \<Rightarrow> nat" where
  "dbl_exp d = unat d div 2 ^ 52 mod 2048"

definition dbl_frac :: "double \<Rightarrow> nat" where
  "dbl_frac d = unat d mod 2 ^ 52"

text \<open>The magnitude of a finite value is \<open>dbl_mant d * 2 ^ (dbl_pow d)\<close>.\<close>

definition dbl_mant :: "double \<Rightarrow> nat" where
  "dbl_mant d = (if dbl_exp d = 0 then dbl_frac d else 2 ^ 52 + dbl_frac d)"

definition dbl_pow :: "double \<Rightarrow> int" where
  "dbl_pow d = (if dbl_exp d = 0 then 1 else int (dbl_exp d)) - 1075"

text \<open>The integer nearest to \<open>p / q\<close>, ties to the even one.\<close>

definition round_div :: "nat \<Rightarrow> nat \<Rightarrow> nat" where
  "round_div p q = (let d = p div q; r = p mod q in
     if 2 * r < q then d else if q < 2 * r then d + 1 else if even d then d else d + 1)"

text \<open>\<open>p / (q * 2 ^ e)\<close> rounded, for a possibly negative \<open>e\<close>.\<close>

definition round_scaled :: "nat \<Rightarrow> nat \<Rightarrow> int \<Rightarrow> nat" where
  "round_scaled p q e = (if 0 \<le> e then round_div p (q * 2 ^ nat e) else round_div (p * 2 ^ nat (- e)) q)"

definition pad6 :: "nat \<Rightarrow> string" where
  "pad6 n = (let ds = show_nat n in replicate (6 - length ds) (CHR ''0'') @ ds)"

definition sign_str :: "double \<Rightarrow> string" where
  "sign_str d = (if dbl_neg d then ''-'' else [])"

definition to_string_double :: "double \<Rightarrow> string" where
  "to_string_double d =
     (if dbl_exp d = 2047 then sign_str d @ (if dbl_frac d = 0 then ''inf'' else ''nan'')
      else let n = round_scaled (dbl_mant d * 10 ^ 6) 1 (- dbl_pow d) in
        sign_str d @ show_nat (n div 10 ^ 6) @ ''.'' @ pad6 (n mod 10 ^ 6))"

subsection \<open>Conversion from an integer and division\<close>

fun bit_len :: "nat \<Rightarrow> nat" where
  "bit_len n = (if n = 0 then 0 else Suc (bit_len (n div 2)))"

declare bit_len.simps [simp del]

text \<open>
  The double nearest to \<open>p / q\<close> for positive \<open>p\<close> and \<open>q\<close> whose quotient is in the normal
  range (quotients of 64-bit integers are): first the exponent that makes the significand a
  53-bit number, then one rounding.
\<close>

definition dbl_pack :: "bool \<Rightarrow> nat \<Rightarrow> int \<Rightarrow> double" where
  "dbl_pack neg m e = (let (m, e) = (if m = 2 ^ 53 then (2 ^ 52, e + 1) else (m, e)) in
     word_of_nat ((if neg then 2 ^ 63 else 0) + nat (e + 1075) * 2 ^ 52 + (m - 2 ^ 52)))"

definition dbl_ratio :: "bool \<Rightarrow> nat \<Rightarrow> nat \<Rightarrow> double" where
  "dbl_ratio neg p q = (let e0 = int (bit_len p) - int (bit_len q) - 53;
      big = (if 0 \<le> e0 then 2 ^ 53 * (q * 2 ^ nat e0) \<le> p else 2 ^ 53 * q \<le> p * 2 ^ nat (- e0));
      e = (if big then e0 + 1 else e0)
    in dbl_pack neg (round_scaled p q e) e)"

text \<open>\<^verbatim>\<open>static_cast<double>\<close> of an \<^verbatim>\<open>int64_t\<close>.\<close>

definition dbl_of_int :: "int \<Rightarrow> double" where
  "dbl_of_int i = (if i = 0 then 0 else dbl_ratio (i < 0) (nat \<bar>i\<bar>) 1)"

text \<open>Division of two finite doubles, the divisor not zero.\<close>

definition dbl_div :: "double \<Rightarrow> double \<Rightarrow> double" where
  "dbl_div a b = (let neg = (dbl_neg a \<noteq> dbl_neg b); k = dbl_pow a - dbl_pow b in
     if dbl_mant a = 0 then (if neg then 2 ^ 63 else 0)
     else if 0 \<le> k then dbl_ratio neg (dbl_mant a * 2 ^ nat k) (dbl_mant b)
     else dbl_ratio neg (dbl_mant a) (dbl_mant b * 2 ^ nat (- k)))"

lemma dbl_of_int_one: "dbl_of_int 1 = 0x3FF0000000000000"
  by code_simp

lemma round_div_exact: "0 < q \<Longrightarrow> round_div (p * q) q = p"
  by (simp add: round_div_def)

text \<open>Rounding is off by at most one half.\<close>

lemma round_div_nearest:
  assumes "0 < q"
  shows "\<bar>2 * int p - 2 * int q * int (round_div p q)\<bar> \<le> int q"
proof -
  define d r where "d = p div q" and "r = p mod q"
  have p: "p = q * d + r" and r: "r < q"
    using assms by (simp_all add: d_def r_def)
  have rd: "round_div p q = (if 2 * r < q then d else if q < 2 * r then d + 1 else if even d then d else d + 1)"
    by (simp add: round_div_def d_def r_def Let_def)
  show ?thesis
  proof (cases "round_div p q = d")
    case True
    with rd have "2 * r \<le> q" by (auto split: if_splits)
    with True show ?thesis by (simp add: p algebra_simps)
  next
    case False
    with rd have "round_div p q = d + 1" "q \<le> 2 * r" by (auto split: if_splits)
    with r show ?thesis by (simp add: p algebra_simps)
  qed
qed

end
