(* ===== verification/MCX_Protocol.thy ===== *)
theory MCX_Protocol
  imports MCX_Double
begin

text \<open>
  The binary formats of MCX: the bridge protocol of \<^verbatim>\<open>protocol.hpp\<close> and
  \<^verbatim>\<open>src/core/protocol.cpp\<close> (a five-byte header and a payload) and the field serializer of
  \<^verbatim>\<open>src/core/packet_serializer.cpp\<close>. Buffers are byte lists; a read outside the buffer is
  \<open>Undefined\<close>. The platform is little-endian, as every platform MCX builds for is.
\<close>

unbundle bit_operations_syntax

subsection \<open>Reading memory\<close>

definition rd :: "byte list \<Rightarrow> nat \<Rightarrow> byte result" where
  "rd mem i = (if i < length mem then Inr (mem ! i) else Inl Undefined)"

definition rd_range :: "byte list \<Rightarrow> nat \<Rightarrow> nat \<Rightarrow> byte list result" where
  "rd_range mem i n = (if i + n \<le> length mem then Inr (take n (drop i mem)) else Inl Undefined)"

lemma rd_in [simp]: "i < length mem \<Longrightarrow> rd mem i = Inr (mem ! i)"
  by (simp add: rd_def)

lemma rd_range_in [simp]: "i + n \<le> length mem \<Longrightarrow> rd_range mem i n = Inr (take n (drop i mem))"
  by (simp add: rd_range_def)

lemma rd_range_mid: "length bs = n \<Longrightarrow> rd_range (pre @ bs @ post) (length pre) n = Inr bs"
  by (simp add: rd_range_def)

subsection \<open>Little-endian words\<close>

fun le_bytes :: "nat \<Rightarrow> 'a::len word \<Rightarrow> byte list" where
  "le_bytes 0 w = []"
| "le_bytes (Suc n) w = ucast w # le_bytes n (drop_bit 8 w)"

fun le_word :: "byte list \<Rightarrow> 'a::len word" where
  "le_word [] = 0"
| "le_word (b # bs) = (ucast b OR push_bit 8 (le_word bs))"

lemma length_le_bytes [simp]: "length (le_bytes n w) = n"
  by (induction n arbitrary: w) auto

lemma le_word_le_bytes: "le_word (le_bytes n w) = take_bit (8 * n) (w :: 'a::len word)"
proof (induction n arbitrary: w)
  case 0
  then show ?case by simp
next
  case (Suc n)
  show ?case
    by (rule bit_word_eqI) (auto simp: Suc bit_simps algebra_simps)
qed

lemma le_word_le_bytes_32 [simp, bytes_simps]: "le_word (le_bytes 4 w) = (w :: u32)"
  by (subst le_word_le_bytes) (simp add: take_bit_word_eq_self)

lemma le_word_le_bytes_64 [simp, bytes_simps]: "le_word (le_bytes 8 w) = (w :: 64 word)"
  by (subst le_word_le_bytes) (simp add: take_bit_word_eq_self)

subsection \<open>The bridge protocol: packets\<close>

text \<open>
  \<^verbatim>\<open>PacketType\<close> has a fixed underlying type, so a packet may carry any byte as its type;
  the enumerators are constants.
\<close>

type_synonym PacketType = byte

definition MAGIC :: byte where "MAGIC = 0x4D"
definition VERSION :: byte where "VERSION = 1"

definition PT_HELLO :: PacketType where "PT_HELLO = 0x01"
definition PT_HEARTBEAT :: PacketType where "PT_HEARTBEAT = 0x02"
definition PT_PLAYER_JOIN :: PacketType where "PT_PLAYER_JOIN = 0x10"
definition PT_PLAYER_QUIT :: PacketType where "PT_PLAYER_QUIT = 0x11"
definition PT_CHAT_MESSAGE :: PacketType where "PT_CHAT_MESSAGE = 0x12"
definition PT_COMMAND :: PacketType where "PT_COMMAND = 0x13"
definition PT_ACTION_EXECUTE :: PacketType where "PT_ACTION_EXECUTE = 0x20"
definition PT_ACTION_RESULT :: PacketType where "PT_ACTION_RESULT = 0x21"
definition PT_ERROR :: PacketType where "PT_ERROR = 0xFF"

lemmas packet_type_defs = PT_HELLO_def PT_HEARTBEAT_def PT_PLAYER_JOIN_def PT_PLAYER_QUIT_def
  PT_CHAT_MESSAGE_def PT_COMMAND_def PT_ACTION_EXECUTE_def PT_ACTION_RESULT_def PT_ERROR_def

record McxPacket =
  ptype :: PacketType
  pdata :: "byte list"

definition Serialize :: "McxPacket \<Rightarrow> byte list" where
  "Serialize packet = (let size = (word_of_nat (length (pdata packet)) :: size_t) in
     [MAGIC, VERSION, ptype packet, ucast (size AND 0xFF), ucast (drop_bit 8 size AND 0xFF)]
     @ pdata packet)"

text \<open>
  \<^verbatim>\<open>Deserialize(data, len, out)\<close>: \<open>data\<close> is the memory behind the pointer, \<open>out\<close> the
  packet of the caller, which is returned as it is left. The type is stored before the length
  is known to be there, as in the code.
\<close>

definition payload_len :: "byte \<Rightarrow> byte \<Rightarrow> 16 word" where
  "payload_len lo hi = (ucast lo OR push_bit 8 (ucast hi))"

definition Deserialize :: "byte list \<Rightarrow> nat \<Rightarrow> McxPacket \<Rightarrow> (bool \<times> McxPacket) result" where
  "Deserialize data len out =
     (if len < 5 then Inr (False, out)
      else rbind (rd data 0) (\<lambda>d0. if d0 \<noteq> MAGIC then Inr (False, out)
      else rbind (rd data 1) (\<lambda>d1. if d1 \<noteq> VERSION then Inr (False, out)
      else rbind (rd data 2) (\<lambda>d2. rbind (rd data 3) (\<lambda>d3. rbind (rd data 4) (\<lambda>d4.
        let out = out\<lparr>ptype := d2\<rparr>; payloadLen = payload_len d3 d4 in
        if len < 5 + unat payloadLen then Inr (False, out)
        else rbind (rd_range data 5 (unat payloadLen)) (\<lambda>bs. Inr (True, out\<lparr>pdata := bs\<rparr>))))))))"

definition CreatePlayerJoin :: "string \<Rightarrow> string \<Rightarrow> McxPacket" where
  "CreatePlayerJoin playerId playerName =
     \<lparr>ptype = PT_PLAYER_JOIN, pdata = map byte_of playerId @ [0] @ map byte_of playerName\<rparr>"

definition CreatePlayerQuit :: "string \<Rightarrow> McxPacket" where
  "CreatePlayerQuit playerId = \<lparr>ptype = PT_PLAYER_QUIT, pdata = map byte_of playerId\<rparr>"

definition CreateChatMessage :: "string \<Rightarrow> string \<Rightarrow> McxPacket" where
  "CreateChatMessage playerId message =
     \<lparr>ptype = PT_CHAT_MESSAGE, pdata = map byte_of playerId @ [0] @ map byte_of message\<rparr>"

definition CreateAction :: "string \<Rightarrow> string \<Rightarrow> McxPacket" where
  "CreateAction actionType payload =
     \<lparr>ptype = PT_ACTION_EXECUTE, pdata = map byte_of actionType @ [0] @ map byte_of payload\<rparr>"

lemmas create_defs = CreatePlayerJoin_def CreatePlayerQuit_def CreateChatMessage_def CreateAction_def

subsection \<open>Lemmas on the header\<close>

lemma unat_payload_len: "unat (payload_len lo hi) = unat lo + 256 * unat hi"
proof -
  have lo: "unat lo < 256" and hi: "unat hi < 256"
    using unsigned_less [of lo, where ?'a = nat] unsigned_less [of hi, where ?'a = nat] by simp_all
  have "payload_len lo hi = ucast lo + push_bit 8 (ucast hi)"
    unfolding payload_len_def
    by (rule disjunctive_add [symmetric]) (auto simp: bit_simps dest: bit_imp_le_length)
  moreover have "unat (ucast lo :: 16 word) = unat lo" "unat (ucast hi :: 16 word) = unat hi"
    using lo hi by (simp_all add: unsigned_ucast_eq take_bit_nat_eq_self)
  moreover have "unat (push_bit 8 (ucast hi :: 16 word)) = 256 * unat hi"
    using hi calculation(3) by (simp add: push_bit_eq_mult unat_word_ariths)
  ultimately show ?thesis
    using lo hi by (simp add: unat_word_ariths)
qed

lemma unat_low_byte: "unat (ucast (w AND 0xFF :: size_t) :: byte) = unat w mod 256"
proof -
  have "w AND 0xFF = take_bit 8 w"
    by (simp add: take_bit_eq_mask mask_eq_exp_minus_1)
  then show ?thesis
    by (simp add: unsigned_ucast_eq take_bit_eq_mod unat_mod_distrib)
qed

lemma unat_size_low: "unat (ucast ((word_of_nat n :: size_t) AND 0xFF) :: byte) = n mod 256"
  by (simp add: unat_low_byte unat_of_nat mod_mod_cancel)

lemma div_mod_2_64: "n mod 18446744073709551616 div 256 mod 256 = n div 256 mod (256::nat)"
proof -
  have "n mod 18446744073709551616 div 256 = n div 256 mod (72057594037927936::nat)"
    using mod_mult2_eq [of n 256 72057594037927936] by simp
  then show ?thesis by (simp add: mod_mod_cancel)
qed

lemma unat_drop_8: "unat (drop_bit 8 w) = unat (w :: size_t) div 256"
proof -
  have "unat w < 2 ^ 64" using unsigned_less [of w, where ?'a = nat] by simp
  then show ?thesis unfolding unsigned_drop_bit_eq by (simp add: drop_bit_eq_div take_bit_nat_eq_self)
qed

lemma unat_size_high: "unat (ucast (drop_bit 8 (word_of_nat n :: size_t) AND 0xFF) :: byte) = n div 256 mod 256"
  by (simp only: unat_low_byte unat_drop_8 unat_of_nat) (simp add: take_bit_eq_mod div_mod_2_64)

lemma payload_len_size:
  "unat (payload_len (ucast ((word_of_nat n :: size_t) AND 0xFF)) (ucast (drop_bit 8 (word_of_nat n :: size_t) AND 0xFF)))
   = n mod 65536"
proof -
  have "n mod 256 + 256 * (n div 256 mod 256) = n mod (65536::nat)"
    using mod_mult2_eq [of n 256 256] by simp
  then show ?thesis
    by (simp only: unat_payload_len unat_size_low unat_size_high)
qed

subsection \<open>What the protocol promises\<close>

lemma Serialize_length: "length (Serialize p) = 5 + length (pdata p)"
  by (simp add: Serialize_def Let_def)

text \<open>
  The verdict and the result of the decoder for a buffer of \<open>len\<close> readable bytes. It
  never reads outside the buffer, whatever the bytes are.
\<close>

definition well_framed :: "byte list \<Rightarrow> nat \<Rightarrow> bool" where
  "well_framed data len \<longleftrightarrow> 5 \<le> len \<and> data ! 0 = MAGIC \<and> data ! 1 = VERSION
     \<and> 5 + unat (data ! 3) + 256 * unat (data ! 4) \<le> len"

lemma Deserialize_eq:
  assumes "len \<le> length data"
  shows "Deserialize data len out = Inr (
     if len < 5 \<or> data ! 0 \<noteq> MAGIC \<or> data ! 1 \<noteq> VERSION then (False, out)
     else if \<not> well_framed data len then (False, out\<lparr>ptype := data ! 2\<rparr>)
     else (True, out\<lparr>ptype := data ! 2,
           pdata := take (unat (data ! 3) + 256 * unat (data ! 4)) (drop 5 data)\<rparr>))"
proof (cases "len < 5")
  case True
  then show ?thesis by (simp add: Deserialize_def)
next
  case False
  with assms have "rd data 0 = Inr (data ! 0)" "rd data 1 = Inr (data ! 1)" "rd data 2 = Inr (data ! 2)"
    "rd data 3 = Inr (data ! 3)" "rd data 4 = Inr (data ! 4)" by (auto simp: rd_def)
  with False assms show ?thesis
    by (simp add: Deserialize_def well_framed_def Let_def unat_payload_len add.assoc del: rd_in One_nat_def)
qed

lemma Deserialize_defined: "len \<le> length data \<Longrightarrow> \<exists>r. Deserialize data len out = Inr r"
  by (simp add: Deserialize_eq)

lemma Deserialize_accept:
  assumes "len \<le> length data" "well_framed data len"
  shows "Deserialize data len out = Inr (True, out\<lparr>ptype := data ! 2,
           pdata := take (unat (data ! 3) + 256 * unat (data ! 4)) (drop 5 data)\<rparr>)"
  using assms by (simp add: Deserialize_eq) (auto simp: well_framed_def)

lemma Deserialize_reject:
  assumes "len \<le> length data" "\<not> well_framed data len"
  shows "\<exists>out'. Deserialize data len out = Inr (False, out') \<and> pdata out' = pdata out"
  using assms by (auto simp: Deserialize_eq)

text \<open>Encoding then decoding, with anything behind the packet in the buffer.\<close>

lemma Deserialize_Serialize:
  "Deserialize (Serialize p @ rest) (length (Serialize p @ rest)) out =
   Inr (True, out\<lparr>ptype := ptype p, pdata := take (length (pdata p) mod 65536) (pdata p @ rest)\<rparr>)"
proof -
  let ?lo = "ucast ((word_of_nat (length (pdata p)) :: size_t) AND 0xFF) :: byte"
  let ?hi = "ucast (drop_bit 8 (word_of_nat (length (pdata p)) :: size_t) AND 0xFF) :: byte"
  have ser: "Serialize p @ rest = MAGIC # VERSION # ptype p # ?lo # ?hi # pdata p @ rest"
    by (simp add: Serialize_def Let_def)
  have len: "unat ?lo + 256 * unat ?hi = length (pdata p) mod 65536"
    using payload_len_size [of "length (pdata p)"] by (simp only: unat_payload_len)
  have wf: "well_framed (Serialize p @ rest) (length (Serialize p @ rest))"
    unfolding ser by (simp add: well_framed_def len add.assoc trans_le_add1)
  show ?thesis
    using Deserialize_accept [OF order_refl wf, of out] unfolding ser by (simp add: len)
qed

text \<open>The protocol as a codec: payloads of at most 65535 bytes survive.\<close>

definition protocol_decode :: "byte list \<Rightarrow> (McxPacket \<times> byte list) option" where
  "protocol_decode bs = (case Deserialize bs (length bs) \<lparr>ptype = 0, pdata = []\<rparr> of
     Inr (True, p) \<Rightarrow> Some (p, drop (5 + length (pdata p)) bs) | _ \<Rightarrow> None)"

definition packet_ok :: "McxPacket \<Rightarrow> bool" where
  "packet_ok p \<longleftrightarrow> length (pdata p) \<le> 65535"

interpretation mcx_packet: byte_codec Serialize protocol_decode packet_ok
proof
  fix p rest
  assume "packet_ok p"
  then show "protocol_decode (Serialize p @ rest) = Some (p, rest)"
    using Deserialize_Serialize [of p rest "\<lparr>ptype = 0, pdata = []\<rparr>"]
    by (simp add: protocol_decode_def packet_ok_def Serialize_length)
qed

subsection \<open>The field serializer\<close>

text \<open>
  \<^verbatim>\<open>Append\<close> copies the object representation of a value: the little-endian bytes of a
  word. The decoders take the buffer and the offset and return the value and the new offset;
  they check nothing, so a read past the buffer is \<open>Undefined\<close>.
\<close>

definition Append :: "byte list \<Rightarrow> byte list \<Rightarrow> byte list" where
  "Append buf bytes = buf @ bytes"

definition SerializeString :: "string \<Rightarrow> byte list" where
  "SerializeString str = (let len = (word_of_nat (length str) :: u32) in
     Append (Append [] (le_bytes 4 len)) (map byte_of str))"

definition SerializeUInt32 :: "u32 \<Rightarrow> byte list" where
  "SerializeUInt32 value = Append [] (le_bytes 4 value)"

definition SerializeDouble :: "double \<Rightarrow> byte list" where
  "SerializeDouble value = Append [] (le_bytes 8 value)"

definition DeserializeUInt32 :: "byte list \<Rightarrow> nat \<Rightarrow> (u32 \<times> nat) result" where
  "DeserializeUInt32 data offset =
     rbind (rd_range data offset 4) (\<lambda>bs. Inr (le_word bs, offset + 4))"

definition DeserializeDouble :: "byte list \<Rightarrow> nat \<Rightarrow> (double \<times> nat) result" where
  "DeserializeDouble data offset =
     rbind (rd_range data offset 8) (\<lambda>bs. Inr (le_word bs, offset + 8))"

definition DeserializeString :: "byte list \<Rightarrow> nat \<Rightarrow> (string \<times> nat) result" where
  "DeserializeString data offset =
     rbind (rd_range data offset 4) (\<lambda>lb. let len = unat (le_word lb :: u32); offset = offset + 4 in
       rbind (rd_range data offset len) (\<lambda>bs. Inr (map char_of_byte bs, offset + len)))"

lemma DeserializeUInt32_mid:
  "DeserializeUInt32 (pre @ SerializeUInt32 v @ post) (length pre) = Inr (v, length pre + length (SerializeUInt32 v))"
  by (simp add: DeserializeUInt32_def SerializeUInt32_def Append_def rd_range_mid)

lemma DeserializeDouble_mid:
  "DeserializeDouble (pre @ SerializeDouble v @ post) (length pre) = Inr (v, length pre + length (SerializeDouble v))"
  by (simp add: DeserializeDouble_def SerializeDouble_def Append_def rd_range_mid)

lemma DeserializeString_mid:
  assumes "length s < 2 ^ 32"
  shows "DeserializeString (pre @ SerializeString s @ post) (length pre) =
         Inr (s, length pre + length (SerializeString s))"
proof -
  let ?len = "le_bytes 4 (word_of_nat (length s) :: u32)"
  have ser: "pre @ SerializeString s @ post = pre @ ?len @ map byte_of s @ post"
    by (simp add: SerializeString_def Append_def Let_def)
  have "unat (le_word ?len :: u32) = length s"
    using assms by (simp add: unat_of_nat)
  moreover have "rd_range ((pre @ ?len) @ map byte_of s @ post) (length pre + 4) (length s) = Inr (map byte_of s)"
    using rd_range_mid [of "map byte_of s" "length s" "pre @ ?len" post] by simp
  moreover have "length (SerializeString s) = 4 + length s"
    by (simp add: SerializeString_def Append_def Let_def)
  ultimately show ?thesis
    unfolding ser by (simp add: DeserializeString_def Let_def rd_range_mid)
qed

definition take_field :: "(byte list \<Rightarrow> nat \<Rightarrow> ('a \<times> nat) result) \<Rightarrow> byte list \<Rightarrow> ('a \<times> byte list) option" where
  "take_field des bs = (case des bs 0 of Inr (v, off) \<Rightarrow> Some (v, drop off bs) | Inl _ \<Rightarrow> None)"

interpretation uint32_field: byte_codec SerializeUInt32 "take_field DeserializeUInt32" "\<lambda>_. True"
  using DeserializeUInt32_mid [of "[]"] by unfold_locales (simp add: take_field_def)

interpretation double_field: byte_codec SerializeDouble "take_field DeserializeDouble" "\<lambda>_. True"
  using DeserializeDouble_mid [of "[]"] by unfold_locales (simp add: take_field_def)

interpretation string_field: byte_codec SerializeString "take_field DeserializeString" "\<lambda>s. length s < 2 ^ 32"
  using DeserializeString_mid [of _ "[]"] by unfold_locales (simp add: take_field_def)

subsection \<open>Properties\<close>

text \<open>
  C15. Round trip of the bridge protocol over a stream: packets whose payloads fit the 16-bit
  length field, serialized one after the other and followed by anything, are read back one by
  one, in order, and what follows is left untouched.
\<close>

theorem packet_stream_roundtrip:
  assumes "\<forall>p \<in> set ps. length (pdata p) \<le> 65535"
  shows "mcx_packet.dec_stream (length ps) (mcx_packet.enc_stream ps @ rest) = Some (ps, rest)"
  using assms by (intro mcx_packet.dec_enc_stream) (simp add: packet_ok_def)

theorem packet_stream_roundtrip_witness:
  "mcx_packet.dec_stream 2 (mcx_packet.enc_stream
     [CreatePlayerQuit ''ab'', \<lparr>ptype = PT_HELLO, pdata = []\<rparr>] @ [7]) =
   Some ([CreatePlayerQuit ''ab'', \<lparr>ptype = PT_HELLO, pdata = []\<rparr>], [7])"
proof -
  have fits: "\<forall>p \<in> set [CreatePlayerQuit ''ab'', \<lparr>ptype = PT_HELLO, pdata = []\<rparr>]. length (pdata p) \<le> 65535"
    by (simp add: create_defs)
  show ?thesis
    using packet_stream_roundtrip [OF fits, of "[7]"]
    by (simp add: numeral_2_eq_2 del: mcx_packet.dec_stream.simps mcx_packet.enc_stream.simps)
qed

text \<open>
  What a serialized packet decodes to in general: the type, and of the payload only the
  first \<open>size mod 65536\<close> bytes, because the length field has 16 bits and
  \<^verbatim>\<open>Serialize\<close> does not refuse longer payloads. A payload of 65536 bytes decodes to
  an empty one and is still accepted.
\<close>

theorem packet_length_wraps:
  "Deserialize (Serialize p) (length (Serialize p)) out =
     Inr (True, p\<lparr>pdata := take (length (pdata p) mod 65536) (pdata p)\<rparr>)"
proof -
  have "out\<lparr>ptype := ptype p, pdata := d\<rparr> = p\<lparr>pdata := d\<rparr>" for d
    by (cases p; cases out) simp
  with Deserialize_Serialize [of p "[]" out] show ?thesis by simp
qed

text \<open>
  C16. The decoder on arbitrary bytes: for a buffer with at least \<open>len\<close> readable bytes it
  always returns (it never reads past \<open>len\<close>), accepts exactly the well-framed buffers, returns
  the type byte and the announced slice when it accepts, and leaves the payload of the caller's
  packet alone when it rejects.
\<close>

theorem deserialize_verdict:
  assumes "len \<le> length data"
  shows "\<exists>ok out'. Deserialize data len out = Inr (ok, out')
     \<and> ok = (5 \<le> len \<and> data ! 0 = MAGIC \<and> data ! 1 = VERSION \<and> 5 + unat (data ! 3) + 256 * unat (data ! 4) \<le> len)
     \<and> (if ok then ptype out' = data ! 2 \<and> pdata out' = take (unat (data ! 3) + 256 * unat (data ! 4)) (drop 5 data)
        else pdata out' = pdata out)"
  using assms by (auto simp: Deserialize_eq well_framed_def)

theorem deserialize_verdict_witness:
  "\<exists>ok out'. Deserialize [0x4D, 1, 0x11, 2, 0, 65, 66] 7 \<lparr>ptype = 0, pdata = []\<rparr> = Inr (ok, out')
     \<and> ok \<and> ptype out' = 0x11 \<and> pdata out' = [65, 66]"
  using deserialize_verdict [of 7 "[0x4D, 1, 0x11, 2, 0, 65, 66]" "\<lparr>ptype = 0, pdata = []\<rparr>"]
  by (auto simp: MAGIC_def VERSION_def)

text \<open>
  The two-field payloads (join, chat, action): after a trip over the wire the receiver
  finds the first string before the first zero byte and the second behind it, provided the
  first has no zero byte and both fit.
\<close>

theorem two_field_packets_recover:
  assumes "CHR 0x00 \<notin> set a" "length a + length b < 65535"
    and "mk \<in> {CreatePlayerJoin, CreateChatMessage, CreateAction}"
  shows "\<exists>p. Deserialize (Serialize (mk a b)) (length (Serialize (mk a b))) out = Inr (True, p)
     \<and> ptype p = ptype (mk [] [])
     \<and> map char_of_byte (takeWhile (\<lambda>x. x \<noteq> 0) (pdata p)) = a
     \<and> map char_of_byte (tl (dropWhile (\<lambda>x. x \<noteq> 0) (pdata p))) = b"
proof -
  have nz: "x \<noteq> 0" if "x \<in> set (map byte_of a)" for x
  proof
    assume "x = 0"
    with that obtain c where "c \<in> set a" "byte_of c = 0" by auto
    moreover have "byte_of (CHR 0x00) = 0" by (simp add: byte_of_def)
    ultimately show False using assms(1) byte_of_eq_iff by metis
  qed
  have d: "pdata (mk a b) = map byte_of a @ 0 # map byte_of b" "ptype (mk a b) = ptype (mk [] [])"
    using assms(3) by (auto simp: create_defs)
  have "takeWhile (\<lambda>x. x \<noteq> 0) (map byte_of a @ 0 # map byte_of b) = map byte_of a"
    "dropWhile (\<lambda>x. x \<noteq> 0) (map byte_of a @ 0 # map byte_of b) = 0 # map byte_of b"
    using nz by (auto intro!: takeWhile_append_stop dropWhile_append_stop)
  then show ?thesis
    using Deserialize_Serialize [of "mk a b" "[]" out] assms(2) d by simp
qed

theorem two_field_packets_recover_witness:
  "\<exists>p. Deserialize (Serialize (CreateChatMessage ''u1'' ''hi'')) (length (Serialize (CreateChatMessage ''u1'' ''hi'')))
       \<lparr>ptype = 0, pdata = []\<rparr> = Inr (True, p)
     \<and> map char_of_byte (takeWhile (\<lambda>x. x \<noteq> 0) (pdata p)) = ''u1''
     \<and> map char_of_byte (tl (dropWhile (\<lambda>x. x \<noteq> 0) (pdata p))) = ''hi''"
  using two_field_packets_recover [of "''u1''" "''hi''" CreateChatMessage "\<lparr>ptype = 0, pdata = []\<rparr>"]
  by auto

text \<open>
  Round trip of the field serializer: a string, a 32-bit integer and a double written one
  after the other anywhere in a buffer are read back with the offset moving to the end of each
  field, for strings shorter than $2^{32}$.
\<close>

theorem serializer_fields_roundtrip:
  assumes "length s < 2 ^ 32"
  shows "\<exists>o1 o2. DeserializeString (pre @ SerializeString s @ SerializeUInt32 v @ SerializeDouble d @ post) (length pre) = Inr (s, o1)
     \<and> DeserializeUInt32 (pre @ SerializeString s @ SerializeUInt32 v @ SerializeDouble d @ post) o1 = Inr (v, o2)
     \<and> DeserializeDouble (pre @ SerializeString s @ SerializeUInt32 v @ SerializeDouble d @ post) o2 =
         Inr (d, length (pre @ SerializeString s @ SerializeUInt32 v @ SerializeDouble d))"
  using DeserializeString_mid [OF assms, of pre "SerializeUInt32 v @ SerializeDouble d @ post"]
    DeserializeUInt32_mid [of "pre @ SerializeString s" v "SerializeDouble d @ post"]
    DeserializeDouble_mid [of "pre @ SerializeString s @ SerializeUInt32 v" d post]
  by (simp add: add.assoc)

theorem serializer_fields_roundtrip_witness:
  "\<exists>o1 o2. DeserializeString ([1] @ SerializeString ''xy'' @ SerializeUInt32 9 @ SerializeDouble 5 @ []) 1 = Inr (''xy'', o1)
     \<and> DeserializeUInt32 ([1] @ SerializeString ''xy'' @ SerializeUInt32 9 @ SerializeDouble 5 @ []) o1 = Inr (9, o2)"
  using serializer_fields_roundtrip [of "''xy''" "[1]" 9 5 "[]"] by auto

text \<open>
  The string decoder trusts the length it reads: it has undefined behaviour exactly when
  the four length bytes or the announced string reach past the buffer, which a peer can cause
  with any large length prefix.
\<close>

theorem deserialize_string_undefined_iff:
  "DeserializeString data offset = Inl Undefined \<longleftrightarrow>
     length data < offset + 4
     \<or> length data < offset + 4 + unat (le_word (take 4 (drop offset data)) :: u32)"
  by (auto simp: DeserializeString_def rd_range_def Let_def)

end
