(* ===== verification/MCX_Events.thy ===== *)
theory MCX_Events
  imports MCX_Double
begin

text \<open>
  Players and events (\<^verbatim>\<open>include/mcx/events.hpp\<close>), their printed names
  (\<^verbatim>\<open>core/event_utils.cpp\<close>), the built-in demo events
  (\<^verbatim>\<open>integration/fake_event_source.cpp\<close>) and the event bus
  (\<^verbatim>\<open>core/event_bus.cpp\<close>).
\<close>

subsection \<open>Players and events\<close>

record Vec3 =
  vx :: double
  vy :: double
  vz :: double

definition default_Vec3 :: Vec3 where
  "default_Vec3 = \<lparr>vx = 0, vy = 0, vz = 0\<rparr>"

record Player =
  pid :: string
  pname :: string
  pposition :: "Vec3 option"
  pscene :: string

definition default_Player :: Player where
  "default_Player = \<lparr>pid = [], pname = [], pposition = None, pscene = []\<rparr>"

datatype EVENT_TYPE = PLAYER_JOIN | PLAYER_QUIT | CHAT | COMMAND | SCENE_LOADED

record PlayerJoinEvent =
  join_player :: Player

record PlayerQuitEvent =
  quit_player :: Player

record ChatEvent =
  chat_player :: Player
  chat_message :: string

record CommandEvent =
  command_player :: "Player option"
  command_text :: string
  command_args :: "string list"

record SceneLoadedEvent =
  loaded_scene :: string

text \<open>The tagged container: nothing ties the tag to the payload that is present.\<close>

record Event =
  etype :: EVENT_TYPE
  playerJoin :: "PlayerJoinEvent option"
  playerQuit :: "PlayerQuitEvent option"
  chat :: "ChatEvent option"
  command :: "CommandEvent option"
  sceneLoaded :: "SceneLoadedEvent option"

definition default_Event :: Event where
  "default_Event = \<lparr>etype = PLAYER_JOIN, playerJoin = None, playerQuit = None, chat = None,
     command = None, sceneLoaded = None\<rparr>"

definition join_event :: "Player \<Rightarrow> Event" where
  "join_event p = default_Event\<lparr>playerJoin := Some \<lparr>join_player = p\<rparr>\<rparr>"

definition quit_event :: "Player \<Rightarrow> Event" where
  "quit_event p = default_Event\<lparr>etype := PLAYER_QUIT, playerQuit := Some \<lparr>quit_player = p\<rparr>\<rparr>"

definition chat_event :: "Player \<Rightarrow> string \<Rightarrow> Event" where
  "chat_event p m = default_Event\<lparr>etype := CHAT, chat := Some \<lparr>chat_player = p, chat_message = m\<rparr>\<rparr>"

lemmas event_defs = default_Event_def join_event_def quit_event_def chat_event_def

subsection \<open>Printing an event\<close>

fun event_name :: "EVENT_TYPE \<Rightarrow> string" where
  "event_name PLAYER_JOIN = ''player_join''"
| "event_name PLAYER_QUIT = ''player_quit''"
| "event_name CHAT = ''chat''"
| "event_name COMMAND = ''command''"
| "event_name SCENE_LOADED = ''scene_loaded''"

definition PrintEvent :: "Event \<Rightarrow> console list" where
  "PrintEvent event = [Stdout (''[MCX] Event: '' @ event_name (etype event) @ nl)]"

lemma event_name_inj: "event_name a = event_name b \<longleftrightarrow> a = b"
  by (cases a; cases b) simp_all

subsection \<open>The demo events\<close>

definition fake_player :: Player where
  "fake_player = default_Player\<lparr>pid := ''uuid-1234'', pname := ''TestPlayer''\<rparr>"

definition BuildFakeEvents :: "Event list" where
  "BuildFakeEvents = (let player = fake_player;
     join = default_Event\<lparr>etype := PLAYER_JOIN, playerJoin := Some \<lparr>join_player = player\<rparr>\<rparr>;
     chatHelloEvent = default_Event\<lparr>etype := CHAT,
       chat := Some \<lparr>chat_player = player, chat_message = ''!hello''\<rparr>\<rparr>;
     chatSceneEvent = default_Event\<lparr>etype := CHAT,
       chat := Some \<lparr>chat_player = player, chat_message = ''!scene test''\<rparr>\<rparr>;
     command = default_Event\<lparr>etype := COMMAND,
       command := Some \<lparr>command_player = Some player, command_text = ''mcx:test'',
         command_args = [''arg1'', ''arg2'']\<rparr>\<rparr>
     in [join, chatHelloEvent, chatSceneEvent, command])"

subsection \<open>The event bus\<close>

text \<open>
  Handlers act on the state \<open>'c\<close> of the subscribers and do not subscribe or clear while a
  publication runs (the code iterates over the handler vector without protection).
\<close>

record 'c EventBus =
  handlers :: "(EVENT_TYPE, (Event \<Rightarrow> 'c effect) list) umap"

definition empty_bus :: "'c EventBus" where
  "empty_bus = \<lparr>handlers = fmempty\<rparr>"

definition handlers_of :: "EVENT_TYPE \<Rightarrow> 'c EventBus \<Rightarrow> (Event \<Rightarrow> 'c effect) list" where
  "handlers_of t bus = (case fmlookup (handlers bus) t of None \<Rightarrow> [] | Some hs \<Rightarrow> hs)"

definition Subscribe :: "EVENT_TYPE \<Rightarrow> (Event \<Rightarrow> 'c effect) \<Rightarrow> 'c EventBus \<Rightarrow> 'c EventBus" where
  "Subscribe t handler bus = bus\<lparr>handlers := fmupd t (handlers_of t bus @ [handler]) (handlers bus)\<rparr>"

definition Publish :: "Event \<Rightarrow> 'c EventBus \<Rightarrow> 'c effect" where
  "Publish event bus = (case fmlookup (handlers bus) (etype event) of
     None \<Rightarrow> (\<lambda>c. (c, None))
   | Some hs \<Rightarrow> run_effects (map (\<lambda>h. h event) hs))"

definition Clear_bus :: "'c EventBus \<Rightarrow> 'c EventBus" where
  "Clear_bus bus = bus\<lparr>handlers := fmempty\<rparr>"

lemma handlers_of_Subscribe [simp]:
  "handlers_of t (Subscribe u h bus) = (if t = u then handlers_of t bus @ [h] else handlers_of t bus)"
  by (simp add: handlers_of_def Subscribe_def split: option.splits)

lemma handlers_of_empty [simp]: "handlers_of t empty_bus = []" "handlers_of t (Clear_bus bus) = []"
  by (simp_all add: handlers_of_def empty_bus_def Clear_bus_def)

lemma Publish_handlers_of: "Publish event bus = run_effects (map (\<lambda>h. h event) (handlers_of (etype event) bus))"
  by (auto simp: Publish_def handlers_of_def fun_eq_iff split: option.split)

text \<open>The handlers of a type after a sequence of subscriptions are those of that type, in order.\<close>

lemma handlers_of_subscriptions:
  "handlers_of t (fold (\<lambda>(u, h). Subscribe u h) subs bus) = handlers_of t bus @ map snd (filter (\<lambda>(u, h). u = t) subs)"
  by (induction subs arbitrary: bus) auto

text \<open>
  Publishing after any sequence of subscriptions on a fresh bus runs exactly the handlers
  of the event's type, in the order they subscribed, stopping at the first that throws;
  subscriptions to other types do not matter.
\<close>

theorem publish_runs_subscribers_in_order:
  "Publish event (fold (\<lambda>(t, h). Subscribe t h) subs empty_bus) c =
   run_effects (map (\<lambda>(t, h). h event) (filter (\<lambda>(t, h). t = etype event) subs)) c"
  unfolding Publish_handlers_of handlers_of_subscriptions
  by (simp add: case_prod_unfold comp_def)

end
