(* ===== verification/MCX_Actions.thy ===== *)
theory MCX_Actions
  imports MCX_Events
begin

text \<open>
  Actions (\<^verbatim>\<open>include/mcx/actions.hpp\<close>), the two interpreters that apply them
  (\<^verbatim>\<open>core/action_utils.cpp\<close> only logs, \<^verbatim>\<open>core/action_applier.cpp\<close> also changes the
  scene) and the scene manager (\<^verbatim>\<open>core/scene_manager.cpp\<close>).
\<close>

subsection \<open>Actions\<close>

datatype ACTION_KIND = SEND_MESSAGE | BROADCAST | SEND_TITLE | TELEPORT | SET_SPAWN | LOAD_SCENE

text \<open>
  The variant of the six action structs; the arguments are the struct's fields in order. The
  field \<^verbatim>\<open>kind\<close> of each struct always has its default, which \<open>kind\<close> returns.
\<close>

datatype Action =
    SendMessageAction string string
  | BroadcastAction string
  | SendTitleAction string string string
  | TeleportAction string Vec3
  | SetSpawnAction string Vec3
  | LoadSceneAction string

type_synonym ActionList = "Action list"

fun kind :: "Action \<Rightarrow> ACTION_KIND" where
  "kind (SendMessageAction p t) = SEND_MESSAGE"
| "kind (BroadcastAction t) = BROADCAST"
| "kind (SendTitleAction p t s) = SEND_TITLE"
| "kind (TeleportAction p v) = TELEPORT"
| "kind (SetSpawnAction p v) = SET_SPAWN"
| "kind (LoadSceneAction s) = LOAD_SCENE"

definition pos_text :: "Vec3 \<Rightarrow> string" where
  "pos_text v = '', pos=('' @ to_string_double (vx v) @ '', '' @ to_string_double (vy v) @ '', ''
     @ to_string_double (vz v) @ '')''"

subsection \<open>Logging actions\<close>

fun log_action :: "Action \<Rightarrow> console" where
  "log_action (SendMessageAction p t) = log_Info (''Action: sendMessage -> playerId='' @ p @ '', text='' @ t)"
| "log_action (BroadcastAction t) = log_Info (''Action: broadcast -> text='' @ t)"
| "log_action (SendTitleAction p t s) = log_Info (''Action: sendTitle -> playerId='' @ p @ '', title='' @ t)"
| "log_action (TeleportAction p v) = log_Info (''Action: teleport -> playerId='' @ p @ pos_text v)"
| "log_action (SetSpawnAction p v) = log_Info (''Action: setSpawn -> playerId='' @ p @ pos_text v)"
| "log_action (LoadSceneAction s) = log_Info (''Action: loadScene -> scene='' @ s)"

definition ApplyActionsToLog :: "ActionList \<Rightarrow> console list" where
  "ApplyActionsToLog actions = (if actions = [] then [log_Info ''No actions to apply''] else map log_action actions)"

subsection \<open>The scene manager\<close>

record SceneManager =
  currentScene :: string

definition GetCurrentScene :: "SceneManager \<Rightarrow> string" where
  "GetCurrentScene sm = currentScene sm"

definition LoadScene :: "string \<Rightarrow> SceneManager \<Rightarrow> SceneManager \<times> console list" where
  "LoadScene name sm =
     (if currentScene sm = name then (sm, [log_Info (''Scene '' @ [CHR 0x27] @ name @ [CHR 0x27] @ '' is already loaded'')])
      else let previousScene = currentScene sm; sm = sm\<lparr>currentScene := name\<rparr> in
        (sm, if previousScene = [] then [log_Info (''Loaded scene: '' @ name)]
             else [log_Info (''Scene transition: '' @ previousScene @ '' -> '' @ name)]))"

subsection \<open>The action applier\<close>

fun apply_one :: "Action \<Rightarrow> SceneManager \<Rightarrow> SceneManager \<times> console list" where
  "apply_one (SendMessageAction p t) sm = (sm, [log_Info (''Action: sendMessage -> playerId='' @ p @ '', text='' @ t)])"
| "apply_one (BroadcastAction t) sm = (sm, [log_Info (''Action: broadcast -> text='' @ t)])"
| "apply_one (SendTitleAction p t s) sm = (sm, [log_Info (''Action: sendTitle -> playerId='' @ p @ '', title='' @ t)])"
| "apply_one (TeleportAction p v) sm = (sm, [log_Info (''Action: teleport -> playerId='' @ p @ pos_text v)])"
| "apply_one (SetSpawnAction p v) sm = (sm, [log_Info (''Action: setSpawn -> playerId='' @ p @ pos_text v)])"
| "apply_one (LoadSceneAction s) sm = LoadScene s sm"

fun apply_each :: "ActionList \<Rightarrow> SceneManager \<Rightarrow> SceneManager \<times> console list" where
  "apply_each [] sm = (sm, [])"
| "apply_each (a # as) sm = (let (sm1, o1) = apply_one a sm; (sm2, o2) = apply_each as sm1 in (sm2, o1 @ o2))"

definition Apply :: "ActionList \<Rightarrow> SceneManager \<Rightarrow> SceneManager \<times> console list" where
  "Apply actions sm = (if actions = [] then (sm, [log_Info ''No actions to apply'']) else apply_each actions sm)"

subsection \<open>Lemmas\<close>

fun scenes_of :: "ActionList \<Rightarrow> string list" where
  "scenes_of [] = []"
| "scenes_of (LoadSceneAction s # as) = s # scenes_of as"
| "scenes_of (_ # as) = scenes_of as"

lemma scenes_of_append: "scenes_of (as @ bs) = scenes_of as @ scenes_of bs"
  by (induction as rule: scenes_of.induct) auto

lemma LoadScene_scene [simp]: "currentScene (fst (LoadScene n sm)) = n"
  by (simp add: LoadScene_def Let_def)

lemma LoadScene_one_line: "length (snd (LoadScene n sm)) = 1"
  by (simp add: LoadScene_def Let_def)

lemma apply_one_no_scene: "kind a \<noteq> LOAD_SCENE \<Longrightarrow> apply_one a sm = (sm, [log_action a])"
  by (cases a) simp_all

lemma apply_one_line: "length (snd (apply_one a sm)) = 1"
  by (cases a) (simp_all add: LoadScene_one_line)

lemma apply_each_scene:
  "currentScene (fst (apply_each as sm)) = last (currentScene sm # scenes_of as)"
proof (induction as arbitrary: sm)
  case Nil
  then show ?case by simp
next
  case (Cons a as)
  show ?case
    by (cases a) (auto simp: Cons split_beta Let_def)
qed

lemma apply_each_lines: "length (snd (apply_each as sm)) = length as"
  by (induction as arbitrary: sm) (simp_all add: split_beta Let_def apply_one_line)

lemma apply_each_no_scene: "scenes_of as = [] \<Longrightarrow> apply_each as sm = (sm, map log_action as)"
  by (induction as rule: scenes_of.induct) simp_all

text \<open>
  Applying a list of actions: the scene afterwards is the target of the last scene load of
  the list, or the old one if there is none; every action writes exactly one line, and an empty
  list writes one line too.
\<close>

theorem apply_final_scene:
  "currentScene (fst (Apply actions sm)) = last (currentScene sm # scenes_of actions)
   \<and> length (snd (Apply actions sm)) = max 1 (length actions)"
  by (cases actions) (auto simp: Apply_def apply_each_scene apply_each_lines simp del: apply_each.simps)

text \<open>
  The applier and the log-only interpreter agree: on a list without scene loads they write
  the same lines, and the applier leaves the scene manager alone.
\<close>

theorem apply_agrees_with_log:
  assumes "scenes_of actions = []"
  shows "Apply actions sm = (sm, ApplyActionsToLog actions)"
  using assms by (simp add: Apply_def ApplyActionsToLog_def apply_each_no_scene)

theorem apply_agrees_with_log_witness:
  "Apply [BroadcastAction ''hi'', TeleportAction ''p1'' default_Vec3] \<lparr>currentScene = ''lobby''\<rparr> =
   (\<lparr>currentScene = ''lobby''\<rparr>, ApplyActionsToLog [BroadcastAction ''hi'', TeleportAction ''p1'' default_Vec3])"
  by (rule apply_agrees_with_log) simp

text \<open>Loading the scene that is already current changes nothing but the log.\<close>

lemma LoadScene_idem: "fst (LoadScene n (fst (LoadScene n sm))) = fst (LoadScene n sm)"
  by (simp add: LoadScene_def Let_def)

end
