(* ===== verification/MCX_Modules.thy ===== *)
theory MCX_Modules
  imports MCX_Actions
begin

text \<open>
  The loader of native modules (\<^verbatim>\<open>core/module_loader.cpp\<close>) and the example module
  (\<^verbatim>\<open>examples/modules/sample_module.cpp\<close>). The dynamic linker is a parameter; which
  libraries it holds open is a ghost field of the loader.
\<close>

subsection \<open>Modules and the dynamic linker\<close>

record ModuleInfo =
  info_name :: string
  info_version :: string
  info_author :: string
  info_apiVersion :: u32

definition MCX_MODULE_API_VERSION :: u32 where "MCX_MODULE_API_VERSION = 1"

text \<open>A module instance: its virtual methods, acting on the state \<open>'w\<close> of the world.\<close>

record 'w IModule =
  GetInfo :: ModuleInfo
  OnLoad :: "'w \<Rightarrow> 'w \<times> console list \<times> (exn + bool)"
  OnUnload :: "'w \<Rightarrow> 'w \<times> console list \<times> exn option"
  OnEvent :: "Event \<Rightarrow> ActionList \<Rightarrow> 'w \<Rightarrow> 'w \<times> console list \<times> ActionList \<times> exn option"

text \<open>\<open>dlopen\<close> and the symbol \<^verbatim>\<open>CreateModule\<close> of a library; null pointers are \<open>None\<close>.\<close>

record 'w DynLink =
  dl_exists :: "string \<Rightarrow> bool"
  dl_open :: "string \<Rightarrow> nat option"
  dl_create :: "nat \<Rightarrow> ('w \<Rightarrow> 'w \<times> console list \<times> (exn + 'w IModule option)) option"

record 'w LoadedModule =
  mpath :: string
  minstance :: "'w IModule"
  minfo :: ModuleInfo
  mhandle :: nat

record 'w ModuleLoader =
  modules :: "'w LoadedModule list"
  open_handles :: "nat multiset"

definition empty_loader :: "'w ModuleLoader" where
  "empty_loader = \<lparr>modules = [], open_handles = {#}\<rparr>"

definition dlclose :: "nat \<Rightarrow> 'w ModuleLoader \<Rightarrow> 'w ModuleLoader" where
  "dlclose h l = l\<lparr>open_handles := open_handles l - {#h#}\<rparr>"

subsection \<open>Loading\<close>

definition LoadModule :: "'w DynLink \<Rightarrow> string \<Rightarrow> 'w ModuleLoader \<Rightarrow> 'w \<Rightarrow>
    'w ModuleLoader \<times> 'w \<times> console list \<times> (exn + bool)" where
  "LoadModule dl path l w =
     (if \<not> dl_exists dl path then (l, w, [log_Error (''Module not found: '' @ path)], Inr False)
      else case dl_open dl path of
        None \<Rightarrow> (l, w, [log_Error (''Failed to load module: '' @ path)], Inr False)
      | Some h \<Rightarrow>
        let l = l\<lparr>open_handles := add_mset h (open_handles l)\<rparr> in
        (case dl_create dl h of
          None \<Rightarrow> (dlclose h l, w, [log_Error (''Module missing CreateModule export: '' @ path)], Inr False)
        | Some createFunc \<Rightarrow>
          (case createFunc w of
            (w, out, Inl e) \<Rightarrow> (l, w, out, Inl e)
          | (w, out, Inr None) \<Rightarrow>
              (dlclose h l, w, out @ [log_Error (''Module CreateModule returned null: '' @ path)], Inr False)
          | (w, out, Inr (Some inst)) \<Rightarrow>
            let info = GetInfo inst in
            if info_apiVersion info \<noteq> MCX_MODULE_API_VERSION then
              (dlclose h l, w, out @ [log_Error (''Module API version mismatch: '' @ path)], Inr False)
            else (case OnLoad inst w of
              (w, out2, Inl e) \<Rightarrow> (l, w, out @ out2, Inl e)
            | (w, out2, Inr False) \<Rightarrow>
                (dlclose h l, w, out @ out2 @ [log_Error (''Module OnLoad failed: '' @ path)], Inr False)
            | (w, out2, Inr True) \<Rightarrow>
                (l\<lparr>modules := modules l @ [\<lparr>mpath = path, minstance = inst, minfo = info, mhandle = h\<rparr>]\<rparr>, w,
                 out @ out2 @ [log_Info (''Module loaded: '' @ info_name info @ '' v'' @ info_version info)], Inr True)))))"

subsection \<open>Unloading\<close>

text \<open>The first loaded module of a name, as the index \<^verbatim>\<open>std::find_if\<close> stops at.\<close>

fun find_module :: "string \<Rightarrow> 'w LoadedModule list \<Rightarrow> nat option" where
  "find_module name [] = None"
| "find_module name (m # ms) = (if info_name (minfo m) = name then Some 0 else map_option Suc (find_module name ms))"

definition UnloadModule :: "string \<Rightarrow> 'w ModuleLoader \<Rightarrow> 'w \<Rightarrow> 'w ModuleLoader \<times> 'w \<times> console list \<times> exn option" where
  "UnloadModule name l w = (case find_module name (modules l) of
     None \<Rightarrow> (l, w, [], None)
   | Some i \<Rightarrow> (case OnUnload (minstance (modules l ! i)) w of
       (w, out, Some e) \<Rightarrow> (l, w, out, Some e)
     | (w, out, None) \<Rightarrow>
         ((dlclose (mhandle (modules l ! i)) l)\<lparr>modules := take i (modules l) @ drop (Suc i) (modules l)\<rparr>,
          w, out @ [log_Info (''Module unloaded: '' @ name)], None)))"

text \<open>The loop of \<^verbatim>\<open>UnloadAll\<close>: a throw leaves it before the vector is cleared.\<close>

fun unload_each :: "'w LoadedModule list \<Rightarrow> 'w ModuleLoader \<Rightarrow> 'w \<Rightarrow> 'w ModuleLoader \<times> 'w \<times> console list \<times> exn option" where
  "unload_each [] l w = (l, w, [], None)"
| "unload_each (m # ms) l w = (case OnUnload (minstance m) w of
     (w, out, Some e) \<Rightarrow> (l, w, out, Some e)
   | (w, out, None) \<Rightarrow> (case unload_each ms (dlclose (mhandle m) l) w of
       (l, w, out2, ex) \<Rightarrow> (l, w, out @ out2, ex)))"

definition UnloadAll :: "'w ModuleLoader \<Rightarrow> 'w \<Rightarrow> 'w ModuleLoader \<times> 'w \<times> console list \<times> exn option" where
  "UnloadAll l w = (case unload_each (modules l) l w of
     (l, w, out, Some e) \<Rightarrow> (l, w, out, Some e)
   | (l, w, out, None) \<Rightarrow> (l\<lparr>modules := []\<rparr>, w, out, None))"

subsection \<open>Dispatching\<close>

fun dispatch :: "'w LoadedModule list \<Rightarrow> Event \<Rightarrow> ActionList \<Rightarrow> 'w \<Rightarrow> 'w \<times> console list \<times> ActionList" where
  "dispatch [] event actions w = (w, [], actions)"
| "dispatch (m # ms) event actions w = (case OnEvent (minstance m) event actions w of
     (w, out, actions, ex) \<Rightarrow>
       (case dispatch ms event actions w of (w, out2, actions) \<Rightarrow>
          (w, out @ (case ex of None \<Rightarrow> []
             | Some e \<Rightarrow> [log_Error (''Module exception in '' @ info_name (minfo m) @ '': '' @ exn_text e)]) @ out2,
           actions)))"

definition DispatchEvent :: "'w ModuleLoader \<Rightarrow> Event \<Rightarrow> ActionList \<Rightarrow> 'w \<Rightarrow> 'w \<times> console list \<times> ActionList" where
  "DispatchEvent l event actions w = dispatch (modules l) event actions w"

definition GetLoadedModules :: "'w ModuleLoader \<Rightarrow> ModuleInfo list" where
  "GetLoadedModules l = map minfo (modules l)"

subsection \<open>The example module\<close>

definition SampleModule :: "'w IModule" where
  "SampleModule = \<lparr>
     GetInfo = \<lparr>info_name = ''SampleModule'', info_version = ''1.0.0'', info_author = ''MCX Team'', info_apiVersion = 1\<rparr>,
     OnLoad = (\<lambda>w. (w, [log_Info ''SampleModule loaded''], Inr True)),
     OnUnload = (\<lambda>w. (w, [log_Info ''SampleModule unloaded''], None)),
     OnEvent = (\<lambda>event actions w. (w,
       (case chat event of
          Some c \<Rightarrow> if etype event = CHAT \<and> chat_message c = ''!sample''
            then [log_Info ''SampleModule handled !sample command''] else []
        | None \<Rightarrow> []), actions, None))\<rparr>"

definition sample_CreateModule :: "'w \<Rightarrow> 'w \<times> console list \<times> (exn + 'w IModule option)" where
  "sample_CreateModule w = (w, [], Inr (Some SampleModule))"

subsection \<open>The ledger of handles\<close>

lemma dlclose_fields [simp]:
  "modules (dlclose h l) = modules l" "open_handles (dlclose h l) = open_handles l - {#h#}"
  by (simp_all add: dlclose_def)

lemma LoadModule_no_throw:
  assumes "LoadModule dl path l w = (l', w', out, Inr ok)"
  shows "(if ok then \<exists>h inst. dl_open dl path = Some h \<and> l' = l\<lparr>open_handles := add_mset h (open_handles l),
      modules := modules l @ [\<lparr>mpath = path, minstance = inst, minfo = GetInfo inst, mhandle = h\<rparr>]\<rparr>
      \<and> info_apiVersion (GetInfo inst) = MCX_MODULE_API_VERSION
      \<and> (\<exists>f w1 o1. dl_create dl h = Some f \<and> f w = (w1, o1, Inr (Some inst)))
    else l' = l)"
  using assms
  by (cases l) (auto simp: LoadModule_def Let_def dlclose_def
      split: if_splits option.splits sum.splits prod.splits bool.splits)

lemma LoadModule_throw:
  assumes "LoadModule dl path l w = (l', w', out, Inl e)"
  shows "\<exists>h f. dl_open dl path = Some h \<and> l' = l\<lparr>open_handles := add_mset h (open_handles l)\<rparr>
    \<and> dl_create dl h = Some f \<and> (\<exists>w1 o1. f w = (w1, o1, Inl e)
      \<or> (\<exists>inst w2 o2. f w = (w1, o1, Inr (Some inst)) \<and> OnLoad inst w1 = (w2, o2, Inl e)))"
  using assms
  by (auto simp: LoadModule_def Let_def split: if_splits option.splits sum.splits prod.splits bool.splits)

lemma find_module_Some:
  "find_module name ms = Some i \<Longrightarrow> i < length ms \<and> info_name (minfo (ms ! i)) = name
    \<and> (\<forall>j < i. info_name (minfo (ms ! j)) \<noteq> name)"
proof (induction ms arbitrary: i)
  case Nil
  then show ?case by simp
next
  case (Cons m ms)
  show ?case
  proof (cases "info_name (minfo m) = name")
    case True
    with Cons.prems show ?thesis by simp
  next
    case False
    with Cons.prems obtain k where k: "find_module name ms = Some k" "i = Suc k" by auto
    with Cons.IH [OF k(1)] False show ?thesis by (auto simp: nth_Cons split: nat.split)
  qed
qed

lemma mset_remove_nth: "i < length xs \<Longrightarrow> mset (take i xs @ drop (Suc i) xs) = mset xs - {#xs ! i#}"
  by (metis add_mset_remove_trivial append_take_drop_id Cons_nth_drop_Suc mset_append mset.simps(2)
      union_mset_add_mset_right)

lemma UnloadModule_account:
  assumes u: "UnloadModule name l w = (l', w', out, ex)" and led: "open_handles l = mset (map mhandle (modules l)) + K"
  shows "open_handles l' = mset (map mhandle (modules l')) + K"
proof -
  show ?thesis
  proof (cases "find_module name (modules l)")
    case None
    with u led show ?thesis by (simp add: UnloadModule_def)
  next
    case (Some i)
    then have i: "i < length (modules l)" by (simp add: find_module_Some)
    then have "mset (map mhandle (take i (modules l) @ drop (Suc i) (modules l))) =
        mset (map mhandle (modules l)) - {#mhandle (modules l ! i)#}"
      using mset_remove_nth [of i "map mhandle (modules l)"] by (simp add: take_map drop_map)
    moreover have "mhandle (modules l ! i) \<in># mset (map mhandle (modules l))" using i by simp
    ultimately have "mset (map mhandle (modules l)) + K - {#mhandle (modules l ! i)#} =
        mset (map mhandle (take i (modules l) @ drop (Suc i) (modules l))) + K"
      by (metis subset_mset.diff_add_assoc2 mset_subset_eq_single)
    with u Some led show ?thesis
      by (auto simp: UnloadModule_def split: prod.splits option.splits)
  qed
qed

lemma unload_each_handles:
  "unload_each ms l w = (l', w', out, None) \<Longrightarrow> open_handles l' = open_handles l - mset (map mhandle ms)
    \<and> modules l' = modules l"
proof (induction ms arbitrary: l w l' w' out)
  case Nil
  then show ?case by simp
next
  case (Cons m ms)
  obtain w1 o1 where 1: "OnUnload (minstance m) w = (w1, o1, None)"
    using Cons.prems by (auto split: prod.splits option.splits)
  obtain o2 where 2: "unload_each ms (dlclose (mhandle m) l) w1 = (l', w', o2, None)"
    using Cons.prems 1 by (auto split: prod.splits)
  from Cons.IH [OF 2] show ?case by simp
qed

lemma UnloadAll_empties:
  assumes "UnloadAll l w = (l', w', out, None)" "open_handles l = mset (map mhandle (modules l)) + K"
  shows "modules l' = [] \<and> open_handles l' = K"
proof -
  obtain l1 w1 o1 where 1: "unload_each (modules l) l w = (l1, w1, o1, None)"
    using assms(1) by (auto simp: UnloadAll_def split: prod.splits option.splits)
  with assms unload_each_handles [OF 1] show ?thesis
    by (auto simp: UnloadAll_def)
qed

text \<open>A history of loader calls; the destructor is an \<^verbatim>\<open>UnloadAll\<close>.\<close>

datatype loader_op = Op_Load string | Op_Unload string | Op_UnloadAll | Op_Dispatch Event ActionList

fun loader_exec :: "'w DynLink \<Rightarrow> loader_op \<Rightarrow> 'w ModuleLoader \<times> 'w \<Rightarrow> 'w ModuleLoader \<times> 'w" where
  "loader_exec dl (Op_Load p) (l, w) = (case LoadModule dl p l w of (l, w, _) \<Rightarrow> (l, w))"
| "loader_exec dl (Op_Unload n) (l, w) = (case UnloadModule n l w of (l, w, _) \<Rightarrow> (l, w))"
| "loader_exec dl Op_UnloadAll (l, w) = (case UnloadAll l w of (l, w, _) \<Rightarrow> (l, w))"
| "loader_exec dl (Op_Dispatch e as) (l, w) = (case DispatchEvent l e as w of (w, _) \<Rightarrow> (l, w))"

text \<open>
  The library that a load leaves open without a module: one whose \<^verbatim>\<open>CreateModule\<close> or \<^verbatim>\<open>OnLoad\<close>
  throws. A run that keeps the account of them.
\<close>

fun leaked_by :: "'w DynLink \<Rightarrow> loader_op \<Rightarrow> 'w ModuleLoader \<times> 'w \<Rightarrow> nat multiset" where
  "leaked_by dl (Op_Load p) (l, w) = (case LoadModule dl p l w of
     (_, _, _, Inl e) \<Rightarrow> {#the (dl_open dl p)#} | (_, _, _, Inr ok) \<Rightarrow> {#})"
| "leaked_by dl _ s = {#}"

fun account_exec :: "'w DynLink \<Rightarrow> loader_op \<Rightarrow> nat multiset \<times> 'w ModuleLoader \<times> 'w \<Rightarrow> nat multiset \<times> 'w ModuleLoader \<times> 'w" where
  "account_exec dl c (K, s) = (K + leaked_by dl c s, loader_exec dl c s)"

text \<open>Modules whose unload hook does not throw; the other hooks may.\<close>

definition quiet_module :: "'w IModule \<Rightarrow> bool" where
  "quiet_module m \<longleftrightarrow> (\<forall>w w' out e. OnUnload m w \<noteq> (w', out, Some e))"

definition quiet_link :: "'w DynLink \<Rightarrow> bool" where
  "quiet_link dl \<longleftrightarrow> (\<forall>h f w w' out m. dl_create dl h = Some f \<and> f w = (w', out, Inr (Some m)) \<longrightarrow> quiet_module m)"

definition loader_inv :: "'w DynLink \<Rightarrow> nat multiset \<times> 'w ModuleLoader \<times> 'w \<Rightarrow> bool" where
  "loader_inv dl s \<longleftrightarrow> (case s of (K, l, w) \<Rightarrow> quiet_link dl \<and> open_handles l = mset (map mhandle (modules l)) + K
     \<and> (\<forall>m \<in> set (modules l). quiet_module (minstance m)))"

lemma LoadModule_account:
  assumes "quiet_link dl" "LoadModule dl p l w = (l', w', out, r)"
    and "open_handles l = mset (map mhandle (modules l)) + K" "\<forall>m \<in> set (modules l). quiet_module (minstance m)"
  shows "open_handles l' = mset (map mhandle (modules l')) + (K + leaked_by dl (Op_Load p) (l, w))
    \<and> (\<forall>m \<in> set (modules l'). quiet_module (minstance m))"
proof (cases r)
  case (Inl e)
  with LoadModule_throw [of dl p l w l' w' out e] assms show ?thesis by auto
next
  case (Inr ok)
  from LoadModule_no_throw [OF assms(2) [unfolded Inr]] Inr assms show ?thesis
    by (cases ok) (auto simp: quiet_link_def)
qed

lemma quiet_unload_each:
  "(\<forall>m \<in> set ms. quiet_module (minstance m)) \<Longrightarrow> \<exists>l' w' out. unload_each ms l w = (l', w', out, None)"
proof (induction ms arbitrary: l w)
  case Nil
  then show ?case by simp
next
  case (Cons m ms)
  then obtain w1 o1 where 1: "OnUnload (minstance m) w = (w1, o1, None)"
    unfolding quiet_module_def by (metis list.set_intros(1) option.exhaust prod_cases3)
  have "\<exists>l' w' out. unload_each ms (dlclose (mhandle m) l) w1 = (l', w', out, None)"
    using Cons by simp
  with 1 show ?case by auto
qed

lemma quiet_UnloadAll:
  "(\<forall>m \<in> set (modules l). quiet_module (minstance m)) \<Longrightarrow> \<exists>l' w' out. UnloadAll l w = (l', w', out, None)"
  using quiet_unload_each [of "modules l" l w] by (auto simp: UnloadAll_def)

lemma UnloadModule_subset: "UnloadModule name l w = (l', w', out, ex) \<Longrightarrow> set (modules l') \<subseteq> set (modules l)"
  by (auto simp: UnloadModule_def split: option.splits prod.splits dest: in_set_takeD in_set_dropD)

lemma account_exec_inv: "loader_inv dl s \<Longrightarrow> loader_inv dl (account_exec dl c s)"
proof -
  assume inv: "loader_inv dl s"
  obtain K l w where s: "s = (K, l, w)" by (cases s) auto
  with inv have q: "quiet_link dl" and led: "open_handles l = mset (map mhandle (modules l)) + K"
    and ms: "\<forall>m \<in> set (modules l). quiet_module (minstance m)"
    by (simp_all add: loader_inv_def)
  show ?thesis
  proof (cases c)
    case (Op_Load p)
    obtain l1 w1 o1 r where 1: "LoadModule dl p l w = (l1, w1, o1, r)" by (metis prod_cases4)
    from LoadModule_account [OF q 1 led ms] q 1 show ?thesis by (simp add: loader_inv_def s Op_Load del: leaked_by.simps)
  next
    case (Op_Unload n)
    obtain l1 w1 o1 r where 1: "UnloadModule n l w = (l1, w1, o1, r)" by (metis prod_cases4)
    with UnloadModule_account [OF 1 led] UnloadModule_subset [OF 1] q ms show ?thesis
      by (auto simp: loader_inv_def s Op_Unload)
  next
    case Op_UnloadAll
    obtain l1 w1 o1 where 1: "UnloadAll l w = (l1, w1, o1, None)"
      using quiet_UnloadAll [OF ms] by blast
    with UnloadAll_empties [OF 1 led] q show ?thesis
      by (simp add: loader_inv_def s Op_UnloadAll)
  next
    case (Op_Dispatch e as)
    with q led ms show ?thesis by (simp add: loader_inv_def s split: prod.split)
  qed
qed

interpretation loader: invariant_machine "account_exec dl" "loader_inv dl" for dl
  by unfold_locales (rule account_exec_inv)

subsection \<open>Properties\<close>

text \<open>
  C4. Loading a module: when it returns, it returns true exactly if it appended one module of
  the supported API version and kept one more library open; on every path that returns false
  the loader is exactly as before, the library closed again. When the module itself throws
  while it is created or loaded, no module is added but its library stays open.
\<close>

theorem load_module_all_or_nothing:
  "case LoadModule dl path l w of
     (l', w', out, Inr True) \<Rightarrow> \<exists>h inst. dl_open dl path = Some h \<and> open_handles l' = add_mset h (open_handles l)
        \<and> info_apiVersion (GetInfo inst) = MCX_MODULE_API_VERSION
        \<and> modules l' = modules l @ [\<lparr>mpath = path, minstance = inst, minfo = GetInfo inst, mhandle = h\<rparr>]
   | (l', w', out, Inr False) \<Rightarrow> l' = l
   | (l', w', out, Inl e) \<Rightarrow> \<exists>h. open_handles l' = add_mset h (open_handles l) \<and> modules l' = modules l"
proof -
  obtain l' w' out r where 1: "LoadModule dl path l w = (l', w', out, r)" by (metis prod_cases4)
  show ?thesis
  proof (cases r)
    case (Inl e)
    with 1 LoadModule_throw [of dl path l w l' w' out e] show ?thesis by auto
  next
    case (Inr ok)
    with 1 LoadModule_no_throw [of dl path l w l' w' out ok] show ?thesis by (cases ok) auto
  qed
qed

text \<open>
  C3. Handles are accounted for: with modules whose unload hook does not throw, after any history of
  loading, unloading and event dispatch the libraries that are open are exactly those of the loaded
  modules and those whose loading threw, counted with multiplicity (a load that throws leaks its
  library); and the unloading of everything that the destructor does then leaves open just the latter.
\<close>

theorem loader_handles_do_not_leak:
  assumes "quiet_link dl"
  shows "let (thrown, l, w') = fold (account_exec dl) ops ({#}, empty_loader, w) in
    open_handles l = mset (map mhandle (modules l)) + thrown
    \<and> (\<exists>l' w'' out. UnloadAll l w' = (l', w'', out, None) \<and> modules l' = [] \<and> open_handles l' = thrown)"
proof -
  obtain K l w' where s: "fold (account_exec dl) ops ({#}, empty_loader, w) = (K, l, w')" by (metis prod_cases3)
  have "loader_inv dl ({#}, empty_loader, w)"
    using assms by (simp add: loader_inv_def empty_loader_def)
  then have "loader_inv dl (K, l, w')"
    using loader.run_inv [of dl "({#}, empty_loader, w)" ops] by (simp add: s)
  then have led: "open_handles l = mset (map mhandle (modules l)) + K" and ms: "\<forall>m \<in> set (modules l). quiet_module (minstance m)"
    by (simp_all add: loader_inv_def)
  from quiet_UnloadAll [OF ms] obtain l' w'' out where u: "UnloadAll l w' = (l', w'', out, None)" by blast
  from UnloadAll_empties [OF u led] led u show ?thesis by (auto simp: s)
qed

text \<open>A linker with the example module in libraries of one length and a module that throws in another.\<close>

definition throwing_load :: "nat IModule" where
  "throwing_load = SampleModule\<lparr>OnLoad := \<lambda>w. (w, [], Inl (Std_exception ''boom''))\<rparr>"

definition sample_link :: "nat DynLink" where
  "sample_link = \<lparr>dl_exists = (\<lambda>p. True), dl_open = (\<lambda>p. Some (length p)),
     dl_create = (\<lambda>h. if h = 4 then Some sample_CreateModule else if h = 6 then Some (\<lambda>w. (w, [], Inr (Some throwing_load))) else None)\<rparr>"

lemma quiet_sample: "quiet_link sample_link"
  by (auto simp: quiet_link_def quiet_module_def sample_link_def sample_CreateModule_def SampleModule_def throwing_load_def split: if_splits)

theorem loader_handles_do_not_leak_witness:
  "let (thrown, l, w') = fold (account_exec sample_link)
      [Op_Load ''a.so'', Op_Load ''none.so'', Op_Load ''b.so'', Op_Load ''bad.so'', Op_Unload ''SampleModule''] ({#}, empty_loader, 0)
    in length (modules l) = 1 \<and> thrown = {#6#} \<and> open_handles l = mset (map mhandle (modules l)) + {#6#}"
proof -
  let ?ops = "[Op_Load ''a.so'', Op_Load ''none.so'', Op_Load ''b.so'', Op_Load ''bad.so'', Op_Unload ''SampleModule'']"
  have "fst (fold (account_exec sample_link) ?ops ({#}, empty_loader, 0)) = {#6#}
      \<and> length (modules (fst (snd (fold (account_exec sample_link) ?ops ({#}, empty_loader, 0))))) = 1"
    by (simp add: empty_loader_def LoadModule_def UnloadModule_def sample_link_def sample_CreateModule_def throwing_load_def
        SampleModule_def MCX_MODULE_API_VERSION_def Let_def dlclose_def)
  with loader_handles_do_not_leak [OF quiet_sample, of ?ops 0] show ?thesis
    by (auto simp: Let_def split: prod.splits)
qed

lemma dispatch_append:
  "dispatch (ms @ ns) event actions w = (case dispatch ms event actions w of (w1, o1, a1) \<Rightarrow>
     (case dispatch ns event a1 w1 of (w2, o2, a2) \<Rightarrow> (w2, o1 @ o2, a2)))"
  by (induction ms arbitrary: actions w) (auto split: prod.splits)

text \<open>
  C5. Modules are isolated from each other: if the event handler of one module throws, the
  modules before and after it handle the event all the same, in load order, each with the
  actions the earlier ones left; the throw becomes one line of the log and nothing else.
\<close>

theorem dispatch_isolates_exceptions:
  assumes "modules l = pre @ m # post"
    and "dispatch pre event actions w = (w1, o1, a1)"
    and "OnEvent (minstance m) event a1 w1 = (w2, o2, a2, Some e)"
    and "dispatch post event a2 w2 = (w3, o3, a3)"
  shows "DispatchEvent l event actions w =
    (w3, o1 @ o2 @ log_Error (''Module exception in '' @ info_name (minfo m) @ '': '' @ exn_text e) # o3, a3)"
  using assms by (simp add: DispatchEvent_def dispatch_append)

definition throwing_instance :: "nat IModule" where
  "throwing_instance = SampleModule\<lparr>
     OnEvent := \<lambda>event actions w. (w + 1, [], actions @ [BroadcastAction ''half''], Some (Std_exception ''boom''))\<rparr>"

definition throwing_module :: "nat LoadedModule" where
  "throwing_module = \<lparr>mpath = ''t.so'', minstance = throwing_instance, minfo = GetInfo throwing_instance, mhandle = 0\<rparr>"

theorem dispatch_isolates_exceptions_witness:
  "DispatchEvent \<lparr>modules = [throwing_module, throwing_module], open_handles = {#}\<rparr> default_Event [] 0 =
   (2, [log_Error ''Module exception in SampleModule: boom'', log_Error ''Module exception in SampleModule: boom''],
    [BroadcastAction ''half'', BroadcastAction ''half''])"
proof -
  have 1: "modules \<lparr>modules = [throwing_module, throwing_module], open_handles = {#}\<rparr> = [] @ throwing_module # [throwing_module]"
    by simp
  have 2: "dispatch [] default_Event [] (0::nat) = (0, [], [])" by simp
  have 3: "OnEvent (minstance throwing_module) default_Event [] 0 = (1, [], [BroadcastAction ''half''], Some (Std_exception ''boom''))"
    by (simp add: throwing_module_def throwing_instance_def)
  have 4: "dispatch [throwing_module] default_Event [BroadcastAction ''half''] 1 =
      (2, [log_Error ''Module exception in SampleModule: boom''], [BroadcastAction ''half'', BroadcastAction ''half''])"
    by (simp add: throwing_module_def throwing_instance_def SampleModule_def exn_text_def)
  show ?thesis
    using dispatch_isolates_exceptions [OF 1 2 3 4]
    by (simp add: throwing_module_def throwing_instance_def SampleModule_def exn_text_def)
qed

end
