(* ===== verification/MCX_Scripts.thy ===== *)
theory MCX_Scripts
  imports MCX_Actions MCX_Strings
begin

text \<open>
  The script runtimes behind the interface \<^verbatim>\<open>ScriptRuntime\<close>: the dummy one
  (\<^verbatim>\<open>core/script_runtime_dummy.cpp\<close>), the hardcoded one of the demo
  (\<^verbatim>\<open>core/script_runtime_hardcoded.cpp\<close>) and the Lua one (\<^verbatim>\<open>core/lua_runtime.cpp\<close>),
  whose interpreter is a parameter. The theory starts with what the standard file system
  library shows of a directory, which the loaders of scripts and modules share.
\<close>

subsection \<open>Directories\<close>

text \<open>
  What \<^verbatim>\<open>std::filesystem::exists\<close> and \<^verbatim>\<open>directory_iterator\<close> see of a path; the entries
  are full paths in the order of the iteration.
\<close>

datatype path_view = Missing | Not_directory | Directory "string list"

type_synonym filesystem_view = "string \<Rightarrow> path_view"

definition path_filename :: "string \<Rightarrow> string" where
  "path_filename p = rev (takeWhile (\<lambda>c. c \<noteq> CHR ''/'') (rev p))"

definition path_extension :: "string \<Rightarrow> string" where
  "path_extension p = (let f = path_filename p; r = takeWhile (\<lambda>c. c \<noteq> CHR ''.'') (rev f)
     in if f = ''..'' \<or> length f \<le> Suc (length r) then [] else CHR ''.'' # rev r)"

lemma path_extension_examples:
  "path_extension ''scripts/lobby.lua'' = ''.lua''" "path_extension ''scripts/.lua'' = []"
  "path_extension ''a.b/readme'' = []" "path_extension ''m.so.1'' = ''.1''"
  by code_simp+

definition filesystem_error :: exn where
  "filesystem_error = Std_exception ''filesystem error: directory iterator cannot open directory: Not a directory''"

subsection \<open>The interface\<close>

text \<open>
  A runtime acts on the state \<open>'w\<close> of the world behind it. Loading scripts may throw;
  handling an event may throw or be undefined.
\<close>

record 'w ScriptRuntime =
  rt_LoadScripts :: "string \<Rightarrow> 'w \<Rightarrow> 'w \<times> console list \<times> unit result"
  rt_HandleEvent :: "Event \<Rightarrow> 'w \<Rightarrow> 'w \<times> console list \<times> ActionList result"

subsection \<open>The dummy and the hardcoded runtime\<close>

definition DummyScriptRuntime :: "'w ScriptRuntime" where
  "DummyScriptRuntime = \<lparr>
     rt_LoadScripts = (\<lambda>rootPath w.
       (w, [Stdout (''[MCX] DummyScriptRuntime.LoadScripts from: '' @ rootPath @ nl)], Inr ())),
     rt_HandleEvent = (\<lambda>event w. (w, [], Inr []))\<rparr>"

definition hardcoded_actions :: "Event \<Rightarrow> ActionList" where
  "hardcoded_actions event =
     (case chat event of
        Some chatEvent \<Rightarrow>
          if etype event = CHAT then
            (if chat_message chatEvent = ''!hello'' then
               [BroadcastAction (''[MCX] Hello from the hardcoded runtime, '' @ pname (chat_player chatEvent) @ ''!'')]
             else if chat_message chatEvent = ''!scene test'' then
               [BroadcastAction ''[MCX] Loading test scene (hardcoded).'', LoadSceneAction ''test'']
             else [])
          else []
      | None \<Rightarrow> [])"

definition HardcodedScriptRuntime :: "'w ScriptRuntime" where
  "HardcodedScriptRuntime = \<lparr>
     rt_LoadScripts = (\<lambda>rootPath w. (w, [log_Info (''HardcodedScriptRuntime.LoadScripts from: '' @ rootPath)], Inr ())),
     rt_HandleEvent = (\<lambda>event w. (w, [], Inr (hardcoded_actions event)))\<rparr>"

lemma hardcoded_actions_not_chat: "etype event \<noteq> CHAT \<Longrightarrow> hardcoded_actions event = []"
  by (simp add: hardcoded_actions_def split: option.split)

text \<open>Whatever is said, the hardcoded runtime never loads a scene other than \<^verbatim>\<open>test\<close>.\<close>

lemma hardcoded_scenes: "set (scenes_of (hardcoded_actions event)) \<subseteq> {''test''}"
  by (simp add: hardcoded_actions_def split: option.split)

subsection \<open>The Lua interpreter as a parameter\<close>

datatype lua_value = LuaNil | LuaBoolean bool | LuaNumber string | LuaString string
  | LuaTable nat | LuaFunction nat | LuaCFunction nat

fun lua_isfunction :: "lua_value \<Rightarrow> bool" where
  "lua_isfunction (LuaFunction n) = True"
| "lua_isfunction (LuaCFunction n) = True"
| "lua_isfunction _ = False"

text \<open>\<^verbatim>\<open>lua_tostring\<close> is a null pointer for a value that is neither a string nor a number.\<close>

fun lua_tostring :: "lua_value \<Rightarrow> string option" where
  "lua_tostring (LuaString s) = Some s"
| "lua_tostring (LuaNumber s) = Some s"
| "lua_tostring _ = None"

text \<open>
  What the runtime uses of the interpreter, over its globals and heap \<open>'l\<close>: a call and a
  script file run protected and give an error value or results, and may write to the console
  through the functions the runtime registered.
\<close>

record 'l LuaApi =
  api_getglobal :: "string \<Rightarrow> 'l \<Rightarrow> lua_value"
  api_setglobal :: "string \<Rightarrow> lua_value \<Rightarrow> 'l \<Rightarrow> 'l"
  api_newtable :: "'l \<Rightarrow> 'l \<times> lua_value"
  api_setfield :: "lua_value \<Rightarrow> string \<Rightarrow> lua_value \<Rightarrow> 'l \<Rightarrow> 'l"
  api_openlibs :: "'l \<Rightarrow> 'l"
  api_dofile :: "string \<Rightarrow> 'l \<Rightarrow> 'l \<times> console list \<times> (lua_value + lua_value list)"
  api_pcall :: "lua_value \<Rightarrow> lua_value list \<Rightarrow> 'l \<Rightarrow> 'l \<times> console list \<times> (lua_value + lua_value)"

text \<open>The Lua state of the runtime: the interpreter and the value stack, top first.\<close>

record 'l LuaState =
  interp :: 'l
  stack :: "lua_value list"

definition lua_push :: "lua_value \<Rightarrow> 'l LuaState \<Rightarrow> 'l LuaState" where
  "lua_push v L = L\<lparr>stack := v # stack L\<rparr>"

definition lua_pop :: "nat \<Rightarrow> 'l LuaState \<Rightarrow> 'l LuaState" where
  "lua_pop n L = L\<lparr>stack := drop n (stack L)\<rparr>"

text \<open>The C function registered as \<^verbatim>\<open>MCX.log\<close>: a line, or the Lua error of \<^verbatim>\<open>luaL_checkstring\<close>.\<close>

definition lua_log :: "lua_value list \<Rightarrow> string + console list" where
  "lua_log args = (case args of
     [] \<Rightarrow> Inl ''bad argument #1 to 'log' (string expected, got no value)''
   | v # _ \<Rightarrow> (case lua_tostring v of
        None \<Rightarrow> Inl ''bad argument #1 to 'log' (string expected)''
      | Some msg \<Rightarrow> Inr [log_Info (''[Lua] '' @ msg)]))"

definition log_function :: lua_value where "log_function = LuaCFunction 0"

definition RegisterEventBindings :: "'l LuaApi \<Rightarrow> 'l LuaState \<Rightarrow> 'l LuaState" where
  "RegisterEventBindings api L =
     (case api_newtable api (interp L) of (l1, t) \<Rightarrow>
        let L1 = lua_push t (L\<lparr>interp := l1\<rparr>);
            L2 = lua_push log_function L1;
            L3 = lua_pop 1 (L2\<lparr>interp := api_setfield api (stack L2 ! 1) ''log'' (stack L2 ! 0) (interp L2)\<rparr>)
        in lua_pop 1 (L3\<lparr>interp := api_setglobal api ''MCX'' (stack L3 ! 0) (interp L3)\<rparr>))"

text \<open>The constructor: \<open>None\<close> is \<^verbatim>\<open>luaL_newstate\<close> returning a null pointer.\<close>

definition LuaRuntime_new :: "'l LuaApi \<Rightarrow> 'l option \<Rightarrow> 'l LuaState result" where
  "LuaRuntime_new api newstate = (case newstate of
     None \<Rightarrow> Inl (Exception (Std_exception ''Failed to create Lua state''))
   | Some l \<Rightarrow> Inr (RegisterEventBindings api \<lparr>interp = api_openlibs api l, stack = []\<rparr>))"

text \<open>
  \<^verbatim>\<open>luaL_dofile\<close> leaves all results of the script on the stack, or the error value;
  constructing a string from a null pointer is undefined.
\<close>

definition ExecuteScript :: "'l LuaApi \<Rightarrow> string \<Rightarrow> 'l LuaState \<Rightarrow> 'l LuaState \<times> console list \<times> unit result" where
  "ExecuteScript api path L = (case api_dofile api path (interp L) of
     (l, out, Inr results) \<Rightarrow> (L\<lparr>interp := l, stack := rev results @ stack L\<rparr>, out, Inr ())
   | (l, out, Inl err) \<Rightarrow>
       let L1 = lua_push err (L\<lparr>interp := l\<rparr>) in
       (case lua_tostring err of
          None \<Rightarrow> (L1, out, Inl Undefined)
        | Some m \<Rightarrow> (lua_pop 1 L1, out @ [log_Error (''Lua error: '' @ m)], Inr ())))"

fun execute_scripts :: "'l LuaApi \<Rightarrow> string list \<Rightarrow> 'l LuaState \<Rightarrow> 'l LuaState \<times> console list \<times> unit result" where
  "execute_scripts api [] L = (L, [], Inr ())"
| "execute_scripts api (p # ps) L =
     (if path_extension p = ''.lua'' then
        (case ExecuteScript api p L of
           (L1, o1, Inl e) \<Rightarrow> (L1, log_Info (''Loading Lua script: '' @ p) # o1, Inl e)
         | (L1, o1, Inr _) \<Rightarrow>
             (case execute_scripts api ps L1 of (L2, o2, r) \<Rightarrow>
                (L2, log_Info (''Loading Lua script: '' @ p) # o1 @ o2, r)))
      else execute_scripts api ps L)"

definition LuaLoadScripts ::
  "'l LuaApi \<Rightarrow> filesystem_view \<Rightarrow> string \<Rightarrow> 'l LuaState \<Rightarrow> 'l LuaState \<times> console list \<times> unit result" where
  "LuaLoadScripts api fs rootPath L = (case fs rootPath of
     Missing \<Rightarrow> (L, [log_Warn (''Script root not found: '' @ rootPath)], Inr ())
   | Not_directory \<Rightarrow> (L, [], Inl (Exception filesystem_error))
   | Directory ps \<Rightarrow> execute_scripts api ps L)"

definition lua_event_name :: "EVENT_TYPE \<Rightarrow> string" where
  "lua_event_name t = (case t of PLAYER_JOIN \<Rightarrow> ''player_join'' | PLAYER_QUIT \<Rightarrow> ''player_quit''
     | CHAT \<Rightarrow> ''chat'' | _ \<Rightarrow> ''unknown'')"

definition LuaHandleEvent :: "'l LuaApi \<Rightarrow> Event \<Rightarrow> 'l LuaState \<Rightarrow> 'l LuaState \<times> console list \<times> ActionList result" where
  "LuaHandleEvent api event L =
     (let L1 = lua_push (api_getglobal api ''onEvent'' (interp L)) L in
      if \<not> lua_isfunction (stack L1 ! 0) then (lua_pop 1 L1, [], Inr [])
      else
        let L2 = lua_push (LuaString (lua_event_name (etype event))) L1 in
        (case api_pcall api (stack L2 ! 1) [stack L2 ! 0] (interp L2) of
           (l, out, Inr v) \<Rightarrow> (lua_pop 1 (lua_push v (lua_pop 2 (L2\<lparr>interp := l\<rparr>))), out, Inr [])
         | (l, out, Inl err) \<Rightarrow>
             let L3 = lua_push err (lua_pop 2 (L2\<lparr>interp := l\<rparr>)) in
             (case lua_tostring err of
                None \<Rightarrow> (L3, out, Inl Undefined)
              | Some m \<Rightarrow> (lua_pop 1 L3, out @ [log_Error (''Lua event handler error: '' @ m)], Inr []))))"

definition LuaRuntime :: "'l LuaApi \<Rightarrow> filesystem_view \<Rightarrow> 'l LuaState ScriptRuntime" where
  "LuaRuntime api fs = \<lparr>rt_LoadScripts = LuaLoadScripts api fs, rt_HandleEvent = LuaHandleEvent api\<rparr>"

lemmas lua_stack_defs = lua_push_def lua_pop_def

lemma RegisterEventBindings_stack: "stack (RegisterEventBindings api L) = stack L"
  by (simp add: RegisterEventBindings_def lua_stack_defs Let_def split: prod.split)

subsection \<open>Properties of the Lua runtime\<close>

text \<open>The results a script directory leaves behind, with the states in which the scripts run.\<close>

fun script_results :: "'l LuaApi \<Rightarrow> string list \<Rightarrow> 'l \<Rightarrow> lua_value list" where
  "script_results api [] l = []"
| "script_results api (p # ps) l =
     (if path_extension p = ''.lua'' then
        (case api_dofile api p l of
           (l1, out, Inr results) \<Rightarrow> script_results api ps l1 @ rev results
         | (l1, out, Inl err) \<Rightarrow> script_results api ps l1)
      else script_results api ps l)"

definition text_errors :: "'l LuaApi \<Rightarrow> bool" where
  "text_errors api \<longleftrightarrow> (\<forall>p l l' out err. api_dofile api p l = (l', out, Inl err) \<longrightarrow> lua_tostring err \<noteq> None)
     \<and> (\<forall>f args l l' out err. api_pcall api f args l = (l', out, Inl err) \<longrightarrow> lua_tostring err \<noteq> None)"

lemma execute_scripts_stack:
  "text_errors api \<Longrightarrow> \<exists>L' out. execute_scripts api ps L = (L', out, Inr ()) \<and> stack L' = script_results api ps (interp L) @ stack L"
proof (induction ps arbitrary: L)
  case Nil
  then show ?case by simp
next
  case (Cons p ps)
  obtain l out r where d: "api_dofile api p (interp L) = (l, out, r)" by (metis prod_cases3)
  show ?case
  proof (cases r)
    case (Inl err)
    then obtain m where m: "lua_tostring err = Some m"
      using Cons.prems d unfolding text_errors_def by blast
    let ?L1 = "L\<lparr>interp := l\<rparr>"
    have "\<exists>L' out. execute_scripts api ps ?L1 = (L', out, Inr ()) \<and> stack L' = script_results api ps (interp ?L1) @ stack ?L1"
      using Cons by blast
    moreover have "\<exists>L' out. execute_scripts api ps L = (L', out, Inr ()) \<and> stack L' = script_results api ps (interp L) @ stack L"
      using Cons by blast
    ultimately show ?thesis
      using d Inl m by (auto simp: ExecuteScript_def lua_stack_defs Let_def)
  next
    case (Inr results)
    let ?L1 = "L\<lparr>interp := l, stack := rev results @ stack L\<rparr>"
    have "\<exists>L' out. execute_scripts api ps ?L1 = (L', out, Inr ()) \<and> stack L' = script_results api ps (interp ?L1) @ stack ?L1"
      using Cons by blast
    moreover have "\<exists>L' out. execute_scripts api ps L = (L', out, Inr ()) \<and> stack L' = script_results api ps (interp L) @ stack L"
      using Cons by blast
    ultimately show ?thesis
      using d Inr by (auto simp: ExecuteScript_def)
  qed
qed

lemma LuaHandleEvent_balanced:
  assumes "text_errors api"
  shows "\<exists>l out. LuaHandleEvent api event L = (L\<lparr>interp := l\<rparr>, out, Inr [])"
proof (cases "lua_isfunction (api_getglobal api ''onEvent'' (interp L))")
  case False
  then show ?thesis by (auto simp: LuaHandleEvent_def lua_stack_defs Let_def intro: exI [of _ "interp L"])
next
  case True
  let ?f = "api_getglobal api ''onEvent'' (interp L)"
  let ?n = "LuaString (lua_event_name (etype event))"
  obtain l out r where d: "api_pcall api ?f [?n] (interp L) = (l, out, r)" by (metis prod_cases3)
  show ?thesis
  proof (cases r)
    case (Inl err)
    then obtain m where "lua_tostring err = Some m"
      using assms d unfolding text_errors_def by blast
    with True d Inl show ?thesis
      by (cases L) (auto simp: LuaHandleEvent_def lua_stack_defs Let_def)
  next
    case (Inr v)
    with True d show ?thesis
      by (cases L) (auto simp: LuaHandleEvent_def lua_stack_defs Let_def)
  qed
qed

text \<open>
  The Lua runtime, for scripts whose error values are strings or numbers: handling any
  event returns normally, restores the value stack exactly, and yields no action, whatever the
  script does (so no script can affect the game); and loading a directory runs all its
  scripts, but what they return stays on the stack for ever.
\<close>

theorem lua_runtime_stack_discipline:
  assumes "text_errors api" "fs root = Directory ps"
  shows "(\<exists>l out. LuaHandleEvent api event L = (L\<lparr>interp := l\<rparr>, out, Inr []))
    \<and> (\<exists>L' out. LuaLoadScripts api fs root L = (L', out, Inr ())
      \<and> stack L' = script_results api ps (interp L) @ stack L)"
  using LuaHandleEvent_balanced [OF assms(1)] execute_scripts_stack [OF assms(1)] assms(2)
  by (simp_all add: LuaLoadScripts_def)

definition sample_api :: "nat LuaApi" where
  "sample_api = \<lparr>api_getglobal = (\<lambda>n l. LuaFunction 1), api_setglobal = (\<lambda>n v l. l),
     api_newtable = (\<lambda>l. (Suc l, LuaTable l)), api_setfield = (\<lambda>t n v l. l), api_openlibs = (\<lambda>l. l),
     api_dofile = (\<lambda>p l. (Suc l, [], if p = ''s/bad.lua'' then Inl (LuaString ''syntax'') else Inr [LuaNumber ''1'', LuaNil])),
     api_pcall = (\<lambda>f args l. (Suc l, [log_Info ''[Lua] hi''], Inl (LuaString ''boom'')))\<rparr>"

theorem lua_runtime_stack_discipline_witness:
  "(\<exists>l out. LuaHandleEvent sample_api default_Event \<lparr>interp = 0, stack = []\<rparr> = (\<lparr>interp = l, stack = []\<rparr>, out, Inr []))
   \<and> (\<exists>L' out. LuaLoadScripts sample_api (\<lambda>p. Directory [''s/a.lua'', ''s/bad.lua'', ''s/x.txt'']) ''s'' \<lparr>interp = 0, stack = []\<rparr> = (L', out, Inr ())
      \<and> stack L' = [LuaNil, LuaNumber ''1''])"
proof -
  let ?fs = "\<lambda>p::string. Directory [''s/a.lua'', ''s/bad.lua'', ''s/x.txt'']"
  let ?L = "\<lparr>interp = 0, stack = []\<rparr> :: nat LuaState"
  have t: "text_errors sample_api" by (auto simp: text_errors_def sample_api_def)
  have d: "?fs ''s'' = Directory [''s/a.lua'', ''s/bad.lua'', ''s/x.txt'']" by simp
  have ext: "path_extension ''s/a.lua'' = ''.lua''" "path_extension ''s/bad.lua'' = ''.lua''"
    "path_extension ''s/x.txt'' = ''.txt''" by code_simp+
  have r: "script_results sample_api [''s/a.lua'', ''s/bad.lua'', ''s/x.txt''] (interp ?L) = [LuaNil, LuaNumber ''1'']"
    by (simp add: sample_api_def ext)
  show ?thesis
    using lua_runtime_stack_discipline [of sample_api ?fs "''s''", OF t d, of default_Event ?L] unfolding r by simp
qed

text \<open>
  An error value that is no string (\<^verbatim>\<open>error({})\<close> in a script) takes the runtime into
  undefined behaviour: the text of the log line is built from the null pointer that
  \<^verbatim>\<open>lua_tostring\<close> returns.
\<close>

theorem lua_error_object_undefined:
  assumes "lua_isfunction (api_getglobal api ''onEvent'' (interp L))"
    and "api_pcall api (api_getglobal api ''onEvent'' (interp L)) [LuaString (lua_event_name (etype event))] (interp L) = (l, out, Inl (LuaTable n))"
  shows "snd (snd (LuaHandleEvent api event L)) = Inl Undefined"
  using assms by (simp add: LuaHandleEvent_def lua_stack_defs Let_def)

theorem lua_error_object_undefined_witness:
  "snd (snd (LuaHandleEvent (sample_api\<lparr>api_pcall := (\<lambda>f args l. (l, [], Inl (LuaTable 7)))\<rparr>) default_Event
      \<lparr>interp = 0, stack = []\<rparr>)) = Inl Undefined"
  by (rule lua_error_object_undefined [of _ _ _ 0 "[]" 7]) (simp_all add: sample_api_def)

end
