(* ===== verification/MCX_Players.thy ===== *)
theory MCX_Players
  imports MCX_Events
begin

text \<open>
  The registry of connected players (\<^verbatim>\<open>core/player_registry.cpp\<close>) and the permission
  registry (\<^verbatim>\<open>core/permissions.cpp\<close>).
\<close>

subsection \<open>The player registry\<close>

record PlayerRegistry =
  players :: "(string, Player) umap"

definition empty_registry :: PlayerRegistry where
  "empty_registry = \<lparr>players = fmempty\<rparr>"

definition AddPlayer :: "Player \<Rightarrow> PlayerRegistry \<Rightarrow> PlayerRegistry \<times> console list" where
  "AddPlayer player reg = (reg\<lparr>players := fmupd (pid player) player (players reg)\<rparr>,
     [log_Info (''Player joined: '' @ pname player @ '' ('' @ pid player @ '')'')])"

definition RemovePlayer :: "string \<Rightarrow> PlayerRegistry \<Rightarrow> PlayerRegistry \<times> console list" where
  "RemovePlayer playerId reg = (case fmlookup (players reg) playerId of
     Some p \<Rightarrow> (reg\<lparr>players := fmdrop playerId (players reg)\<rparr>,
       [log_Info (''Player left: '' @ pname p @ '' ('' @ playerId @ '')'')])
   | None \<Rightarrow> (reg, [log_Warn (''Attempted to remove unknown player: '' @ playerId)]))"

definition GetPlayer :: "PlayerRegistry \<Rightarrow> string \<Rightarrow> Player option" where
  "GetPlayer reg playerId = fmlookup (players reg) playerId"

definition GetOnlineCount :: "PlayerRegistry \<Rightarrow> nat" where
  "GetOnlineCount reg = umap_size (players reg)"

definition UpdatePlayerScene :: "string \<Rightarrow> string \<Rightarrow> PlayerRegistry \<Rightarrow> PlayerRegistry \<times> console list" where
  "UpdatePlayerScene playerId scene reg = (case fmlookup (players reg) playerId of
     Some p \<Rightarrow> (reg\<lparr>players := fmupd playerId (p\<lparr>pscene := scene\<rparr>) (players reg)\<rparr>,
       [log_Info (''Player '' @ pname p @ '' moved to scene: '' @ scene)])
   | None \<Rightarrow> (reg, [log_Warn (''Cannot update scene for unknown player: '' @ playerId)]))"

lemmas registry_defs = AddPlayer_def RemovePlayer_def GetPlayer_def GetOnlineCount_def UpdatePlayerScene_def

text \<open>
  The registry as a store from ids to players. Adding stores the player under the id it
  carries, so the store operation takes the id from the player.
\<close>

lemma GetPlayer_AddPlayer: "GetPlayer (fst (AddPlayer p reg)) = (GetPlayer reg)(pid p \<mapsto> p)"
  by (auto simp: registry_defs fun_eq_iff)

lemma GetPlayer_RemovePlayer: "GetPlayer (fst (RemovePlayer i reg)) = (GetPlayer reg)(i := None)"
  by (auto simp: registry_defs fun_eq_iff split: option.split)

lemma GetPlayer_UpdatePlayerScene:
  "GetPlayer (fst (UpdatePlayerScene i s reg)) =
   (case GetPlayer reg i of None \<Rightarrow> GetPlayer reg | Some p \<Rightarrow> (GetPlayer reg)(i \<mapsto> p\<lparr>pscene := s\<rparr>))"
  by (auto simp: registry_defs fun_eq_iff split: option.split)


interpretation player_store: keyed_store GetPlayer "\<lambda>i p. p\<lparr>pid := i\<rparr>"
    "\<lambda>i p reg. fst (AddPlayer (p\<lparr>pid := i\<rparr>) reg)" "\<lambda>i reg. fst (RemovePlayer i reg)"
  by unfold_locales (simp_all add: GetPlayer_AddPlayer GetPlayer_RemovePlayer)

lemma GetOnlineCount_card: "GetOnlineCount reg = card (dom (GetPlayer reg))"
proof -
  have "GetPlayer reg = fmlookup (players reg)" by (simp add: GetPlayer_def fun_eq_iff)
  then show ?thesis by (simp only: GetOnlineCount_def umap_size_card)
qed

lemma finite_dom_GetPlayer: "finite (dom (GetPlayer reg))"
proof -
  have "GetPlayer reg = fmlookup (players reg)" by (simp add: GetPlayer_def fun_eq_iff)
  then show ?thesis by simp
qed

lemma GetOnlineCount_AddPlayer:
  "GetOnlineCount (fst (AddPlayer p reg)) =
   (if GetPlayer reg (pid p) = None then Suc (GetOnlineCount reg) else GetOnlineCount reg)"
  using player_store.card_put [OF finite_dom_GetPlayer, where k = "pid p" and v = p and s = reg]
  by (simp add: GetOnlineCount_card)

lemma GetOnlineCount_RemovePlayer:
  "GetOnlineCount (fst (RemovePlayer i reg)) =
   (if GetPlayer reg i = None then GetOnlineCount reg else GetOnlineCount reg - 1)"
  using player_store.card_del [OF finite_dom_GetPlayer, where k = i and s = reg]
  by (simp add: GetOnlineCount_card)

subsection \<open>Histories of the player registry\<close>

datatype registry_op = Op_Add Player | Op_Remove string | Op_Move string string

fun registry_exec :: "registry_op \<Rightarrow> PlayerRegistry \<Rightarrow> PlayerRegistry" where
  "registry_exec (Op_Add p) reg = fst (AddPlayer p reg)"
| "registry_exec (Op_Remove i) reg = fst (RemovePlayer i reg)"
| "registry_exec (Op_Move i s) reg = fst (UpdatePlayerScene i s reg)"

text \<open>What one history means for one player: the other players do not matter.\<close>

fun player_spec :: "string \<Rightarrow> registry_op \<Rightarrow> Player option \<Rightarrow> Player option" where
  "player_spec i (Op_Add p) x = (if pid p = i then Some p else x)"
| "player_spec i (Op_Remove j) x = (if j = i then None else x)"
| "player_spec i (Op_Move j s) x = (if j = i then map_option (pscene_update (\<lambda>_. s)) x else x)"

lemma player_simulation: "simulation registry_exec (\<lambda>reg. GetPlayer reg i) (player_spec i)"
proof
  fix c reg
  show "GetPlayer (registry_exec c reg) i = player_spec i c (GetPlayer reg i)"
    by (cases c) (auto simp: GetPlayer_AddPlayer GetPlayer_RemovePlayer GetPlayer_UpdatePlayerScene split: option.split)
qed

interpretation one_player: simulation registry_exec "\<lambda>reg. GetPlayer reg i" "player_spec i" for i
  by (rule player_simulation)

text \<open>Every player is stored under its own id.\<close>

definition registry_wf :: "PlayerRegistry \<Rightarrow> bool" where
  "registry_wf reg \<longleftrightarrow> (\<forall>i p. GetPlayer reg i = Some p \<longrightarrow> pid p = i)"

lemma registry_exec_wf: "registry_wf reg \<Longrightarrow> registry_wf (registry_exec c reg)"
  by (cases c) (auto simp: registry_wf_def GetPlayer_AddPlayer GetPlayer_RemovePlayer
      GetPlayer_UpdatePlayerScene split: option.splits)

interpretation registry_machine: invariant_machine registry_exec registry_wf
  by unfold_locales (rule registry_exec_wf)

lemma registry_wf_empty: "registry_wf empty_registry"
  by (simp add: registry_wf_def GetPlayer_def empty_registry_def)

text \<open>
  After any history of additions, removals and scene moves on an empty registry, the entry
  of each player is what the operations on that player alone leave (the last addition, its
  scene moved, none after a removal), it is stored under its own id, and the online count is
  the number of ids that have an entry.
\<close>

theorem registry_history:
  "GetPlayer (fold registry_exec ops empty_registry) i = fold (player_spec i) ops None
   \<and> registry_wf (fold registry_exec ops empty_registry)
   \<and> GetOnlineCount (fold registry_exec ops empty_registry) = card {j. fold (player_spec j) ops None \<noteq> None}"
proof -
  let ?reg = "fold registry_exec ops empty_registry"
  have eq: "GetPlayer ?reg j = fold (player_spec j) ops None" for j
    unfolding one_player.abs_run by (simp add: GetPlayer_def empty_registry_def)
  moreover have "registry_wf ?reg"
    by (rule registry_machine.run_inv [OF registry_wf_empty])
  moreover have "dom (GetPlayer ?reg) = {j. fold (player_spec j) ops None \<noteq> None}"
    by (auto simp: dom_def eq)
  ultimately show ?thesis by (simp add: GetOnlineCount_card)
qed

subsection \<open>Permissions\<close>

record PermissionRegistry =
  permissions :: "(string, string fset) umap"

definition empty_permissions :: PermissionRegistry where
  "empty_permissions = \<lparr>permissions = fmempty\<rparr>"

definition Grant :: "string \<Rightarrow> string \<Rightarrow> PermissionRegistry \<Rightarrow> PermissionRegistry" where
  "Grant playerId permission reg = (let old = (case fmlookup (permissions reg) playerId of None \<Rightarrow> {||} | Some s \<Rightarrow> s)
     in reg\<lparr>permissions := fmupd playerId (finsert permission old) (permissions reg)\<rparr>)"

definition Revoke :: "string \<Rightarrow> string \<Rightarrow> PermissionRegistry \<Rightarrow> PermissionRegistry" where
  "Revoke playerId permission reg = (case fmlookup (permissions reg) playerId of
     Some s \<Rightarrow> reg\<lparr>permissions := fmupd playerId (s |-| {|permission|}) (permissions reg)\<rparr>
   | None \<Rightarrow> reg)"

definition Has :: "PermissionRegistry \<Rightarrow> string \<Rightarrow> string \<Rightarrow> bool" where
  "Has reg playerId permission = (case fmlookup (permissions reg) playerId of
     Some s \<Rightarrow> permission |\<in>| s | None \<Rightarrow> False)"

lemma Has_Grant: "Has (Grant i p reg) j q \<longleftrightarrow> Has reg j q \<or> (i = j \<and> p = q)"
  by (auto simp: Has_def Grant_def Let_def split: option.splits)

lemma Has_Revoke: "Has (Revoke i p reg) j q \<longleftrightarrow> Has reg j q \<and> \<not> (i = j \<and> p = q)"
  by (auto simp: Has_def Revoke_def split: option.splits)

datatype permission_op = Op_Grant string string | Op_Revoke string string

fun permission_exec :: "permission_op \<Rightarrow> PermissionRegistry \<Rightarrow> PermissionRegistry" where
  "permission_exec (Op_Grant i p) reg = Grant i p reg"
| "permission_exec (Op_Revoke i p) reg = Revoke i p reg"

text \<open>The access relation as an abstract set of pairs.\<close>

definition access :: "PermissionRegistry \<Rightarrow> (string \<times> string) set" where
  "access reg = {(i, p). Has reg i p}"

fun access_spec :: "permission_op \<Rightarrow> (string \<times> string) set \<Rightarrow> (string \<times> string) set" where
  "access_spec (Op_Grant i p) A = insert (i, p) A"
| "access_spec (Op_Revoke i p) A = A - {(i, p)}"

interpretation access: simulation permission_exec access access_spec
proof
  fix c reg
  show "access (permission_exec c reg) = access_spec c (access reg)"
    by (cases c) (auto simp: access_def Has_Grant Has_Revoke)
qed

text \<open>
  The permission registry implements an access relation: after any history, \<^verbatim>\<open>Has\<close>
  holds exactly for the pairs that the grants added and no later revocation removed, with each
  pair independent of all others.
\<close>

theorem permissions_refine_access_relation:
  "Has (fold permission_exec ops empty_permissions) i p \<longleftrightarrow> (i, p) \<in> fold access_spec ops {}"
proof -
  have "access empty_permissions = {}"
    by (simp add: access_def Has_def empty_permissions_def)
  then have "access (fold permission_exec ops empty_permissions) = fold access_spec ops {}"
    by (simp add: access.abs_run)
  then show ?thesis by (auto simp: access_def)
qed

end
