(* ===== verification/MCX_Scheduler.thy ===== *)
theory MCX_Scheduler
  imports MCX_Prelude
begin

text \<open>
  The frame scheduler of the server (\<^verbatim>\<open>core/scheduler.cpp\<close>): a vector of tasks with a
  due time, walked once per frame. Times are readings of the steady clock in nanoseconds.
\<close>

subsection \<open>Tasks and the vector\<close>

text \<open>
  A task acts on the client state \<open>'c\<close>. It may call \<^verbatim>\<open>Schedule\<close> on the scheduler that
  is running it: the second component lists what it pushed, with the due times; and it may throw.
\<close>

datatype (dead 'c) Task = Task (run_task: "'c \<Rightarrow> 'c \<times> (int \<times> 'c Task) list \<times> exn option")

type_synonym 'c ScheduledTask = "int \<times> 'c Task"

record 'c Scheduler =
  tasks :: "'c ScheduledTask list"
  capacity :: nat

definition empty_scheduler :: "'c Scheduler" where
  "empty_scheduler = \<lparr>tasks = [], capacity = 0\<rparr>"

text \<open>
  \<^verbatim>\<open>push_back\<close> grows a full vector by doubling (libstdc++ and libc++); no proof below
  uses more than that the capacity covers the elements.
\<close>

definition push_back :: "'c ScheduledTask \<Rightarrow> 'c Scheduler \<Rightarrow> 'c Scheduler" where
  "push_back t s = s\<lparr>tasks := tasks s @ [t],
     capacity := (if length (tasks s) < capacity s then capacity s else max 1 (2 * length (tasks s)))\<rparr>"

definition Schedule :: "int \<Rightarrow> int \<Rightarrow> 'c Task \<Rightarrow> 'c Scheduler \<Rightarrow> 'c Scheduler result" where
  "Schedule now delay_ms task s =
     rbind (chk64 (delay_ms * 1000000)) (\<lambda>d. rbind (chk64 (now + d)) (\<lambda>when.
       Inr (push_back (when, task) s)))"

definition Clear_tasks :: "'c Scheduler \<Rightarrow> 'c Scheduler" where
  "Clear_tasks s = s\<lparr>tasks := []\<rparr>"

definition erase_at :: "nat \<Rightarrow> 'a list \<Rightarrow> 'a list" where
  "erase_at i xs = take i xs @ drop (Suc i) xs"

subsection \<open>One frame\<close>

text \<open>
  The loop of \<^verbatim>\<open>Update\<close> with its iterator as an index. If the running task pushes past the
  capacity, the vector moves and destroys the task under execution: undefined behaviour.
  Within the capacity the iterator stays valid and the new tasks are reached by the loop. A
  throw leaves the task in the vector. The loop need not end (a task may keep scheduling due
  tasks), so it has fuel.
\<close>

fun update_loop :: "nat \<Rightarrow> int \<Rightarrow> nat \<Rightarrow> 'c Scheduler \<Rightarrow> 'c \<Rightarrow> ('c Scheduler \<times> 'c \<times> exn option) result option" where
  "update_loop 0 now i s c = None"
| "update_loop (Suc fuel) now i s c =
     (if i < length (tasks s) then
        let (w, t) = tasks s ! i in
        if w \<le> now then
          (case run_task t c of (c', new, ex) \<Rightarrow>
             if new \<noteq> [] \<and> capacity s < length (tasks s) + length new then Some (Inl Undefined)
             else let s' = s\<lparr>tasks := tasks s @ new\<rparr> in
               (case ex of
                  Some e \<Rightarrow> Some (Inr (s', c', Some e))
                | None \<Rightarrow> update_loop fuel now i (s'\<lparr>tasks := erase_at i (tasks s')\<rparr>) c'))
        else update_loop fuel now (Suc i) s c
      else Some (Inr (s, c, None)))"

definition Update :: "nat \<Rightarrow> int \<Rightarrow> 'c Scheduler \<Rightarrow> 'c \<Rightarrow> ('c Scheduler \<times> 'c \<times> exn option) result option" where
  "Update fuel now s c = update_loop fuel now 0 s c"

subsection \<open>Specification for tasks that do not schedule\<close>

definition plain :: "'c Task \<Rightarrow> bool" where
  "plain t \<longleftrightarrow> (\<forall>c. fst (snd (run_task t c)) = [])"

definition task_effect :: "'c Task \<Rightarrow> 'c effect" where
  "task_effect t c = (case run_task t c of (c', new, ex) \<Rightarrow> (c', ex))"

text \<open>What a frame does, by recursion on the vector: the kept tasks, the client, the throw.\<close>

fun frame_spec :: "int \<Rightarrow> 'c ScheduledTask list \<Rightarrow> 'c \<Rightarrow> 'c ScheduledTask list \<times> 'c \<times> exn option" where
  "frame_spec now [] c = ([], c, None)"
| "frame_spec now ((w, t) # ts) c =
     (if w \<le> now then
        (case task_effect t c of
           (c', None) \<Rightarrow> frame_spec now ts c'
         | (c', Some e) \<Rightarrow> ((w, t) # ts, c', Some e))
      else (case frame_spec now ts c of (kept, c', ex) \<Rightarrow> ((w, t) # kept, c', ex)))"

lemma plain_run: "plain t \<Longrightarrow> run_task t c = (fst (task_effect t c), [], snd (task_effect t c))"
  by (cases "run_task t c") (auto simp: plain_def task_effect_def dest: spec [where x = c])

lemma erase_at_mid: "length pre = i \<Longrightarrow> erase_at i (pre @ x # ts) = pre @ ts"
  by (simp add: erase_at_def)

lemma update_loop_spec:
  assumes "\<forall>(w, t) \<in> set ts. plain t" "length ts < fuel" "tasks s = pre @ ts"
  shows "update_loop fuel now (length pre) s c =
    (case frame_spec now ts c of (kept, c', ex) \<Rightarrow> Some (Inr (s\<lparr>tasks := pre @ kept\<rparr>, c', ex)))"
  using assms
proof (induction ts arbitrary: fuel pre s c)
  case Nil
  then obtain f where "fuel = Suc f" by (cases fuel) auto
  with Nil show ?case by (cases s) simp
next
  case (Cons x ts)
  obtain w t where x: "x = (w, t)" by fastforce
  obtain f where f: "fuel = Suc f" "length ts < f" using Cons.prems(2) by (cases fuel) auto
  have nth: "tasks s ! length pre = (w, t)" "length pre < length (tasks s)"
    using Cons.prems(3) x by (simp_all add: nth_append)
  show ?case
  proof (cases "w \<le> now")
    case True
    obtain c' ex where eff: "task_effect t c = (c', ex)" by fastforce
    have run: "run_task t c = (c', [], ex)"
      using Cons.prems(1) plain_run [of t c] eff by (simp add: x)
    have erased: "erase_at (length pre) (tasks s) = pre @ ts"
      using Cons.prems(3) by (simp add: erase_at_mid)
    show ?thesis
    proof (cases ex)
      case None
      have "update_loop f now (length pre) (s\<lparr>tasks := pre @ ts\<rparr>) c' =
          (case frame_spec now ts c' of (kept, c', ex) \<Rightarrow>
             Some (Inr (s\<lparr>tasks := pre @ ts\<rparr>\<lparr>tasks := pre @ kept\<rparr>, c', ex)))"
        using Cons.prems(1) f(2) by (intro Cons.IH) auto
      with True None eff nth run erased f(1) show ?thesis by (simp add: x Let_def)
    next
      case (Some e)
      with True eff nth run f(1) Cons.prems(3) show ?thesis by (simp add: x Let_def)
    qed
  next
    case False
    have "update_loop f now (length (pre @ [x])) s c =
        (case frame_spec now ts c of (kept, c', ex) \<Rightarrow> Some (Inr (s\<lparr>tasks := (pre @ [x]) @ kept\<rparr>, c', ex)))"
      using Cons.prems f(2) by (intro Cons.IH) auto
    with False nth f(1) show ?thesis
      by (simp add: x Let_def split: prod.splits)
  qed
qed

lemma Update_spec:
  assumes "\<forall>(w, t) \<in> set (tasks s). plain t" "length (tasks s) < fuel"
  shows "Update fuel now s c = (case frame_spec now (tasks s) c of (kept, c', ex) \<Rightarrow> Some (Inr (s\<lparr>tasks := kept\<rparr>, c', ex)))"
  using update_loop_spec [OF assms, of s "[]" now c] by (simp add: Update_def)

text \<open>Without a throw: the due tasks run in vector order and leave, the others stay in order.\<close>

lemma frame_spec_effects:
  "frame_spec now ts c = (kept, c', None) \<Longrightarrow>
   kept = filter (\<lambda>(w, t). now < w) ts
   \<and> run_effects (map (\<lambda>(w, t). task_effect t) (filter (\<lambda>(w, t). w \<le> now) ts)) c = (c', None)"
  by (induction now ts c arbitrary: kept c' rule: frame_spec.induct)
    (auto split: if_splits prod.splits option.splits)

lemma frame_spec_run:
  "run_effects (map (\<lambda>(w, t). task_effect t) (filter (\<lambda>(w, t). w \<le> now) ts)) c = (c', ex) \<Longrightarrow>
   fst (snd (frame_spec now ts c)) = c' \<and> snd (snd (frame_spec now ts c)) = ex"
  by (induction now ts c arbitrary: c' ex rule: frame_spec.induct)
    (auto split: if_splits prod.splits option.splits)

text \<open>A throwing frame keeps the tasks that are not due, the task that threw and all behind it.\<close>

lemma frame_spec_throw:
  assumes "\<forall>(w, t) \<in> set pre. now < w \<or> (\<forall>c. snd (task_effect t c) = None)"
    and "w \<le> now" "\<forall>c. snd (task_effect t c) \<noteq> None"
  shows "\<exists>c' e. frame_spec now (pre @ (w, t) # post) c = (filter (\<lambda>(w, t). now < w) pre @ (w, t) # post, c', Some e)"
  using assms(1)
proof (induction pre arbitrary: c)
  case Nil
  obtain c' ex where "task_effect t c = (c', ex)" by fastforce
  with assms(2,3) show ?case by (cases ex) (auto dest: spec [where x = c])
next
  case (Cons x pre)
  obtain v u where x: "x = (v, u)" by fastforce
  show ?case
  proof (cases "v \<le> now")
    case True
    obtain c1 ex where e: "task_effect u c = (c1, ex)" by fastforce
    with True Cons.prems x have "ex = None" by (auto dest: spec [where x = c])
    with True e Cons x show ?thesis by auto
  next
    case False
    have "\<exists>c' e. frame_spec now (pre @ (w, t) # post) c =
        (filter (\<lambda>(w, t). now < w) pre @ (w, t) # post, c', Some e)"
      using Cons.IH Cons.prems by simp
    then obtain c' e where "frame_spec now (pre @ (w, t) # post) c =
        (filter (\<lambda>(w, t). now < w) pre @ (w, t) # post, c', Some e)" by blast
    with False x show ?thesis by auto
  qed
qed

lemma frame_spec_tasks: "frame_spec now ts c = (kept, c', ex) \<Longrightarrow> set kept \<subseteq> set ts \<and> length kept \<le> length ts"
proof (induction now ts c arbitrary: kept c' ex rule: frame_spec.induct)
  case (1 now c)
  then show ?case by simp
next
  case (2 now w t ts c)
  then show ?case by (fastforce split: if_splits prod.splits option.splits)
qed

text \<open>A frame never throws out of the loop by itself: a throw of a task is a value of the result.\<close>

lemma update_loop_no_exception: "update_loop fuel now i s c \<noteq> Some (Inl (Exception e))"
proof (induction fuel arbitrary: i s c)
  case 0
  then show ?case by simp
next
  case (Suc fuel)
  then show ?case by (auto simp: Let_def split: if_splits option.splits prod.splits)
qed

lemma Update_no_exception: "Update fuel now s c \<noteq> Some (Inl (Exception e))"
  by (simp add: Update_def update_loop_no_exception)

subsection \<open>Properties\<close>

text \<open>How far a frame comes: past the tasks before the first due one that throws.\<close>

lemma frame_spec_progress:
  "frame_spec now ts c = (kept, c', ex) \<Longrightarrow>
   \<exists>k \<le> length ts. kept = filter (\<lambda>(w, t). now < w) (take k ts) @ drop k ts
     \<and> (case ex of
          None \<Rightarrow> k = length ts \<and> run_effects (map (\<lambda>(w, t). task_effect t) (filter (\<lambda>(w, t). w \<le> now) ts)) c = (c', None)
        | Some e \<Rightarrow> k < length ts \<and> fst (ts ! k) \<le> now \<and> (\<exists>c1.
            run_effects (map (\<lambda>(w, t). task_effect t) (filter (\<lambda>(w, t). w \<le> now) (take k ts))) c = (c1, None)
            \<and> task_effect (snd (ts ! k)) c1 = (c', Some e)))"
proof (induction now ts c arbitrary: kept c' ex rule: frame_spec.induct)
  case (1 now c)
  then show ?case by simp
next
  case (2 now w t ts c)
  show ?case
  proof (cases "w \<le> now")
    case True
    obtain c2 e2 where eff: "task_effect t c = (c2, e2)" by fastforce
    show ?thesis
    proof (cases e2)
      case None
      then have "frame_spec now ts c2 = (kept, c', ex)" using 2(3) True eff by simp
      from 2(1) [OF True eff [symmetric] None this] obtain k where "k \<le> length ts"
        "kept = filter (\<lambda>(w, t). now < w) (take k ts) @ drop k ts"
        "case ex of None \<Rightarrow> k = length ts \<and> run_effects (map (\<lambda>(w, t). task_effect t) (filter (\<lambda>(w, t). w \<le> now) ts)) c2 = (c', None)
         | Some e \<Rightarrow> k < length ts \<and> fst (ts ! k) \<le> now \<and> (\<exists>c1.
            run_effects (map (\<lambda>(w, t). task_effect t) (filter (\<lambda>(w, t). w \<le> now) (take k ts))) c2 = (c1, None)
            \<and> task_effect (snd (ts ! k)) c1 = (c', Some e))" by blast
      then show ?thesis using True eff None by (intro exI [of _ "Suc k"]) (auto split: option.splits)
    next
      case (Some e)
      then show ?thesis using 2(3) True eff by (intro exI [of _ 0]) auto
    qed
  next
    case False
    then obtain kept2 where fs: "frame_spec now ts c = (kept2, c', ex)" "kept = (w, t) # kept2"
      using 2(3) by (auto split: prod.splits)
    from 2(2) [OF False fs(1)] obtain k where "k \<le> length ts"
      "kept2 = filter (\<lambda>(w, t). now < w) (take k ts) @ drop k ts"
      "case ex of None \<Rightarrow> k = length ts \<and> run_effects (map (\<lambda>(w, t). task_effect t) (filter (\<lambda>(w, t). w \<le> now) ts)) c = (c', None)
       | Some e \<Rightarrow> k < length ts \<and> fst (ts ! k) \<le> now \<and> (\<exists>c1.
          run_effects (map (\<lambda>(w, t). task_effect t) (filter (\<lambda>(w, t). w \<le> now) (take k ts))) c = (c1, None)
          \<and> task_effect (snd (ts ! k)) c1 = (c', Some e))" by blast
    then show ?thesis using False fs(2) by (intro exI [of _ "Suc k"]) (auto split: option.splits)
  qed
qed

text \<open>
  C6. A frame of the scheduler, for tasks that do not schedule but may throw: with more fuel than tasks it
  returns. Without a throw it has run exactly the tasks that were due, in the order in which they stand in
  the vector, and keeps exactly the others in their order. With a throw it has run exactly the due tasks
  up to the one that throws, at some position \<open>k\<close>, and keeps that one, all behind it, and those before it that were not due.
\<close>

theorem update_runs_due_tasks:
  assumes "\<forall>(w, t) \<in> set (tasks s). plain t" "length (tasks s) < fuel"
  shows "\<exists>k c' ex. Update fuel now s c =
      Some (Inr (s\<lparr>tasks := filter (\<lambda>(w, t). now < w) (take k (tasks s)) @ drop k (tasks s)\<rparr>, c', ex))
    \<and> (case ex of
         None \<Rightarrow> k = length (tasks s)
           \<and> run_effects (map (\<lambda>(w, t). task_effect t) (filter (\<lambda>(w, t). w \<le> now) (tasks s))) c = (c', None)
       | Some e \<Rightarrow> k < length (tasks s) \<and> fst (tasks s ! k) \<le> now \<and> (\<exists>c1.
           run_effects (map (\<lambda>(w, t). task_effect t) (filter (\<lambda>(w, t). w \<le> now) (take k (tasks s)))) c = (c1, None)
           \<and> task_effect (snd (tasks s ! k)) c1 = (c', Some e)))"
proof -
  obtain kept c' ex where fs: "frame_spec now (tasks s) c = (kept, c', ex)" by (metis prod_cases3)
  from frame_spec_progress [OF this] Update_spec [OF assms, of now c] show ?thesis
    by (auto simp: fs)
qed

definition bump_task :: "nat \<Rightarrow> nat list Task" where
  "bump_task n = Task (\<lambda>c. (c @ [n], [], None))"

lemma bump_task_effect [simp]: "task_effect (bump_task n) c = (c @ [n], None)" "plain (bump_task n)"
  by (simp_all add: bump_task_def task_effect_def plain_def)

definition bomb :: "nat list Task" where
  "bomb = Task (\<lambda>c. (c, [], Some (Std_exception ''boom'')))"

lemma bomb_effect [simp]: "task_effect bomb c = (c, Some (Std_exception ''boom''))" "plain bomb"
  by (simp_all add: bomb_def task_effect_def plain_def)

theorem update_runs_due_tasks_witness:
  "\<exists>k. Update 5 10 \<lparr>tasks = [(5, bump_task 1), (20, bump_task 2), (10, bomb), (7, bump_task 3)], capacity = 4\<rparr> [] =
     Some (Inr (\<lparr>tasks = [(20, bump_task 2), (10, bomb), (7, bump_task 3)], capacity = 4\<rparr>, [1], Some (Std_exception ''boom'')))
     \<and> [(20 :: int, bump_task 2), (10, bomb), (7, bump_task 3)] =
        filter (\<lambda>(w, t). 10 < w) (take k [(5, bump_task 1), (20, bump_task 2), (10, bomb), (7, bump_task 3)])
        @ drop k [(5, bump_task 1), (20, bump_task 2), (10, bomb), (7, bump_task 3)]"
proof -
  let ?s = "\<lparr>tasks = [(5, bump_task 1), (20, bump_task 2), (10, bomb), (7, bump_task 3)], capacity = 4\<rparr> :: nat list Scheduler"
  have "\<forall>(w, t) \<in> set (tasks ?s). plain t" "length (tasks ?s) < 5" by simp_all
  note run = update_runs_due_tasks [OF this, of 10 "[]"]
  have "Update 5 10 ?s [] = Some (Inr (?s\<lparr>tasks := [(20, bump_task 2), (10, bomb), (7, bump_task 3)]\<rparr>, [1], Some (Std_exception ''boom'')))"
    by (simp add: Update_def eval_nat_numeral bump_task_def bomb_def erase_at_def)
  with run show ?thesis by auto
qed

text \<open>
  A task that throws is not removed: if the first due task that can throw does throw, the
  frame reports it, runs nothing behind it, and leaves it and everything behind it in place
  (only the due tasks before it are gone). So as long as it keeps throwing, every later frame
  stops at it again and the tasks behind it never run.
\<close>

theorem update_throwing_task_blocks:
  assumes "\<forall>(w, t) \<in> set (pre @ (w0, t0) # post). plain t"
    and "\<forall>(w, t) \<in> set pre. now < w \<or> (\<forall>c. snd (task_effect t c) = None)"
    and "w0 \<le> now" "\<forall>c. snd (task_effect t0 c) \<noteq> None"
    and "tasks s = pre @ (w0, t0) # post" "length (tasks s) < fuel"
  shows "\<exists>c' e. Update fuel now s c =
    Some (Inr (s\<lparr>tasks := filter (\<lambda>(w, t). now < w) pre @ (w0, t0) # post\<rparr>, c', Some e))"
  using frame_spec_throw [OF assms(2-4), of post c] Update_spec [of s fuel now c] assms(1,5,6)
  by auto

theorem update_throwing_task_blocks_witness:
  "\<exists>c' e. Update 4 10 \<lparr>tasks = [(5, bump_task 1), (6, bomb), (7, bump_task 2)], capacity = 4\<rparr> [] =
     Some (Inr (\<lparr>tasks = [(6, bomb), (7, bump_task 2)], capacity = 4\<rparr>, c', Some e))"
proof -
  let ?s = "\<lparr>tasks = [(5, bump_task 1), (6, bomb), (7, bump_task 2)], capacity = 4\<rparr> :: nat list Scheduler"
  have "\<forall>(w, t) \<in> set ([(5, bump_task 1)] @ (6, bomb) # [(7, bump_task 2)]). plain t"
    "\<forall>(w, t) \<in> set [(5::int, bump_task 1)]. 10 < w \<or> (\<forall>c. snd (task_effect t c) = None)"
    "(6::int) \<le> 10" "\<forall>c. snd (task_effect bomb c) \<noteq> None"
    "tasks ?s = [(5, bump_task 1)] @ (6, bomb) # [(7, bump_task 2)]" "length (tasks ?s) < 4"
    by (simp_all add: bomb_def bump_task_def plain_def task_effect_def)
  from update_throwing_task_blocks [OF this, of "[]"] show ?thesis by simp
qed

text \<open>
  Scheduling from inside a task is not safe: a due task at the front of the vector that
  pushes when the vector is full makes the frame undefined, whatever else is scheduled.
\<close>

theorem schedule_from_task_undefined:
  assumes "tasks s = (w, t) # ts" "w \<le> now" "length (tasks s) = capacity s"
    and "fst (snd (run_task t c)) \<noteq> []"
  shows "Update (Suc fuel) now s c = Some (Inl Undefined)"
  using assms by (cases "run_task t c") (auto simp: Update_def Let_def)

theorem schedule_from_task_undefined_witness:
  "Update 3 10 \<lparr>tasks = [(5, Task (\<lambda>c. (c, [(7, bump_task 1)], None)))], capacity = 1\<rparr> [] = Some (Inl Undefined)"
  using schedule_from_task_undefined
    [of "\<lparr>tasks = [(5, Task (\<lambda>c. (c, [(7, bump_task 1)], None)))], capacity = 1\<rparr>" 5
      "Task (\<lambda>c. (c, [(7, bump_task 1)], None))" "[]" 10 "[]" 2]
  by (simp add: numeral_eq_Suc)

end
