(* ===== verification/MCX_Stopping.thy ===== *)
theory MCX_Stopping
  imports MCX_Prelude
begin

text \<open>
  What the background threads have in common: the stages of a \<open>Stop\<close> that clears a flag, notifies
  and joins, and the interfaces of a component that winds down, and of a thread that ends, once the
  flag is cleared.
\<close>

text \<open>\<open>Stop\<close> has not been called, has cleared the flag, has notified and joins, has returned.\<close>

datatype stopping = Not_stopped | Flag_cleared | Joining | Stopped

text \<open>
  A component that winds down: once it is closing it stays so, and what it has started so far
  plus what it may still start never grows. So what it starts afterwards is bounded.
\<close>

locale winding_down =
  fixes step :: "'s \<Rightarrow> 's \<Rightarrow> bool"
    and closing :: "'s \<Rightarrow> bool"
    and started :: "'s \<Rightarrow> nat"
    and may_start :: "'s \<Rightarrow> nat"
  assumes step_closing: "step s t \<Longrightarrow> closing s \<Longrightarrow> closing t"
    and step_bound: "step s t \<Longrightarrow> closing s \<Longrightarrow> started t + may_start t \<le> started s + may_start s"
begin

lemma steps_closing: "step\<^sup>*\<^sup>* s t \<Longrightarrow> closing s \<Longrightarrow> closing t"
  by (induction rule: rtranclp_induct) (auto intro: step_closing)

lemma steps_bound: "step\<^sup>*\<^sup>* s t \<Longrightarrow> closing s \<Longrightarrow> started t + may_start t \<le> started s + may_start s"
proof (induction rule: rtranclp_induct)
  case (step u v)
  then have "closing u" using steps_closing by blast
  with step step_bound [of u v] show ?case by simp
qed simp

lemma started_bound: "step\<^sup>*\<^sup>* s t \<Longrightarrow> closing s \<Longrightarrow> started t \<le> started s + may_start s"
  using steps_bound by fastforce

end

text \<open>
  A component that ends: once it is closing, each step of its own lowers a measure. So it takes at
  most that many steps more, and reaches a state in which it has none.
\<close>

locale ending =
  fixes step :: "'s \<Rightarrow> 's \<Rightarrow> bool"
    and closing :: "'s \<Rightarrow> bool"
    and steps_left :: "'s \<Rightarrow> nat"
  assumes step_closing: "step s t \<Longrightarrow> closing s \<Longrightarrow> closing t"
    and step_lowers: "step s t \<Longrightarrow> closing s \<Longrightarrow> steps_left t < steps_left s"
begin

lemma run_bound: "(step ^^ n) s t \<Longrightarrow> closing s \<Longrightarrow> closing t \<and> n + steps_left t \<le> steps_left s"
proof (induction n arbitrary: t)
  case (Suc n)
  then obtain u where u: "(step ^^ n) s u" "step u t" by auto
  with Suc have "closing u \<and> n + steps_left u \<le> steps_left s" by blast
  with step_closing [OF u(2)] step_lowers [OF u(2)] show ?case by simp
qed simp

lemma reaches_end: "closing s \<Longrightarrow> \<exists>t. step\<^sup>*\<^sup>* s t \<and> closing t \<and> {u. step t u} = {}"
proof (induction s rule: measure_induct_rule [of steps_left])
  case (less s)
  show ?case
  proof (cases "\<exists>u. step s u")
    case True
    then obtain u where "step s u" by blast
    with less step_closing step_lowers show ?thesis by (meson converse_rtranclp_into_rtranclp)
  next
    case False
    with less.prems show ?thesis by blast
  qed
qed

end

end
