(* ===== verification/MCX_Timed.thy ===== *)
theory MCX_Timed
  imports MCX_Stopping
begin

text \<open>
  The timed executor (\<^verbatim>\<open>core/thread_scheduler.cpp\<close>): a priority queue of tasks with their due
  times and one worker thread, which waits on a condition variable. The steps of the worker are
  as fine as the loop needs: the test of the flag, the decision under the lock, the test of the
  predicate of \<^verbatim>\<open>wait\<close>, the moment it blocks. \<open>Schedule\<close> holds the lock; \<open>Stop\<close>
  does not, so its two actions may fall between any two steps of the worker. The call of a task
  is one step. Times are integers; a due time that overflows the clock is outside the model.
\<close>

subsection \<open>State\<close>

text \<open>\<^verbatim>\<open>TimedTask\<close> with its comparison operator, which looks at the due time only.\<close>

datatype 'c TimedTask = TimedTask (due: int) (work: "'c effect")

definition TimedTask_greater :: "'c TimedTask \<Rightarrow> 'c TimedTask \<Rightarrow> bool" where
  "TimedTask_greater a b \<longleftrightarrow> due a > due b"

instantiation TimedTask :: (type) preorder
begin

definition less_eq_TimedTask :: "'a TimedTask \<Rightarrow> 'a TimedTask \<Rightarrow> bool" where
  "less_eq_TimedTask a b \<longleftrightarrow> \<not> TimedTask_greater a b"

definition less_TimedTask :: "'a TimedTask \<Rightarrow> 'a TimedTask \<Rightarrow> bool" where
  "less_TimedTask a b \<longleftrightarrow> TimedTask_greater b a"

instance
  by standard (auto simp: less_eq_TimedTask_def less_TimedTask_def TimedTask_greater_def)

end

text \<open>
  Where the worker stands: before the test of the flag; with the lock; in \<^verbatim>\<open>wait\<close> with the lock,
  before and after the predicate was false; blocked without a limit; blocked until a time; ended.
\<close>

datatype phase = W_test | W_locked | W_predicate | W_blocking | W_waiting | W_until int | W_ended

text \<open>
  Among equal due times the heap may return any. Two ghost fields record what was scheduled and
  what ran, with the clock reading of the worker.
\<close>

record 'c ThreadScheduler =
  pending :: "'c TimedTask multiset"
  running :: bool
  wphase :: phase
  stopping :: stopping
  clock :: int
  client :: 'c
  console_out :: "console list"
  scheduled :: "'c TimedTask multiset"
  ran :: "(int \<times> 'c TimedTask) list"

text \<open>The constructor, which starts the worker; the clock counts from there.\<close>

definition new_ThreadScheduler :: "'c \<Rightarrow> 'c ThreadScheduler" where
  "new_ThreadScheduler c = \<lparr>pending = {#}, running = True, wphase = W_test, stopping = Not_stopped, clock = 0, client = c,
     console_out = [], scheduled = {#}, ran = []\<rparr>"

subsection \<open>Steps\<close>

definition is_top :: "'c TimedTask multiset \<Rightarrow> 'c TimedTask \<Rightarrow> bool" where
  "is_top q t \<longleftrightarrow> t \<in># q \<and> (\<forall>u \<in># q. \<not> u < t)"

definition run_timed :: "'c TimedTask \<Rightarrow> 'c ThreadScheduler \<Rightarrow> 'c ThreadScheduler" where
  "run_timed t s = (case work t (client s) of (c', ex) \<Rightarrow>
     s\<lparr>pending := pending s - {#t#}, client := c', ran := ran s @ [(clock s, t)], wphase := W_test,
       console_out := console_out s @ (case ex of None \<Rightarrow> []
         | Some e \<Rightarrow> [log_Error (''Scheduled task exception: '' @ exn_text e)])\<rparr>)"

text \<open>A notification reaches a worker that is blocked, and no other.\<close>

definition notified :: "phase \<Rightarrow> phase" where
  "notified p = (case p of W_waiting \<Rightarrow> W_predicate | W_until d \<Rightarrow> W_test | _ \<Rightarrow> p)"

definition holds_lock :: "phase \<Rightarrow> bool" where
  "holds_lock p \<longleftrightarrow> p \<in> {W_locked, W_predicate, W_blocking}"

definition Schedule_timed :: "int \<Rightarrow> 'c effect \<Rightarrow> 'c ThreadScheduler \<Rightarrow> 'c ThreadScheduler" where
  "Schedule_timed delay w s = (let t = TimedTask (clock s + delay * 1000000) w in
     s\<lparr>pending := add_mset t (pending s), scheduled := add_mset t (scheduled s), wphase := notified (wphase s)\<rparr>)"

inductive worker_step :: "'c ThreadScheduler \<Rightarrow> 'c ThreadScheduler \<Rightarrow> bool" where
  test: "wphase s = W_test \<Longrightarrow> worker_step s (s\<lparr>wphase := (if running s then W_locked else W_ended)\<rparr>)"
| empty: "wphase s = W_locked \<Longrightarrow> pending s = {#} \<Longrightarrow> worker_step s (s\<lparr>wphase := W_predicate\<rparr>)"
| predicate: "wphase s = W_predicate \<Longrightarrow>
    worker_step s (s\<lparr>wphase := (if pending s \<noteq> {#} \<or> \<not> running s then W_test else W_blocking)\<rparr>)"
| block: "wphase s = W_blocking \<Longrightarrow> worker_step s (s\<lparr>wphase := W_waiting\<rparr>)"
| run: "wphase s = W_locked \<Longrightarrow> is_top (pending s) t \<Longrightarrow> due t \<le> clock s \<Longrightarrow> worker_step s (run_timed t s)"
| later: "wphase s = W_locked \<Longrightarrow> is_top (pending s) t \<Longrightarrow> clock s < due t \<Longrightarrow> worker_step s (s\<lparr>wphase := W_until (due t)\<rparr>)"
| timeout: "wphase s = W_until d \<Longrightarrow> d \<le> clock s \<Longrightarrow> worker_step s (s\<lparr>wphase := W_test\<rparr>)"

text \<open>
  \<open>Stop\<close> clears the flag, then notifies, then joins. A blocked worker may also wake up without
  any reason (the standard permits it and nothing guarantees it).
\<close>

inductive stop_step :: "'c ThreadScheduler \<Rightarrow> 'c ThreadScheduler \<Rightarrow> bool" where
  clear: "stopping s = Not_stopped \<Longrightarrow> stop_step s (s\<lparr>running := False, stopping := Flag_cleared\<rparr>)"
| notify: "stopping s = Flag_cleared \<Longrightarrow> stop_step s (s\<lparr>wphase := notified (wphase s), stopping := Joining\<rparr>)"
| join: "stopping s = Joining \<Longrightarrow> wphase s = W_ended \<Longrightarrow> stop_step s (s\<lparr>stopping := Stopped\<rparr>)"

definition spurious :: "'c ThreadScheduler \<Rightarrow> 'c ThreadScheduler \<Rightarrow> bool" where
  "spurious s s' \<longleftrightarrow> s' = s\<lparr>wphase := notified (wphase s)\<rparr>"

inductive ts_step :: "'c ThreadScheduler \<Rightarrow> 'c ThreadScheduler \<Rightarrow> bool" where
  schedule: "\<not> holds_lock (wphase s) \<Longrightarrow> ts_step s (Schedule_timed delay w s)"
| worker: "worker_step s s' \<Longrightarrow> ts_step s s'"
| stop: "stop_step s s' \<Longrightarrow> ts_step s s'"
| wake: "spurious s s' \<Longrightarrow> ts_step s s'"
| tick: "clock s \<le> now \<Longrightarrow> ts_step s (s\<lparr>clock := now\<rparr>)"

inductive_cases ts_stepE: "ts_step s s'"
inductive_cases worker_stepE: "worker_step s s'"
inductive_cases stop_stepE: "stop_step s s'"

definition ts_start :: "'c ThreadScheduler \<Rightarrow> bool" where
  "ts_start s \<longleftrightarrow> pending s = {#} \<and> running s \<and> wphase s = W_test \<and> stopping s = Not_stopped \<and> scheduled s = {#}
     \<and> ran s = [] \<and> console_out s = []"

subsection \<open>The invariant\<close>

text \<open>
  Nothing is lost or run twice, nothing runs before it is due, the clock of the runs does not go
  back, and \<open>Stop\<close> has returned only when the worker has ended.
\<close>

definition ts_inv :: "'c ThreadScheduler \<Rightarrow> bool" where
  "ts_inv s \<longleftrightarrow> scheduled s = pending s + mset (map snd (ran s))
     \<and> (\<forall>(n, t) \<in> set (ran s). due t \<le> n \<and> n \<le> clock s)
     \<and> sorted (map fst (ran s)) \<and> (running s \<longleftrightarrow> stopping s = Not_stopped)
     \<and> (stopping s = Stopped \<longrightarrow> wphase s = W_ended)"

lemma ts_start_inv: "ts_start s \<Longrightarrow> ts_inv s"
  by (simp add: ts_start_def ts_inv_def)

lemma run_timed_fields [simp]:
  "pending (run_timed t s) = pending s - {#t#}" "scheduled (run_timed t s) = scheduled s"
  "ran (run_timed t s) = ran s @ [(clock s, t)]" "clock (run_timed t s) = clock s"
  "running (run_timed t s) = running s" "wphase (run_timed t s) = W_test" "stopping (run_timed t s) = stopping s"
  by (simp_all add: run_timed_def split: prod.split)

lemma Schedule_timed_fields [simp]:
  "ran (Schedule_timed d w s) = ran s" "running (Schedule_timed d w s) = running s" "stopping (Schedule_timed d w s) = stopping s"
  "clock (Schedule_timed d w s) = clock s" "wphase (Schedule_timed d w s) = notified (wphase s)"
  by (simp_all add: Schedule_timed_def Let_def)

lemma notified_simps [simp]: "notified W_ended = W_ended" "notified W_locked = W_locked" "notified W_test = W_test"
  by (simp_all add: notified_def)

lemma notified_eq [simp]: "notified p = W_locked \<longleftrightarrow> p = W_locked" "notified p = W_ended \<longleftrightarrow> p = W_ended"
  by (cases p; simp add: notified_def)+

lemma worker_step_inv: "worker_step s s' \<Longrightarrow> ts_inv s \<Longrightarrow> ts_inv s'"
proof (induction rule: worker_step.induct)
  case (run s t)
  then have "t \<in># pending s" by (simp add: is_top_def)
  with run show ?case by (auto simp: ts_inv_def sorted_append)
qed (auto simp: ts_inv_def)

lemma ts_step_inv: "ts_step s s' \<Longrightarrow> ts_inv s \<Longrightarrow> ts_inv s'"
proof (induction rule: ts_step.induct)
  case (schedule s delay w)
  then show ?case by (auto simp: ts_inv_def Schedule_timed_def Let_def)
next
  case (worker s s')
  then show ?case by (rule worker_step_inv)
next
  case (stop s s')
  then show ?case by (auto simp: ts_inv_def elim!: stop_stepE)
next
  case (wake s s')
  then show ?case by (auto simp: ts_inv_def spurious_def)
next
  case (tick s now)
  then show ?case by (force simp: ts_inv_def)
qed

interpretation timed: invariant_steps ts_start ts_step ts_inv
  by unfold_locales (auto intro: ts_start_inv ts_step_inv)

text \<open>
  C18. The timed executor in every reachable state, under any interleaving of scheduling, worker
  steps, clock ticks and stopping: each scheduled task is either still pending or has run, once;
  no task has run before its due time; the runs happened in the order of the clock; and when \<open>Stop\<close>
  has returned, the worker has ended.
\<close>

theorem timed_tasks_safe:
  assumes "ts_start s0" "ts_step\<^sup>*\<^sup>* s0 s"
  shows "scheduled s = pending s + mset (map snd (ran s))
    \<and> (\<forall>(n, t) \<in> set (ran s). due t \<le> n) \<and> sorted (map fst (ran s)) \<and> (stopping s = Stopped \<longrightarrow> wphase s = W_ended)"
  using timed.reachable_inv [OF assms] by (auto simp: ts_inv_def)

definition ts_initial :: "nat list ThreadScheduler" where
  "ts_initial = new_ThreadScheduler []"

theorem timed_tasks_safe_witness:
  "\<exists>s. ts_step\<^sup>*\<^sup>* ts_initial s \<and> length (ran s) = 1 \<and> (\<forall>(n, t) \<in> set (ran s). due t \<le> n)"
proof -
  let ?w = "\<lambda>c. (c @ [1], None)"
  let ?t = "TimedTask 5000000 ?w :: nat list TimedTask"
  let ?s1 = "Schedule_timed 5 ?w ts_initial"
  let ?s2 = "?s1\<lparr>clock := 6000000\<rparr>"
  let ?s3 = "?s2\<lparr>wphase := W_locked\<rparr>"
  note defs = ts_initial_def new_ThreadScheduler_def Schedule_timed_def notified_def holds_lock_def Let_def
  have start: "ts_start ts_initial" by (simp add: ts_start_def ts_initial_def new_ThreadScheduler_def)
  have 1: "ts_step ts_initial ?s1" by (rule ts_step.schedule) (simp add: defs)
  have 2: "ts_step ?s1 ?s2" by (rule ts_step.tick) (simp add: defs)
  have 3: "ts_step ?s2 ?s3" using worker_step.test [of ?s2] by (intro ts_step.worker) (simp add: defs)
  have "worker_step ?s3 (run_timed ?t ?s3)"
    by (rule worker_step.run) (simp_all add: defs is_top_def less_TimedTask_def TimedTask_greater_def)
  then have 4: "ts_step ?s3 (run_timed ?t ?s3)" by (rule ts_step.worker)
  have steps: "ts_step\<^sup>*\<^sup>* ts_initial (run_timed ?t ?s3)"
    using three_steps [of ts_step, OF 1 2 3] 4 by (rule rtranclp.rtrancl_into_rtrancl)
  have "length (ran (run_timed ?t ?s3)) = 1" by (simp add: defs)
  with steps timed_tasks_safe [OF start steps] show ?thesis by blast
qed

text \<open>The order of the worker: a run takes a task of least due time.\<close>

lemma worker_takes_least: "is_top q t \<Longrightarrow> u \<in># q \<Longrightarrow> due t \<le> due u"
  by (auto simp: is_top_def less_TimedTask_def TimedTask_greater_def)

subsection \<open>Stopping\<close>

text \<open>How many tasks may still start once the flag is cleared.\<close>

definition may_start :: "phase \<Rightarrow> nat" where
  "may_start p = (if p = W_locked then 1 else 0)"

interpretation timed_end: winding_down ts_step "\<lambda>s. \<not> running s" "\<lambda>s. length (ran s)" "\<lambda>s. may_start (wphase s)"
  by unfold_locales (auto elim!: ts_stepE worker_stepE stop_stepE simp: may_start_def spurious_def)

text \<open>
  Once \<open>Stop\<close> has cleared the flag, at most one more task starts, whatever happens afterwards,
  and none unless the worker had already passed the test of the flag and held the lock.
\<close>

theorem timed_stop_starts_at_most_one:
  assumes "ts_step\<^sup>*\<^sup>* s s'" "stopping s = Flag_cleared" "ts_step\<^sup>*\<^sup>* s0 s" "ts_start s0"
  shows "length (ran s') \<le> length (ran s) + (if wphase s = W_locked then 1 else 0)"
proof -
  have "\<not> running s" using timed.reachable_inv [OF assms(4,3)] assms(2) by (simp add: ts_inv_def)
  from timed_end.started_bound [OF assms(1) this] show ?thesis by (simp add: may_start_def)
qed

text \<open>A task that is due when the flag is cleared, with the worker between its test and its queue, still runs.\<close>

theorem timed_stop_starts_at_most_one_witness:
  "\<exists>s s'. ts_step\<^sup>*\<^sup>* ts_initial s \<and> \<not> running s \<and> ts_step\<^sup>*\<^sup>* s s' \<and> length (ran s') = 1 \<and> length (ran s') \<le> length (ran s) + 1"
proof -
  let ?w = "\<lambda>c. (c @ [1], None)"
  let ?t = "TimedTask 0 ?w :: nat list TimedTask"
  let ?s1 = "Schedule_timed 0 ?w ts_initial"
  let ?s2 = "?s1\<lparr>wphase := W_locked\<rparr>"
  let ?s3 = "?s2\<lparr>running := False, stopping := Flag_cleared\<rparr>"
  note defs = ts_initial_def new_ThreadScheduler_def Schedule_timed_def notified_def holds_lock_def Let_def
  have start: "ts_start ts_initial" by (simp add: ts_start_def ts_initial_def new_ThreadScheduler_def)
  have 1: "ts_step ts_initial ?s1" by (rule ts_step.schedule) (simp add: defs)
  have 2: "ts_step ?s1 ?s2" using worker_step.test [of ?s1] by (intro ts_step.worker) (simp add: defs)
  have 3: "ts_step ?s2 ?s3" by (rule ts_step.stop, rule stop_step.clear) (simp add: defs)
  have steps: "ts_step\<^sup>*\<^sup>* ts_initial ?s3" by (rule three_steps [of ts_step, OF 1 2 3])
  have "worker_step ?s3 (run_timed ?t ?s3)"
    by (rule worker_step.run) (simp_all add: defs is_top_def less_TimedTask_def TimedTask_greater_def)
  then have run: "ts_step\<^sup>*\<^sup>* ?s3 (run_timed ?t ?s3)" by (blast intro: ts_step.worker)
  have "length (ran (run_timed ?t ?s3)) = 1" "\<not> running ?s3" by (simp_all add: defs)
  with steps run timed_stop_starts_at_most_one [OF run _ steps start] show ?thesis by fastforce
qed

text \<open>
  C17. \<open>Stop\<close> can hang. The flag is cleared and the condition notified without the lock: when both
  happen after the worker has found its predicate false and before it blocks, the notification is
  lost. The state is reachable from a fresh executor; in it \<open>Stop\<close> joins a worker that waits,
  the worker has no step of its own, \<open>Stop\<close> has none either, and but for a task scheduled by someone
  (or an unfounded wake-up) every step leaves it so.
\<close>

theorem timed_stop_can_hang:
  "\<exists>s. ts_step\<^sup>*\<^sup>* ts_initial s \<and> stopping s = Joining \<and> wphase s = W_waiting
     \<and> (\<forall>s'. \<not> worker_step s s') \<and> (\<forall>s'. \<not> stop_step s s')
     \<and> (\<lambda>s'. (stopping s', wphase s')) ` {s'. ts_step s s' \<and> scheduled s' = scheduled s \<and> \<not> spurious s s'} = {(Joining, W_waiting)}"
proof -
  let ?p = "\<lambda>q. ts_initial\<lparr>wphase := q\<rparr>"
  let ?s1 = "?p W_blocking\<lparr>running := False, stopping := Flag_cleared\<rparr>"
  let ?s2 = "?s1\<lparr>stopping := Joining\<rparr>"
  let ?s = "?s2\<lparr>wphase := W_waiting\<rparr>"
  note d = ts_initial_def new_ThreadScheduler_def
  have "worker_step ts_initial (?p W_locked)" using worker_step.test [of ts_initial] by (simp add: d)
  moreover have "worker_step (?p W_locked) (?p W_predicate)" using worker_step.empty [of "?p W_locked"] by (simp add: d)
  moreover have "worker_step (?p W_predicate) (?p W_blocking)" using worker_step.predicate [of "?p W_predicate"] by (simp add: d)
  ultimately have 1: "ts_step\<^sup>*\<^sup>* ts_initial (?p W_blocking)" by (intro three_steps [of ts_step]) (auto intro: ts_step.worker)
  have "stop_step (?p W_blocking) ?s1" by (rule stop_step.clear) (simp add: d)
  moreover have "stop_step ?s1 ?s2" using stop_step.notify [of ?s1] by (simp add: d notified_def)
  moreover have "worker_step ?s2 ?s" by (rule worker_step.block) (simp add: d)
  ultimately have 2: "ts_step\<^sup>*\<^sup>* (?p W_blocking) ?s" by (intro three_steps [of ts_step]) (auto intro: ts_step.worker ts_step.stop)
  have f: "stopping ?s = Joining" "wphase ?s = W_waiting" by simp_all
  have w: "\<not> worker_step ?s s'" for s' by (auto simp: d elim: worker_stepE)
  have t: "\<not> stop_step ?s s'" for s' by (auto simp: d elim: stop_stepE)
  have "(stopping s' = Joining \<and> wphase s' = W_waiting) \<or> scheduled s' \<noteq> scheduled ?s \<or> spurious ?s s'" if "ts_step ?s s'" for s'
    using that
  proof (cases rule: ts_step.cases)
    case (schedule delay w)
    then show ?thesis by (simp add: Schedule_timed_def Let_def)
  next
    case (tick now)
    then show ?thesis by simp
  qed (use w t in blast)+
  then have "(stopping s', wphase s') = (Joining, W_waiting)" if "ts_step ?s s' \<and> scheduled s' = scheduled ?s \<and> \<not> spurious ?s s'" for s'
    using that by auto
  moreover have "ts_step ?s (?s\<lparr>clock := 1\<rparr>)" "\<not> spurious ?s (?s\<lparr>clock := 1\<rparr>)"
    by (rule ts_step.tick) (simp_all add: d spurious_def)
  ultimately have "(\<lambda>s'. (stopping s', wphase s')) ` {s'. ts_step ?s s' \<and> scheduled s' = scheduled ?s \<and> \<not> spurious ?s s'} = {(Joining, W_waiting)}"
    by (intro set_eqI iffI) (auto intro!: image_eqI [of _ _ "?s\<lparr>clock := 1\<rparr>"])
  with f w t show ?thesis using rtranclp_trans [OF 1 2] by blast
qed

subsection \<open>An executor that nobody uses\<close>

text \<open>The steps when no one schedules a task, with or without unfounded wake-ups.\<close>

definition unattended_step :: "'c ThreadScheduler \<Rightarrow> 'c ThreadScheduler \<Rightarrow> bool" where
  "unattended_step s s' \<longleftrightarrow> ts_step s s' \<and> scheduled s' = scheduled s"

definition unwoken_step :: "'c ThreadScheduler \<Rightarrow> 'c ThreadScheduler \<Rightarrow> bool" where
  "unwoken_step s s' \<longleftrightarrow> unattended_step s s' \<and> \<not> spurious s s'"

lemma unattendedI: "worker_step s s' \<or> stop_step s s' \<Longrightarrow> scheduled s' = scheduled s \<Longrightarrow> unattended_step s s'"
  by (auto simp: unattended_step_def intro: ts_step.worker ts_step.stop)

text \<open>The flag is cleared before the worker looks at it for the first time: \<open>Stop\<close> returns.\<close>

lemma unused_can_stop: "\<exists>s. unattended_step\<^sup>*\<^sup>* (new_ThreadScheduler c) s \<and> stopping s = Stopped"
proof -
  let ?s0 = "new_ThreadScheduler c"
  let ?s1 = "?s0\<lparr>running := False, stopping := Flag_cleared\<rparr>"
  let ?s2 = "?s1\<lparr>wphase := W_ended\<rparr>"
  let ?s3 = "?s2\<lparr>stopping := Joining\<rparr>"
  let ?s4 = "?s3\<lparr>stopping := Stopped\<rparr>"
  note d = new_ThreadScheduler_def
  have "stop_step ?s0 ?s1" by (rule stop_step.clear) (simp add: d)
  moreover have "worker_step ?s1 ?s2" using worker_step.test [of ?s1] by (simp add: d)
  moreover have "stop_step ?s2 ?s3" using stop_step.notify [of ?s2] by (simp add: d)
  moreover have "stop_step ?s3 ?s4" by (rule stop_step.join) (simp_all add: d)
  ultimately have u: "unattended_step ?s0 ?s1" "unattended_step ?s1 ?s2" "unattended_step ?s2 ?s3" "unattended_step ?s3 ?s4"
    by (simp_all add: unattendedI)
  have "unattended_step\<^sup>*\<^sup>* ?s0 ?s4" using three_steps [of unattended_step, OF u(1-3)] u(4) by (rule rtranclp.rtrancl_into_rtrancl)
  moreover have "stopping ?s4 = Stopped" by simp
  ultimately show ?thesis by blast
qed

text \<open>The lost notification.\<close>

lemma unused_can_hang: "\<exists>s. unattended_step\<^sup>*\<^sup>* (new_ThreadScheduler c) s \<and> stopping s = Joining \<and> wphase s = W_waiting"
proof -
  let ?new = "new_ThreadScheduler c"
  let ?p = "\<lambda>q. ?new\<lparr>wphase := q\<rparr>"
  let ?s1 = "?p W_blocking\<lparr>running := False, stopping := Flag_cleared\<rparr>"
  let ?s2 = "?s1\<lparr>stopping := Joining\<rparr>"
  let ?s = "?s2\<lparr>wphase := W_waiting\<rparr>"
  note d = new_ThreadScheduler_def
  have "worker_step ?new (?p W_locked)" using worker_step.test [of ?new] by (simp add: d)
  moreover have "worker_step (?p W_locked) (?p W_predicate)" using worker_step.empty [of "?p W_locked"] by (simp add: d)
  moreover have "worker_step (?p W_predicate) (?p W_blocking)" using worker_step.predicate [of "?p W_predicate"] by (simp add: d)
  ultimately have u: "unattended_step ?new (?p W_locked)" "unattended_step (?p W_locked) (?p W_predicate)"
    "unattended_step (?p W_predicate) (?p W_blocking)" by (simp_all add: unattendedI)
  have "stop_step (?p W_blocking) ?s1" by (rule stop_step.clear) (simp add: d)
  moreover have "stop_step ?s1 ?s2" using stop_step.notify [of ?s1] by (simp add: d notified_def)
  moreover have "worker_step ?s2 ?s" by (rule worker_step.block) (simp add: d)
  ultimately have v: "unattended_step (?p W_blocking) ?s1" "unattended_step ?s1 ?s2" "unattended_step ?s2 ?s"
    by (simp_all add: unattendedI)
  note 1 = three_steps [of unattended_step, OF u] and 2 = three_steps [of unattended_step, OF v]
  have "stopping ?s = Joining" "wphase ?s = W_waiting" by simp_all
  with rtranclp_trans [OF 1 2] show ?thesis by blast
qed

lemma hung_stays: "unwoken_step s s' \<Longrightarrow> stopping s = Joining \<and> wphase s = W_waiting \<Longrightarrow> stopping s' = Joining \<and> wphase s' = W_waiting"
  unfolding unwoken_step_def unattended_step_def
  by (elim conjE ts_stepE) (auto elim!: worker_stepE stop_stepE simp: Schedule_timed_def Let_def)

end
