(* ===== verification/MCX_Server.thy ===== *)
theory MCX_Server
  imports MCX_Modules MCX_Scripts MCX_Players MCX_Scheduler MCX_Timed
begin

text \<open>
  The server (\<^verbatim>\<open>core/server.cpp\<close>) with its metrics and the signal handler
  (\<^verbatim>\<open>core/signal_handler.cpp\<close>): event handling over the scene manager, the player
  registry, the script runtime and the modules; start-up; and the main loop over the frame
  scheduler. Scripts, modules and tasks share one world state \<open>'w\<close>. The server also owns a
  timed executor, whose worker runs from the constructor to the destructor; the program schedules nothing
  on it, so what its tasks act on is left out (\<open>unit\<close>).
\<close>

subsection \<open>State\<close>

record Config =
  backendEndpoint :: string
  scriptRoot :: string
  modulesPath :: string
  maxPlayers :: int
  demoMode :: bool

definition default_Config :: Config where
  "default_Config = \<lparr>backendEndpoint = [], scriptRoot = ''scripts'', modulesPath = ''modules'', maxPlayers = 0, demoMode = True\<rparr>"

record Metrics =
  eventsProcessed :: size_t
  actionsExecuted :: size_t
  playersConnected :: size_t
  scenesSwitched :: size_t

definition zero_Metrics :: Metrics where
  "zero_Metrics = \<lparr>eventsProcessed = 0, actionsExecuted = 0, playersConnected = 0, scenesSwitched = 0\<rparr>"

record 'w Server =
  config :: Config
  server_running :: bool
  scriptRuntime :: "'w ScriptRuntime"
  sceneManager :: SceneManager
  playerRegistry :: PlayerRegistry
  scheduler :: "'w Scheduler"
  threadScheduler :: "unit ThreadScheduler"
  metrics :: Metrics
  server_permissions :: PermissionRegistry
  moduleLoader :: "'w ModuleLoader"

text \<open>
  The constructor. \<open>lua\<close> is what \<^verbatim>\<open>CreateLuaRuntime\<close> gives, \<open>None\<close> in a build without
  \<^verbatim>\<open>MCX_HAS_LUA\<close>.
\<close>

definition Server_new :: "'w ScriptRuntime result option \<Rightarrow> Config \<Rightarrow> 'w Server result" where
  "Server_new lua cfg =
     rbind (if demoMode cfg then Inr HardcodedScriptRuntime
            else (case lua of Some rt \<Rightarrow> rt | None \<Rightarrow> Inr DummyScriptRuntime))
       (\<lambda>rt. Inr \<lparr>config = cfg, server_running = False, scriptRuntime = rt, sceneManager = \<lparr>currentScene = []\<rparr>,
          playerRegistry = empty_registry, scheduler = empty_scheduler,
          threadScheduler = new_ThreadScheduler (), metrics = zero_Metrics,
          server_permissions = empty_permissions, moduleLoader = empty_loader\<rparr>)"

definition Stop :: "'w Server \<Rightarrow> 'w Server" where
  "Stop srv = srv\<lparr>server_running := False\<rparr>"

subsection \<open>Handling an event\<close>

definition joined_player :: "PlayerJoinEvent \<Rightarrow> 'w Server \<Rightarrow> Player" where
  "joined_player j srv = default_Player\<lparr>pid := pid (join_player j), pname := pname (join_player j),
     pscene := GetCurrentScene (sceneManager srv)\<rparr>"

text \<open>The part of \<^verbatim>\<open>HandleEvent\<close> before the runtime is called.\<close>

definition track_player :: "Event \<Rightarrow> 'w Server \<Rightarrow> 'w Server \<times> console list" where
  "track_player event srv =
     (if etype event = PLAYER_JOIN \<and> playerJoin event \<noteq> None then
        (case AddPlayer (joined_player (the (playerJoin event)) srv) (playerRegistry srv) of (reg, out) \<Rightarrow>
           (srv\<lparr>playerRegistry := reg, metrics := (metrics srv)\<lparr>playersConnected := playersConnected (metrics srv) + 1\<rparr>\<rparr>, out))
      else if etype event = PLAYER_QUIT \<and> playerQuit event \<noteq> None then
        (case RemovePlayer (pid (quit_player (the (playerQuit event)))) (playerRegistry srv) of (reg, out) \<Rightarrow>
           (srv\<lparr>playerRegistry := reg, metrics := (metrics srv)\<lparr>playersConnected := playersConnected (metrics srv) - 1\<rparr>\<rparr>, out))
      else (srv, []))"

definition HandleEvent :: "Event \<Rightarrow> 'w Server \<Rightarrow> 'w \<Rightarrow> 'w Server \<times> 'w \<times> console list \<times> ActionList result" where
  "HandleEvent event srv w =
     (let srv = srv\<lparr>metrics := (metrics srv)\<lparr>eventsProcessed := eventsProcessed (metrics srv) + 1\<rparr>\<rparr> in
      case track_player event srv of (srv, out1) \<Rightarrow>
      (case rt_HandleEvent (scriptRuntime srv) event w of
         (w, out2, Inl e) \<Rightarrow> (srv, w, out1 @ out2, Inl e)
       | (w, out2, Inr actions) \<Rightarrow>
           (case DispatchEvent (moduleLoader srv) event actions w of (w, out3, actions) \<Rightarrow>
              (srv\<lparr>metrics := (metrics srv)\<lparr>actionsExecuted := actionsExecuted (metrics srv) + of_nat (length actions)\<rparr>\<rparr>,
               w, out1 @ out2 @ out3, Inr actions))))"

subsection \<open>Signals\<close>

text \<open>The two globals of the signal handler; the callback acts on the state \<open>'s\<close> it captures.\<close>

record 's Signals =
  shutdownRequested :: bool
  g_callback :: "('s \<Rightarrow> 's \<times> console list) option"

definition SignalHandler :: "'s Signals \<Rightarrow> 's \<Rightarrow> 's Signals \<times> 's \<times> console list" where
  "SignalHandler sig s = (let sig = sig\<lparr>shutdownRequested := True\<rparr> in
     case g_callback sig of None \<Rightarrow> (sig, s, []) | Some f \<Rightarrow> (case f s of (s, out) \<Rightarrow> (sig, s, out)))"

definition RegisterSignalHandler :: "('s \<Rightarrow> 's \<times> console list) \<Rightarrow> 's Signals \<Rightarrow> 's Signals" where
  "RegisterSignalHandler callback sig = sig\<lparr>g_callback := Some callback\<rparr>"

definition ShouldShutdown :: "'s Signals \<Rightarrow> bool" where
  "ShouldShutdown sig = shutdownRequested sig"

definition shutdown_callback :: "'w Server \<Rightarrow> 'w Server \<times> console list" where
  "shutdown_callback srv = (Stop srv, [log_Info ''Shutdown signal received''])"

subsection \<open>The main loop\<close>

definition server_Update :: "nat \<Rightarrow> int \<Rightarrow> 'w Server \<Rightarrow> 'w \<Rightarrow> ('w Server \<times> 'w \<times> exn option) result option" where
  "server_Update fuel now srv w = map_option (rmap (\<lambda>(s, w, ex). (srv\<lparr>scheduler := s\<rparr>, w, ex))) (Update fuel now (scheduler srv) w)"

text \<open>
  One iteration of the loop sees whether a signal has arrived before it tests its condition,
  and the clock of the frame. The loop consumes a list of such observations: it returns
  (\<open>True\<close>) at the first test that fails, and is still running (\<open>False\<close>) when the list ends.
  The fuel is that of the scheduler's frame.
\<close>

datatype frame = Frame (signalled: bool) (frame_time: int)

fun MainLoop :: "nat \<Rightarrow> frame list \<Rightarrow> 'w Server Signals \<Rightarrow> 'w Server \<Rightarrow> 'w \<Rightarrow>
    ('w Server Signals \<times> 'w Server \<times> 'w \<times> console list \<times> bool) result option" where
  "MainLoop fuel [] sig srv w = Some (Inr (sig, srv, w, [], False))"
| "MainLoop fuel (f # fs) sig srv w =
     (case (if signalled f then SignalHandler sig srv else (sig, srv, [])) of (sig, srv, out1) \<Rightarrow>
      if \<not> (server_running srv \<and> \<not> ShouldShutdown sig) then Some (Inr (sig, srv, w, out1, True))
      else (case server_Update fuel (frame_time f) srv w of
         None \<Rightarrow> None
       | Some (Inl e) \<Rightarrow> Some (Inl e)
       | Some (Inr (srv, w, ex)) \<Rightarrow>
           map_option (rmap (\<lambda>(sig, srv, w, out2, b). (sig, srv, w,
               out1 @ (case ex of None \<Rightarrow> [] | Some e \<Rightarrow> [log_Error (''Frame error: '' @ exn_text e)]) @ out2, b)))
             (MainLoop fuel fs sig srv w)))"

subsection \<open>Start-up\<close>

fun load_modules :: "'w DynLink \<Rightarrow> string list \<Rightarrow> 'w ModuleLoader \<Rightarrow> 'w \<Rightarrow> 'w ModuleLoader \<times> 'w \<times> console list \<times> unit result" where
  "load_modules dl [] l w = (l, w, [], Inr ())"
| "load_modules dl (p # ps) l w =
     (if path_extension p = ''.so'' then
        (case LoadModule dl p l w of
           (l, w, out, Inl e) \<Rightarrow> (l, w, out, Inl (Exception e))
         | (l, w, out, Inr b) \<Rightarrow> (case load_modules dl ps l w of (l, w, out2, r) \<Rightarrow> (l, w, out @ out2, r)))
      else load_modules dl ps l w)"

definition LoadModules :: "filesystem_view \<Rightarrow> 'w DynLink \<Rightarrow> 'w Server \<Rightarrow> 'w \<Rightarrow> 'w Server \<times> 'w \<times> console list \<times> unit result" where
  "LoadModules fs dl srv w = (case fs (modulesPath (config srv)) of
     Missing \<Rightarrow> (srv, w, [log_Warn (''Modules path not found: '' @ modulesPath (config srv))], Inr ())
   | Not_directory \<Rightarrow> (srv, w, [], Inl (Exception filesystem_error))
   | Directory ps \<Rightarrow> (case load_modules dl ps (moduleLoader srv) w of
       (l, w, out, r) \<Rightarrow> (srv\<lparr>moduleLoader := l\<rparr>, w, out, r)))"

text \<open>
  \<^verbatim>\<open>Run\<close>. An exception of the main loop would be logged, would stop the server and would be
  thrown again; one of the loading of scripts or modules escapes.
\<close>

definition Run :: "nat \<Rightarrow> filesystem_view \<Rightarrow> 'w DynLink \<Rightarrow> frame list \<Rightarrow> 'w Server Signals \<Rightarrow> 'w Server \<Rightarrow> 'w \<Rightarrow>
    ('w Server Signals \<times> 'w Server \<times> 'w \<times> console list \<times> bool) result option" where
  "Run fuel fs dl frames sig srv w =
     (let srv = srv\<lparr>server_running := True\<rparr>;
          sig = RegisterSignalHandler shutdown_callback sig;
          out0 = [log_Info ''Starting MCX server v0.2.0''] in
      case rt_LoadScripts (scriptRuntime srv) (scriptRoot (config srv)) w of
        (w, out1, Inl e) \<Rightarrow> Some (Inl e)
      | (w, out1, Inr _) \<Rightarrow> (case LoadModules fs dl srv w of
          (srv, w, out2, Inl e) \<Rightarrow> Some (Inl e)
        | (srv, w, out2, Inr _) \<Rightarrow>
            map_option (rmap (\<lambda>(sig, srv, w, out3, b). (sig, srv, w, out0 @ out1 @ out2 @ out3, b)))
              (MainLoop fuel frames sig srv w)))"

text \<open>The handler of \<^verbatim>\<open>Run\<close> is dead code: no exception leaves the loop.\<close>

lemma MainLoop_no_exception: "MainLoop fuel fs sig srv w \<noteq> Some (Inl (Exception e))"
proof (induction fs arbitrary: sig srv w)
  case Nil
  then show ?case by simp
next
  case (Cons f fs)
  have "server_Update fuel now s c \<noteq> Some (Inl (Exception e))" for now c and s :: "'a Server"
    using Update_no_exception [of fuel now "scheduler s" c e]
    by (auto simp: server_Update_def rmap_def split: sum.splits)
  with Cons show ?case
    by (auto simp: rmap_def split: prod.splits option.splits sum.splits if_splits)
qed

subsection \<open>Counters and the registry\<close>

text \<open>What an event does to the registry, and the deltas of the connection counter.\<close>

definition registry_ops :: "string \<Rightarrow> Event \<Rightarrow> registry_op list" where
  "registry_ops scene event =
     (if etype event = PLAYER_JOIN then (case playerJoin event of None \<Rightarrow> []
        | Some j \<Rightarrow> [Op_Add (default_Player\<lparr>pid := pid (join_player j), pname := pname (join_player j), pscene := scene\<rparr>)])
      else if etype event = PLAYER_QUIT then (case playerQuit event of None \<Rightarrow> [] | Some q \<Rightarrow> [Op_Remove (pid (quit_player q))])
      else [])"

definition connection_delta :: "Event \<Rightarrow> size_t" where
  "connection_delta event =
     (if etype event = PLAYER_JOIN \<and> playerJoin event \<noteq> None then 1
      else if etype event = PLAYER_QUIT \<and> playerQuit event \<noteq> None then - 1 else 0)"

lemma event_tracking:
  "registry_ops scene (join_event p) = [Op_Add (default_Player\<lparr>pid := pid p, pname := pname p, pscene := scene\<rparr>)]"
  "registry_ops scene (quit_event p) = [Op_Remove (pid p)]"
  "connection_delta (join_event p) = 1" "connection_delta (quit_event p) = - 1"
  by (simp_all add: registry_ops_def connection_delta_def event_defs)

lemma track_player_effect:
  "fst (track_player event srv) = srv\<lparr>
     playerRegistry := fold registry_exec (registry_ops (GetCurrentScene (sceneManager srv)) event) (playerRegistry srv),
     metrics := (metrics srv)\<lparr>playersConnected := playersConnected (metrics srv) + connection_delta event\<rparr>\<rparr>"
  by (cases srv)
    (auto simp: track_player_def registry_ops_def connection_delta_def joined_player_def split: option.splits prod.splits)

lemma HandleEvent_effect:
  assumes "HandleEvent event srv w = (srv', w', out, r)"
  shows "playerRegistry srv' = fold registry_exec (registry_ops (GetCurrentScene (sceneManager srv)) event) (playerRegistry srv)"
    and "sceneManager srv' = sceneManager srv"
    and "eventsProcessed (metrics srv') = eventsProcessed (metrics srv) + 1"
    and "playersConnected (metrics srv') = playersConnected (metrics srv) + connection_delta event"
    and "actionsExecuted (metrics srv') = actionsExecuted (metrics srv) + (case r of Inl e \<Rightarrow> 0 | Inr as \<Rightarrow> of_nat (length as))"
proof -
  let ?srv = "srv\<lparr>metrics := (metrics srv)\<lparr>eventsProcessed := eventsProcessed (metrics srv) + 1\<rparr>\<rparr>"
  obtain srv1 out1 where 1: "track_player event ?srv = (srv1, out1)" by fastforce
  then have srv1: "srv1 = fst (track_player event ?srv)" by simp
  have "playerRegistry srv' = playerRegistry srv1 \<and> sceneManager srv' = sceneManager srv1
    \<and> eventsProcessed (metrics srv') = eventsProcessed (metrics srv1)
    \<and> playersConnected (metrics srv') = playersConnected (metrics srv1)
    \<and> actionsExecuted (metrics srv') = actionsExecuted (metrics srv1) + (case r of Inl e \<Rightarrow> 0 | Inr as \<Rightarrow> of_nat (length as))"
    using assms by (auto simp: HandleEvent_def Let_def 1 split: prod.splits sum.splits)
  then show "playerRegistry srv' = fold registry_exec (registry_ops (GetCurrentScene (sceneManager srv)) event) (playerRegistry srv)"
    and "sceneManager srv' = sceneManager srv"
    and "eventsProcessed (metrics srv') = eventsProcessed (metrics srv) + 1"
    and "playersConnected (metrics srv') = playersConnected (metrics srv) + connection_delta event"
    and "actionsExecuted (metrics srv') = actionsExecuted (metrics srv) + (case r of Inl e \<Rightarrow> 0 | Inr as \<Rightarrow> of_nat (length as))"
    unfolding srv1 track_player_effect by simp_all
qed

definition handle_step :: "Event \<Rightarrow> 'w Server \<times> 'w \<Rightarrow> 'w Server \<times> 'w" where
  "handle_step event s = (case HandleEvent event (fst s) (snd s) of (srv, w, _) \<Rightarrow> (srv, w))"

lemma handle_step_effect:
  "playerRegistry (fst (handle_step e s)) = fold registry_exec (registry_ops (GetCurrentScene (sceneManager (fst s))) e) (playerRegistry (fst s))"
  "sceneManager (fst (handle_step e s)) = sceneManager (fst s)"
  "eventsProcessed (metrics (fst (handle_step e s))) = eventsProcessed (metrics (fst s)) + 1"
  "playersConnected (metrics (fst (handle_step e s))) = playersConnected (metrics (fst s)) + connection_delta e"
proof -
  obtain srv' w' out r where h: "HandleEvent e (fst s) (snd s) = (srv', w', out, r)" by (metis prod_cases4)
  then have "fst (handle_step e s) = srv'" by (simp add: handle_step_def)
  with HandleEvent_effect [OF h] show
    "playerRegistry (fst (handle_step e s)) = fold registry_exec (registry_ops (GetCurrentScene (sceneManager (fst s))) e) (playerRegistry (fst s))"
    "sceneManager (fst (handle_step e s)) = sceneManager (fst s)"
    "eventsProcessed (metrics (fst (handle_step e s))) = eventsProcessed (metrics (fst s)) + 1"
    "playersConnected (metrics (fst (handle_step e s))) = playersConnected (metrics (fst s)) + connection_delta e"
    by simp_all
qed

lemma handle_steps_effect:
  defines "scene s \<equiv> GetCurrentScene (sceneManager (fst s))"
  shows "playerRegistry (fst (fold handle_step events s)) = fold registry_exec (concat (map (registry_ops (scene s)) events)) (playerRegistry (fst s))
   \<and> sceneManager (fst (fold handle_step events s)) = sceneManager (fst s)
   \<and> eventsProcessed (metrics (fst (fold handle_step events s))) = eventsProcessed (metrics (fst s)) + of_nat (length events)
   \<and> playersConnected (metrics (fst (fold handle_step events s))) = playersConnected (metrics (fst s)) + sum_list (map connection_delta events)"
proof (induction events arbitrary: s)
  case Nil
  then show ?case by simp
next
  case (Cons e es)
  from handle_step_effect [of e s] Cons.IH [of "handle_step e s"] show ?case
    by (simp add: add.assoc scene_def)
qed

text \<open>
  C1. The server refines its player registry: whatever the script runtime and the modules do
  (they may throw), after any sequence of events the registry is what the joins and quits
  alone make of it, every joined player carrying the current scene; the counter of events is
  their number and the counter of connections the joins less the quits, both modulo \<open>2 ^ 64\<close>.
\<close>

theorem handle_event_history:
  "let srv' = fst (fold handle_step events (srv, w)); scene = GetCurrentScene (sceneManager srv) in
   playerRegistry srv' = fold registry_exec (concat (map (registry_ops scene) events)) (playerRegistry srv)
   \<and> sceneManager srv' = sceneManager srv
   \<and> eventsProcessed (metrics srv') = eventsProcessed (metrics srv) + of_nat (length events)
   \<and> playersConnected (metrics srv') = playersConnected (metrics srv) + sum_list (map connection_delta events)"
  using handle_steps_effect [of events "(srv, w)"] by (simp add: Let_def)

text \<open>
  Sequences in which only absent players join and only present players quit, over the set of
  ids that are online.
\<close>

fun orderly :: "string set \<Rightarrow> Event list \<Rightarrow> bool" where
  "orderly ids [] = True"
| "orderly ids (e # es) =
     (if etype e = PLAYER_JOIN \<and> playerJoin e \<noteq> None then
        (let i = pid (join_player (the (playerJoin e))) in i \<notin> ids \<and> orderly (insert i ids) es)
      else if etype e = PLAYER_QUIT \<and> playerQuit e \<noteq> None then
        (let i = pid (quit_player (the (playerQuit e))) in i \<in> ids \<and> orderly (ids - {i}) es)
      else orderly ids es)"

lemma registry_ops_online:
  assumes "orderly (dom (GetPlayer reg)) (e # es)"
  shows "orderly (dom (GetPlayer (fold registry_exec (registry_ops scene e) reg))) es
    \<and> of_nat (GetOnlineCount (fold registry_exec (registry_ops scene e) reg)) = of_nat (GetOnlineCount reg) + connection_delta e"
proof (cases "etype e = PLAYER_JOIN \<and> playerJoin e \<noteq> None")
  case True
  then obtain j where j: "playerJoin e = Some j" by auto
  with True assms have "GetPlayer reg (pid (join_player j)) = None" by (auto simp: Let_def domIff)
  with True j assms show ?thesis
    by (simp add: registry_ops_def connection_delta_def GetOnlineCount_AddPlayer GetPlayer_AddPlayer Let_def)
next
  case no_join: False
  show ?thesis
  proof (cases "etype e = PLAYER_QUIT \<and> playerQuit e \<noteq> None")
    case True
    then obtain q where q: "playerQuit e = Some q" by auto
    with True assms obtain p where p: "GetPlayer reg (pid (quit_player q)) = Some p" by (auto simp: Let_def)
    then have "GetOnlineCount reg > 0"
      by (auto simp: GetOnlineCount_card card_gt_0_iff finite_dom_GetPlayer)
    with True q p assms show ?thesis
      by (simp add: registry_ops_def connection_delta_def GetOnlineCount_RemovePlayer GetPlayer_RemovePlayer Let_def of_nat_diff)
  next
    case False
    with no_join assms show ?thesis
      by (auto simp: registry_ops_def connection_delta_def split: option.split)
  qed
qed

lemma registry_count_orderly:
  "orderly (dom (GetPlayer reg)) events \<Longrightarrow>
   of_nat (GetOnlineCount (fold registry_exec (concat (map (registry_ops scene) events)) reg)) =
   of_nat (GetOnlineCount reg) + sum_list (map connection_delta events)"
proof (induction events arbitrary: reg)
  case Nil
  then show ?case by simp
next
  case (Cons e es)
  from registry_ops_online [OF Cons.prems, of scene]
    Cons.IH [of "fold registry_exec (registry_ops scene e) reg"]
  show ?case by (simp add: add.assoc)
qed

text \<open>
  C8. The connection counter agrees with the registry exactly as long as the events are
  orderly: if it starts equal to the number of online players, and no player joins twice or
  quits without being online, then it is equal to it after every sequence of events.
\<close>

theorem connected_metric_is_online_count:
  assumes "orderly (dom (GetPlayer (playerRegistry srv))) events"
    and "playersConnected (metrics srv) = of_nat (GetOnlineCount (playerRegistry srv))"
  shows "playersConnected (metrics (fst (fold handle_step events (srv, w)))) =
    of_nat (GetOnlineCount (playerRegistry (fst (fold handle_step events (srv, w)))))"
  using handle_steps_effect [of events "(srv, w)"] registry_count_orderly [OF assms(1)] assms(2)
  by simp

definition demo_server :: "unit Server" where
  "demo_server = (case Server_new None default_Config of Inr srv \<Rightarrow> srv)"

definition player_a :: Player where "player_a = default_Player\<lparr>pid := ''a'', pname := ''Ann''\<rparr>"
definition player_b :: Player where "player_b = default_Player\<lparr>pid := ''b'', pname := ''Bob''\<rparr>"

lemma demo_server_fields:
  "playerRegistry demo_server = empty_registry" "metrics demo_server = zero_Metrics"
  "scriptRuntime demo_server = HardcodedScriptRuntime" "scheduler demo_server = empty_scheduler"
  "moduleLoader demo_server = empty_loader" "sceneManager demo_server = \<lparr>currentScene = []\<rparr>"
  by (simp_all add: demo_server_def Server_new_def default_Config_def)

lemma empty_registry_counts:
  "dom (GetPlayer empty_registry) = {}" "GetOnlineCount empty_registry = 0" "GetPlayer empty_registry i = None"
  by (auto simp: GetPlayer_def empty_registry_def GetOnlineCount_def)

theorem connected_metric_is_online_count_witness:
  "playersConnected (metrics (fst (fold handle_step [join_event player_a, join_event player_b, quit_event player_a] (demo_server, ())))) =
   of_nat (GetOnlineCount (playerRegistry (fst (fold handle_step
     [join_event player_a, join_event player_b, quit_event player_a] (demo_server, ())))))"
  by (rule connected_metric_is_online_count)
    (simp_all add: demo_server_fields empty_registry_counts event_defs player_a_def player_b_def Let_def
      default_Player_def zero_Metrics_def)

text \<open>
  Where they differ: on a fresh server one quit of a player that never joined takes the
  counter of connected players to \<open>2 ^ 64 - 1\<close> while nobody is online, and a player that joins
  twice is counted twice, whatever \<^verbatim>\<open>maxPlayers\<close> is.
\<close>

theorem connected_metric_drifts:
  "playersConnected (metrics (fst (handle_step (quit_event p) (demo_server, ())))) = 2 ^ 64 - 1
   \<and> GetOnlineCount (playerRegistry (fst (handle_step (quit_event p) (demo_server, ())))) = 0
   \<and> playersConnected (metrics (fst (fold handle_step [join_event p, join_event p] (demo_server, ())))) = 2
   \<and> GetOnlineCount (playerRegistry (fst (fold handle_step [join_event p, join_event p] (demo_server, ())))) = 1"
  using handle_steps_effect [of "[quit_event p]" "(demo_server, ())"]
    handle_steps_effect [of "[join_event p, join_event p]" "(demo_server, ())"]
  by (simp add: demo_server_fields event_tracking zero_Metrics_def
      GetOnlineCount_AddPlayer GetOnlineCount_RemovePlayer GetPlayer_AddPlayer empty_registry_counts)

subsection \<open>The loop under plain tasks\<close>

text \<open>What a sequence of frames does with plain tasks: the vector, the world, the log.\<close>

fun frames_spec :: "int list \<Rightarrow> 'w ScheduledTask list \<Rightarrow> 'w \<Rightarrow> 'w ScheduledTask list \<times> 'w \<times> console list" where
  "frames_spec [] ts w = (ts, w, [])"
| "frames_spec (now # nows) ts w = (case frame_spec now ts w of (ts, w, ex) \<Rightarrow>
     (case frames_spec nows ts w of (ts, w, out) \<Rightarrow>
        (ts, w, (case ex of None \<Rightarrow> [] | Some e \<Rightarrow> [log_Error (''Frame error: '' @ exn_text e)]) @ out)))"

lemma MainLoop_spec:
  assumes "\<forall>(t, task) \<in> set (tasks (scheduler srv)). plain task" "length (tasks (scheduler srv)) < fuel"
    and "server_running srv" "\<not> shutdownRequested sig" "g_callback sig = Some shutdown_callback"
    and "\<forall>f \<in> set fs. \<not> signalled f"
  shows "MainLoop fuel (fs @ Frame True now # rest) sig srv w =
    (case frames_spec (map frame_time fs) (tasks (scheduler srv)) w of (ts, w', out) \<Rightarrow>
       Some (Inr (sig\<lparr>shutdownRequested := True\<rparr>,
         Stop (srv\<lparr>scheduler := (scheduler srv)\<lparr>tasks := ts\<rparr>\<rparr>), w', out @ [log_Info ''Shutdown signal received''], True)))"
  using assms
proof (induction fs arbitrary: srv w)
  case Nil
  then show ?case by (simp add: SignalHandler_def shutdown_callback_def Stop_def Let_def)
next
  case (Cons f fs)
  let ?ts = "tasks (scheduler srv)"
  obtain ts1 w1 ex where fr: "frame_spec (frame_time f) ?ts w = (ts1, w1, ex)" by (metis prod_cases3)
  let ?srv1 = "srv\<lparr>scheduler := (scheduler srv)\<lparr>tasks := ts1\<rparr>\<rparr>"
  have up: "server_Update fuel (frame_time f) srv w = Some (Inr (?srv1, w1, ex))"
    using Update_spec [OF Cons.prems(1,2)] fr by (simp add: server_Update_def)
  have "set ts1 \<subseteq> set ?ts" "length ts1 \<le> length ?ts" using frame_spec_tasks [OF fr] by simp_all
  then have "\<forall>(t, task) \<in> set (tasks (scheduler ?srv1)). plain task" "length (tasks (scheduler ?srv1)) < fuel"
    using Cons.prems(1,2) by auto
  then have ih: "MainLoop fuel (fs @ Frame True now # rest) sig ?srv1 w1 =
    (case frames_spec (map frame_time fs) (tasks (scheduler ?srv1)) w1 of (ts, w', out) \<Rightarrow>
       Some (Inr (sig\<lparr>shutdownRequested := True\<rparr>,
         Stop (?srv1\<lparr>scheduler := (scheduler ?srv1)\<lparr>tasks := ts\<rparr>\<rparr>), w', out @ [log_Info ''Shutdown signal received''], True)))"
    using Cons.prems by (intro Cons.IH) auto
  obtain ts2 w2 o2 where fr2: "frames_spec (map frame_time fs) ts1 w1 = (ts2, w2, o2)" by (metis prod_cases3)
  from ih fr fr2 up Cons.prems show ?case by (simp add: ShouldShutdown_def)
qed

text \<open>
  C2. The main loop serves until it is told to stop: with tasks that do not schedule, it runs
  one frame per iteration, goes on after a frame that threw (logging one line for it), and
  returns at the first signal, having stopped the server; it does nothing after the signal.
\<close>

theorem main_loop_serves_until_signal:
  assumes "\<forall>(t, task) \<in> set (tasks (scheduler srv)). plain task" "length (tasks (scheduler srv)) < fuel"
    and "server_running srv" "\<not> shutdownRequested sig" "g_callback sig = Some shutdown_callback"
    and "\<forall>f \<in> set fs. \<not> signalled f"
    and "frames_spec (map frame_time fs) (tasks (scheduler srv)) w = (ts, w', out)"
  shows "MainLoop fuel (fs @ Frame True now # rest) sig srv w =
    Some (Inr (sig\<lparr>shutdownRequested := True\<rparr>,
      Stop (srv\<lparr>scheduler := (scheduler srv)\<lparr>tasks := ts\<rparr>\<rparr>), w', out @ [log_Info ''Shutdown signal received''], True))"
  using MainLoop_spec [OF assms(1-6), of now rest w] assms(7) by simp

definition loop_server :: "nat list Server" where
  "loop_server = \<lparr>config = default_Config, server_running = True, scriptRuntime = DummyScriptRuntime,
     sceneManager = \<lparr>currentScene = []\<rparr>, playerRegistry = empty_registry,
     scheduler = \<lparr>tasks = [(5, bump_task 1), (6, bomb), (7, bump_task 2)], capacity = 4\<rparr>,
     threadScheduler = new_ThreadScheduler (), metrics = zero_Metrics, server_permissions = empty_permissions, moduleLoader = empty_loader\<rparr>"

theorem main_loop_serves_until_signal_witness:
  "\<exists>sig' srv'. MainLoop 4 ([Frame False 5, Frame False 6, Frame False 7] @ Frame True 8 # [Frame False 9])
      \<lparr>shutdownRequested = False, g_callback = Some shutdown_callback\<rparr> loop_server [] =
     Some (Inr (sig', srv', [1], [log_Error ''Frame error: boom'', log_Error ''Frame error: boom'', log_Info ''Shutdown signal received''], True))
   \<and> \<not> server_running srv' \<and> map fst (tasks (scheduler srv')) = [6, 7]"
proof -
  let ?sig = "\<lparr>shutdownRequested = False, g_callback = Some shutdown_callback\<rparr> :: nat list Server Signals"
  let ?fs = "[Frame False 5, Frame False 6, Frame False 7]"
  have 1: "\<forall>(t, task) \<in> set (tasks (scheduler loop_server)). plain task" "length (tasks (scheduler loop_server)) < 4"
    "server_running loop_server" "\<not> shutdownRequested ?sig" "g_callback ?sig = Some shutdown_callback"
    "\<forall>f \<in> set ?fs. \<not> signalled f"
    by (simp_all add: loop_server_def bomb_def plain_def bump_task_def)
  have 2: "frames_spec (map frame_time ?fs) (tasks (scheduler loop_server)) [] =
      ([(6, bomb), (7, bump_task 2)], [1], [log_Error ''Frame error: boom'', log_Error ''Frame error: boom''])"
    by (simp add: loop_server_def bomb_def bump_task_def task_effect_def exn_text_def)
  from main_loop_serves_until_signal [OF 1 2, of 8 "[Frame False 9]"]
  show ?thesis by (simp add: Stop_def)
qed

subsection \<open>Access to the parts\<close>

definition GetSceneManager :: "'w Server \<Rightarrow> SceneManager" where
  "GetSceneManager srv = sceneManager srv"

definition GetPlayerRegistry :: "'w Server \<Rightarrow> PlayerRegistry" where
  "GetPlayerRegistry srv = playerRegistry srv"

definition GetScheduler :: "'w Server \<Rightarrow> 'w Scheduler" where
  "GetScheduler srv = scheduler srv"

definition GetMetrics :: "'w Server \<Rightarrow> Metrics" where
  "GetMetrics srv = metrics srv"

definition GetPermissions :: "'w Server \<Rightarrow> PermissionRegistry" where
  "GetPermissions srv = server_permissions srv"

definition GetModuleLoader :: "'w Server \<Rightarrow> 'w ModuleLoader" where
  "GetModuleLoader srv = moduleLoader srv"

subsection \<open>The test program\<close>

text \<open>
  \<^verbatim>\<open>tests/test_core.cpp\<close>: a server with the default configuration answers one chat message; the
  program prints the number of the actions and always ends with 0.
\<close>

definition test_event :: Event where
  "test_event = default_Event\<lparr>etype := CHAT,
     chat := Some \<lparr>chat_player = default_Player\<lparr>pid := ''uuid-test'', pname := ''TestPlayer''\<rparr>, chat_message = ''!test''\<rparr>\<rparr>"

definition test_core_main :: "'w ScriptRuntime result option \<Rightarrow> 'w \<Rightarrow> (int \<times> console list) result" where
  "test_core_main lua w = rbind (Server_new lua default_Config) (\<lambda>server.
     case HandleEvent test_event server w of
       (_, _, _, Inl e) \<Rightarrow> Inl e
     | (_, _, out, Inr actions) \<Rightarrow> Inr (0, out @ [Stdout (''[MCX_TEST] actions size: '' @ show_nat (length actions) @ nl)]))"

text \<open>The demo runtime knows no such message: the test prints 0 actions, with whatever Lua runtime it is built.\<close>

lemma test_core_prints_zero: "test_core_main lua w = Inr (0, [Stdout (''[MCX_TEST] actions size: 0'' @ nl)])"
proof -
  have "hardcoded_actions test_event = []" by (simp add: hardcoded_actions_def test_event_def)
  moreover have "track_player test_event srv = (srv, [])" for srv :: "'a Server"
    by (simp add: track_player_def test_event_def default_Event_def)
  moreover have "show_nat 0 = ''0''" by code_simp
  ultimately show ?thesis
    by (simp add: test_core_main_def Server_new_def default_Config_def HandleEvent_def HardcodedScriptRuntime_def
        DispatchEvent_def empty_loader_def)
qed

end
