(* ===== verification/MCX_Pool.thy ===== *)
theory MCX_Pool
  imports MCX_Prelude
begin

text \<open>
  The worker pool (\<^verbatim>\<open>core/async_worker.cpp\<close>): a queue of tasks and threads that each go round
  the loop of \<^verbatim>\<open>WorkerLoop\<close>. A thread tests the flag, then fetches a task under the lock, then
  runs it; \<^verbatim>\<open>Submit\<close> and \<^verbatim>\<open>Stop\<close> come from other threads at any point between. A task that
  has been fetched is run in one step.
\<close>

subsection \<open>State and operations\<close>

datatype TaskPriority = LOW | NORMAL | HIGH

text \<open>
  An empty \<^verbatim>\<open>std::function\<close> is \<open>None\<close>. The priority is stored and never looked at.
\<close>

record 'c AsyncTask =
  task_id :: string
  task_work :: "'c effect option"
  task_callback :: "'c effect option"
  priority :: TaskPriority

definition default_AsyncTask :: "'c AsyncTask" where
  "default_AsyncTask = \<lparr>task_id = [], task_work = None, task_callback = None, priority = NORMAL\<rparr>"

text \<open>Where a thread stands in its loop.\<close>

datatype 'c loop_point = At_test | At_fetch | In_task "'c AsyncTask" | Ended

text \<open>Ghost fields record the order in which tasks were submitted and taken.\<close>

record 'c AsyncWorker =
  queue :: "'c AsyncTask list"
  threads :: "'c loop_point list"
  pool_running :: bool
  activeThreads :: nat
  pool_client :: 'c
  pool_out :: "console list"
  submitted :: "'c AsyncTask list"
  taken :: "'c AsyncTask list"

definition Submit :: "'c AsyncTask \<Rightarrow> 'c AsyncWorker \<Rightarrow> 'c AsyncWorker" where
  "Submit t s = s\<lparr>queue := queue s @ [t], submitted := submitted s @ [t]\<rparr>"

definition SubmitSimple :: "'c effect \<Rightarrow> 'c AsyncWorker \<Rightarrow> 'c AsyncWorker" where
  "SubmitSimple w s = Submit \<lparr>task_id = [], task_work = Some w, task_callback = None, priority = NORMAL\<rparr> s"

definition GetPendingCount :: "'c AsyncWorker \<Rightarrow> nat" where
  "GetPendingCount s = length (queue s)"

definition GetActiveThreads :: "'c AsyncWorker \<Rightarrow> nat" where
  "GetActiveThreads s = activeThreads s"

definition GetNextTask :: "'c AsyncWorker \<Rightarrow> 'c AsyncTask \<times> 'c AsyncWorker" where
  "GetNextTask s = (case queue s of
     [] \<Rightarrow> (default_AsyncTask, s)
   | t # ts \<Rightarrow> (t, s\<lparr>queue := ts, taken := taken s @ [t]\<rparr>))"

text \<open>The body of the loop: work, then the callback unless the work threw; a throw is logged.\<close>

definition task_body :: "'c AsyncTask \<Rightarrow> 'c effect" where
  "task_body t = run_effects ((case task_work t of None \<Rightarrow> [] | Some w \<Rightarrow> [w])
     @ (case task_callback t of None \<Rightarrow> [] | Some k \<Rightarrow> [k]))"

text \<open>The three points of the loop. A fetch that gives no work sleeps and goes back to the test.\<close>

definition test_flag :: "nat \<Rightarrow> 'c AsyncWorker \<Rightarrow> 'c AsyncWorker" where
  "test_flag i s = s\<lparr>threads := (threads s)[i := (if pool_running s then At_fetch else Ended)]\<rparr>"

definition begin_task :: "nat \<Rightarrow> 'c AsyncWorker \<Rightarrow> 'c AsyncWorker" where
  "begin_task i s = (case GetNextTask s of (t, s') \<Rightarrow>
     if task_work t = None then s'\<lparr>threads := (threads s')[i := At_test]\<rparr>
     else s'\<lparr>threads := (threads s')[i := In_task t], activeThreads := activeThreads s' + 1\<rparr>)"

definition finish_task :: "nat \<Rightarrow> 'c AsyncTask \<Rightarrow> 'c AsyncWorker \<Rightarrow> 'c AsyncWorker" where
  "finish_task i t s = (case task_body t (pool_client s) of (c', ex) \<Rightarrow>
     s\<lparr>pool_client := c',
       pool_out := pool_out s @ (case ex of None \<Rightarrow> [] | Some e \<Rightarrow> [log_Error (''Async task failed: '' @ exn_text e)]),
       threads := (threads s)[i := At_test], activeThreads := activeThreads s - 1\<rparr>)"

text \<open>
  \<open>Stop\<close> clears the flag, then joins the threads, which it can do when all have ended, and
  forgets them.
\<close>

definition Stop_flag :: "'c AsyncWorker \<Rightarrow> 'c AsyncWorker" where
  "Stop_flag s = s\<lparr>pool_running := False\<rparr>"

definition Stop_joined :: "'c AsyncWorker \<Rightarrow> 'c AsyncWorker option" where
  "Stop_joined s = (if \<forall>p \<in> set (threads s). p = Ended then Some (s\<lparr>threads := []\<rparr>) else None)"

inductive thread_step :: "'c AsyncWorker \<Rightarrow> 'c AsyncWorker \<Rightarrow> bool" where
  test: "i < length (threads s) \<Longrightarrow> threads s ! i = At_test \<Longrightarrow> thread_step s (test_flag i s)"
| fetch: "i < length (threads s) \<Longrightarrow> threads s ! i = At_fetch \<Longrightarrow> thread_step s (begin_task i s)"
| finish: "i < length (threads s) \<Longrightarrow> threads s ! i = In_task t \<Longrightarrow> thread_step s (finish_task i t s)"

inductive pool_step :: "'c AsyncWorker \<Rightarrow> 'c AsyncWorker \<Rightarrow> bool" where
  submit: "pool_step s (Submit t s)"
| thread: "thread_step s s' \<Longrightarrow> pool_step s s'"
| stop: "pool_step s (Stop_flag s)"
| joined: "Stop_joined s = Some s' \<Longrightarrow> pool_step s s'"

inductive_cases pool_stepE: "pool_step s s'"

definition pool_start :: "'c AsyncWorker \<Rightarrow> bool" where
  "pool_start s \<longleftrightarrow> queue s = [] \<and> submitted s = [] \<and> taken s = [] \<and> activeThreads s = 0
     \<and> (\<forall>p \<in> set (threads s). p = At_test)"

subsection \<open>Counting threads\<close>

fun in_task :: "'c loop_point \<Rightarrow> bool" where
  "in_task (In_task t) = True"
| "in_task _ = False"

fun at_fetch :: "'c loop_point \<Rightarrow> bool" where
  "at_fetch At_fetch = True"
| "at_fetch _ = False"

text \<open>How many turns a thread has left at most once the flag is cleared.\<close>

fun turns_left :: "'c loop_point \<Rightarrow> nat" where
  "turns_left At_fetch = 3"
| "turns_left (In_task t) = 2"
| "turns_left At_test = 1"
| "turns_left Ended = 0"

definition total :: "('c loop_point \<Rightarrow> nat) \<Rightarrow> 'c AsyncWorker \<Rightarrow> nat" where
  "total f s = (\<Sum>p \<leftarrow> threads s. f p)"

lemma sum_update: "i < length ps \<Longrightarrow> (\<Sum>p \<leftarrow> ps[i := q]. f p) + f (ps ! i) = (\<Sum>p \<leftarrow> ps. f p) + (f q :: nat)"
proof (induction ps arbitrary: i)
  case (Cons p ps)
  show ?case
  proof (cases i)
    case (Suc j)
    with Cons.prems Cons.IH [of j] show ?thesis by simp
  qed simp
qed simp

lemma sum_of_bool: "(\<Sum>p \<leftarrow> ps. of_bool (P p)) = length (filter P ps)"
  by (induction ps) auto

lemma total_moved:
  "threads s' = (threads s)[i := q] \<Longrightarrow> i < length (threads s) \<Longrightarrow> total f s' + f (threads s ! i) = total f s + f q"
  by (simp add: total_def sum_update)

lemma GetNextTask_fields:
  "GetNextTask s = (t, s') \<Longrightarrow> threads s' = threads s \<and> activeThreads s' = activeThreads s \<and> submitted s' = submitted s
     \<and> pool_running s' = pool_running s \<and> taken s @ queue s = taken s' @ queue s' \<and> queue s' = drop (length (queue s) - length (queue s')) (queue s)
     \<and> length (queue s) \<le> Suc (length (queue s')) \<and> length (queue s') \<le> length (queue s)"
  by (auto simp: GetNextTask_def split: list.splits)

lemma finish_task_fields [simp]:
  "threads (finish_task i t s) = (threads s)[i := At_test]" "activeThreads (finish_task i t s) = activeThreads s - 1"
  "queue (finish_task i t s) = queue s" "taken (finish_task i t s) = taken s" "submitted (finish_task i t s) = submitted s"
  "pool_running (finish_task i t s) = pool_running s"
  by (simp_all add: finish_task_def split: prod.split)

subsection \<open>The invariant\<close>

definition pool_inv :: "'c AsyncWorker \<Rightarrow> bool" where
  "pool_inv s \<longleftrightarrow> submitted s = taken s @ queue s \<and> activeThreads s = total (\<lambda>p. of_bool (in_task p)) s"

lemma thread_step_inv: "thread_step s s' \<Longrightarrow> pool_inv s \<Longrightarrow> pool_inv s'"
proof (induction rule: thread_step.induct)
  case (test i s)
  then show ?case
    using total_moved [of "test_flag i s" s i _ "\<lambda>p. of_bool (in_task p)"] by (auto simp: pool_inv_def test_flag_def)
next
  case (fetch i s)
  obtain t s' where g: "GetNextTask s = (t, s')" by fastforce
  note f = GetNextTask_fields [OF g]
  show ?case
    using fetch f total_moved [of "begin_task i s" s i _ "\<lambda>p. of_bool (in_task p)"]
    by (auto simp: pool_inv_def begin_task_def g)
next
  case (finish i s t)
  then show ?case
    using total_moved [of "finish_task i t s" s i At_test "\<lambda>p. of_bool (in_task p)"] by (auto simp: pool_inv_def)
qed

lemma Stop_joined_inv: "Stop_joined s = Some s' \<Longrightarrow> pool_inv s \<Longrightarrow> pool_inv s'"
proof -
  assume j: "Stop_joined s = Some s'" and inv: "pool_inv s"
  have "(\<Sum>p \<leftarrow> ps. of_bool (in_task p)) = (0 :: nat)" if "\<forall>p \<in> set ps. p = Ended" for ps :: "'a loop_point list"
    using that by (induction ps) auto
  with j inv show ?thesis by (auto simp: Stop_joined_def pool_inv_def total_def split: if_splits)
qed

lemma Submit_inv: "pool_inv s \<Longrightarrow> pool_inv (Submit t s)"
  by (simp add: pool_inv_def Submit_def total_def)

lemma Stop_flag_inv: "pool_inv s \<Longrightarrow> pool_inv (Stop_flag s)"
  by (simp add: pool_inv_def Stop_flag_def total_def)

lemma pool_step_inv: "pool_step s s' \<Longrightarrow> pool_inv s \<Longrightarrow> pool_inv s'"
  by (erule pool_stepE) (auto intro: thread_step_inv Stop_joined_inv Submit_inv Stop_flag_inv)

lemma pool_start_inv: "pool_start s \<Longrightarrow> pool_inv s"
proof -
  assume s: "pool_start s"
  have "(\<Sum>p \<leftarrow> ps. of_bool (in_task p)) = (0 :: nat)" if "\<forall>p \<in> set ps. p = At_test" for ps :: "'a loop_point list"
    using that by (induction ps) auto
  with s show ?thesis by (auto simp: pool_start_def pool_inv_def total_def)
qed

interpretation pool: invariant_steps pool_start pool_step pool_inv
  by unfold_locales (auto intro: pool_start_inv pool_step_inv)

interpretation pool_queue: fifo Submit "\<lambda>s. case queue s of [] \<Rightarrow> None | _ \<Rightarrow> Some (GetNextTask s)" queue
  by unfold_locales (auto simp: Submit_def GetNextTask_def)

text \<open>
  C22. The pool in every reachable state, with any number of threads and any interleaving: tasks
  are taken in the order in which they were submitted, none twice and none skipped (what was
  submitted is what was taken followed by what is queued), and the counter of active threads is
  the number of threads that are executing a task, also after tasks that threw.
\<close>

theorem pool_takes_tasks_in_order:
  assumes "pool_start s0" "pool_step\<^sup>*\<^sup>* s0 s"
  shows "submitted s = taken s @ queue s \<and> GetActiveThreads s = length (filter in_task (threads s))"
  using pool.reachable_inv [OF assms] by (simp add: pool_inv_def GetActiveThreads_def total_def sum_of_bool)

definition pool_initial :: "nat list AsyncWorker" where
  "pool_initial = \<lparr>queue = [], threads = [At_test, At_test], pool_running = True, activeThreads = 0,
     pool_client = [], pool_out = [], submitted = [], taken = []\<rparr>"

theorem pool_takes_tasks_in_order_witness:
  "\<exists>s. pool_step\<^sup>*\<^sup>* pool_initial s \<and> GetActiveThreads s = 1 \<and> submitted s = taken s @ queue s"
proof -
  let ?s1 = "SubmitSimple (\<lambda>c. (c @ [1], None)) pool_initial"
  let ?s2 = "test_flag 0 ?s1"
  have start: "pool_start pool_initial" by (simp add: pool_start_def pool_initial_def)
  have 1: "pool_step pool_initial ?s1" by (simp add: SubmitSimple_def pool_step.submit)
  have 2: "pool_step ?s1 ?s2"
    by (rule pool_step.thread, rule thread_step.test) (simp_all add: SubmitSimple_def Submit_def pool_initial_def)
  have 3: "pool_step ?s2 (begin_task 0 ?s2)"
    by (rule pool_step.thread, rule thread_step.fetch) (simp_all add: test_flag_def SubmitSimple_def Submit_def pool_initial_def)
  have steps: "pool_step\<^sup>*\<^sup>* pool_initial (begin_task 0 ?s2)"
    by (rule three_steps [of pool_step, OF 1 2 3])
  have "GetActiveThreads (begin_task 0 ?s2) = 1"
    by (simp add: begin_task_def GetNextTask_def test_flag_def SubmitSimple_def Submit_def pool_initial_def GetActiveThreads_def)
  with steps pool_takes_tasks_in_order [OF start steps] show ?thesis by blast
qed

subsection \<open>Stopping the pool\<close>

lemma thread_step_stopped:
  assumes "thread_step s s'" "\<not> pool_running s"
  shows "\<not> pool_running s' \<and> length (threads s') = length (threads s) \<and> total turns_left s' < total turns_left s
    \<and> (\<exists>k. queue s' = drop k (queue s) \<and> k + total (\<lambda>p. of_bool (at_fetch p)) s' \<le> total (\<lambda>p. of_bool (at_fetch p)) s)"
  using assms
proof (induction rule: thread_step.induct)
  case (test i s)
  then show ?case
    using total_moved [of "test_flag i s" s i Ended turns_left] total_moved [of "test_flag i s" s i Ended "\<lambda>p. of_bool (at_fetch p)"]
    by (auto simp: test_flag_def intro: exI [of _ 0])
next
  case (fetch i s)
  obtain t s' where g: "GetNextTask s = (t, s')" by fastforce
  note f = GetNextTask_fields [OF g]
  have q: "queue (begin_task i s) = queue s'" and r: "\<not> pool_running (begin_task i s)"
    using f fetch by (simp_all add: begin_task_def g)
  obtain p where p: "threads (begin_task i s) = (threads s)[i := p]" "\<not> at_fetch p" "turns_left p \<le> 2"
    using f that by (cases "task_work t") (simp_all add: begin_task_def g)
  have "total turns_left (begin_task i s) + 3 = total turns_left s + turns_left p"
    "total (\<lambda>p. of_bool (at_fetch p)) (begin_task i s) + 1 = total (\<lambda>p. of_bool (at_fetch p)) s"
    using total_moved [OF p(1) fetch(1), of turns_left] total_moved [OF p(1) fetch(1), of "\<lambda>p. of_bool (at_fetch p)"] p(2) fetch(2)
    by simp_all
  with p f show ?case unfolding q
    by (intro conjI r exI [of _ "length (queue s) - length (queue s')"]) (simp_all, linarith+)
next
  case (finish i s t)
  then show ?case
    using total_moved [of "finish_task i t s" s i At_test turns_left]
      total_moved [of "finish_task i t s" s i At_test "\<lambda>p. of_bool (at_fetch p)"]
    by (auto intro: exI [of _ 0])
qed

lemma no_thread_step:
  assumes "\<forall>s'. \<not> thread_step s s'"
  shows "\<forall>p \<in> set (threads s). p = Ended"
proof
  fix p assume "p \<in> set (threads s)"
  then obtain i where "i < length (threads s)" "threads s ! i = p" by (auto simp: in_set_conv_nth)
  then show "p = Ended" using assms thread_step.intros [of i s] by (cases p) blast+
qed

lemma thread_steps_stopped:
  assumes "(thread_step ^^ n) s s'" "\<not> pool_running s"
  shows "\<not> pool_running s' \<and> length (threads s') = length (threads s) \<and> n + total turns_left s' \<le> total turns_left s
    \<and> (\<exists>k. queue s' = drop k (queue s) \<and> k + total (\<lambda>p. of_bool (at_fetch p)) s' \<le> total (\<lambda>p. of_bool (at_fetch p)) s)"
  using assms(1)
proof (induction n arbitrary: s')
  case 0
  then show ?case using assms(2) by (auto intro: exI [of _ 0])
next
  case (Suc n)
  then obtain u where u: "(thread_step ^^ n) s u" "thread_step u s'" by auto
  from Suc.IH [OF u(1)] obtain k where k: "queue u = drop k (queue s)"
    "k + total (\<lambda>p. of_bool (at_fetch p)) u \<le> total (\<lambda>p. of_bool (at_fetch p)) s" "\<not> pool_running u" by blast
  from thread_step_stopped [OF u(2) k(3)] obtain j where j: "queue s' = drop j (queue u)"
    "j + total (\<lambda>p. of_bool (at_fetch p)) s' \<le> total (\<lambda>p. of_bool (at_fetch p)) u" by blast
  have "queue s' = drop (j + k) (queue s)" using j k by (simp add: add.commute)
  with j k Suc.IH [OF u(1)] thread_step_stopped [OF u(2) k(3)] show ?case
    by (intro conjI exI [of _ "j + k"]) auto
qed

lemma turns_bound: "total turns_left s \<le> 3 * length (threads s)"
proof -
  have "(\<Sum>p \<leftarrow> ps. turns_left p) \<le> 3 * length ps" for ps :: "'a loop_point list"
  proof (induction ps)
    case (Cons p ps)
    then show ?case by (cases p) simp_all
  qed simp
  then show ?thesis by (simp add: total_def)
qed

text \<open>
  C21. \<open>Stop\<close> returns and abandons the queue: after the flag is cleared the threads have at most three
  turns each; when they have no turn left, joining succeeds. Of the tasks that are queued at that moment
  only the first ones are still taken, at most one by each thread that had passed the test of
  the flag, and the others stay in the queue and never run.
\<close>

theorem pool_stop_joins:
  assumes "(thread_step ^^ n) (Stop_flag s) s'"
  shows "n \<le> 3 * length (threads s)
    \<and> (\<exists>k \<le> length (filter at_fetch (threads s)). queue s' = drop k (queue s))
    \<and> ((\<exists>u. thread_step s' u) \<or> (\<exists>r. Stop_joined s' = Some r \<and> threads r = [] \<and> queue r = queue s'))"
proof -
  have f: "threads (Stop_flag s) = threads s" "queue (Stop_flag s) = queue s" "\<not> pool_running (Stop_flag s)"
    by (simp_all add: Stop_flag_def)
  have "n \<le> total turns_left (Stop_flag s)" using thread_steps_stopped [OF assms f(3)] by simp
  also have "\<dots> \<le> 3 * length (threads s)" using turns_bound [of "Stop_flag s"] by (simp add: f)
  finally have n: "n \<le> 3 * length (threads s)" .
  have "total (\<lambda>p. of_bool (at_fetch p)) (Stop_flag s) = length (filter at_fetch (threads s))"
    by (simp add: total_def sum_of_bool f)
  then have k: "\<exists>k \<le> length (filter at_fetch (threads s)). queue s' = drop k (queue s)"
    using thread_steps_stopped [OF assms f(3)] by (metis add_leD1 f(2))
  have "Stop_joined s' = Some (s'\<lparr>threads := []\<rparr>)" if "\<not> (\<exists>u. thread_step s' u)"
    using no_thread_step [of s'] that by (simp add: Stop_joined_def)
  with n k show ?thesis by fastforce
qed

text \<open>A queued task that no thread takes any more: both threads end and it stays.\<close>

theorem pool_stop_joins_witness:
  "\<exists>s r. (thread_step ^^ 2) (Stop_flag (SubmitSimple (\<lambda>c. (c @ [1], None)) pool_initial)) s \<and> Stop_joined s = Some r \<and> GetPendingCount r = 1"
proof -
  let ?s = "SubmitSimple (\<lambda>c. (c @ [1], None)) pool_initial"
  let ?u = "test_flag 0 (Stop_flag ?s)" and ?s' = "test_flag 1 (test_flag 0 (Stop_flag ?s))"
  note defs = test_flag_def Stop_flag_def SubmitSimple_def Submit_def pool_initial_def
  have "thread_step (Stop_flag ?s) ?u" "thread_step ?u ?s'"
    by (rule thread_step.test; simp add: defs)+
  then have steps: "(thread_step ^^ 2) (Stop_flag ?s) ?s'" by (auto simp: numeral_2_eq_2)
  have e: "threads ?s' = [Ended, Ended]" by (simp add: defs)
  then have "\<not> thread_step ?s' u" for u
    by (auto simp: less_Suc_eq elim!: thread_step.cases)
  with pool_stop_joins [OF steps] obtain r k where r: "Stop_joined ?s' = Some r" "queue r = queue ?s'"
    "k \<le> length (filter at_fetch (threads ?s))" "queue ?s' = drop k (queue ?s)" by blast
  have "k = 0" "length (queue ?s) = 1" using r(3) by (simp_all add: defs)
  with r steps show ?thesis unfolding GetPendingCount_def by (metis drop0)
qed

subsection \<open>Starting the pool\<close>

text \<open>
  \<^verbatim>\<open>Start\<close> counts up to the capacity of the thread vector, which it reads again on every
  iteration while it appends to the vector. The arguments are the loop counter, the size and
  the capacity; appending to a full vector doubles the capacity (any growth to at least the
  new size gives the same results). The result is the final size.
\<close>

fun start_loop :: "nat \<Rightarrow> nat \<Rightarrow> nat \<Rightarrow> nat \<Rightarrow> nat option" where
  "start_loop 0 i sz cap = None"
| "start_loop (Suc fuel) i sz cap =
     (if i < cap then start_loop fuel (Suc i) (Suc sz) (if sz < cap then cap else max 1 (2 * sz))
      else Some sz)"

lemma start_loop_fresh: "i \<le> cap \<Longrightarrow> cap - i < fuel \<Longrightarrow> start_loop fuel i i cap = Some cap"
proof (induction fuel arbitrary: i)
  case 0
  then show ?case by simp
next
  case (Suc fuel)
  show ?case
  proof (cases "i < cap")
    case True
    with Suc.prems have "start_loop fuel (Suc i) (Suc i) cap = Some cap" by (intro Suc.IH) auto
    with True show ?thesis by simp
  next
    case False
    with Suc.prems show ?thesis by simp
  qed
qed

lemma start_loop_stuck: "i < sz \<Longrightarrow> sz \<le> cap \<Longrightarrow> start_loop fuel i sz cap = None"
proof (induction fuel arbitrary: i sz cap)
  case 0
  then show ?case by simp
next
  case (Suc fuel)
  let ?cap = "if sz < cap then cap else max 1 (2 * sz)"
  have "start_loop fuel (Suc i) (Suc sz) ?cap = None"
    using Suc.prems by (intro Suc.IH) auto
  with Suc.prems show ?case by simp
qed

text \<open>
  Starting a fresh pool of \<open>n\<close> threads ends after \<open>n\<close> iterations with \<open>n\<close> threads.
  Starting a pool that already has threads never ends, whatever the fuel: every iteration adds
  a thread and with it capacity, so the counter never reaches it.
\<close>

theorem pool_start_terminates_once:
  "start_loop (Suc n) 0 0 n = Some n \<and> start_loop fuel 0 (Suc k) (Suc k + extra) = None"
  by (simp add: start_loop_fresh start_loop_stuck del: start_loop.simps)

end
