(* ===== verification/MCX_Net.thy ===== *)
theory MCX_Net
  imports MCX_Protocol
begin

text \<open>
  The sockets as the code uses them: an interface of system calls over the state \<open>'n\<close> of the
  network, which is a parameter of every networked component, and a loopback instance of it on
  which the theorems are evaluated.
\<close>

subsection \<open>The interface\<close>

text \<open>
  A negative descriptor or count is a failure; \<open>net_recv\<close> gives \<open>None\<close> on failure and an empty
  list when the peer has closed.
\<close>

record 'n Net =
  net_socket :: "'n \<Rightarrow> 'n \<times> int"
  net_resolve :: "string \<Rightarrow> 'n \<Rightarrow> 'n \<times> string option"
  net_connect :: "int \<Rightarrow> string \<Rightarrow> nat \<Rightarrow> 'n \<Rightarrow> 'n \<times> bool"
  net_bind :: "int \<Rightarrow> nat \<Rightarrow> 'n \<Rightarrow> 'n \<times> bool"
  net_listen :: "int \<Rightarrow> 'n \<Rightarrow> 'n \<times> bool"
  net_send :: "int \<Rightarrow> byte list \<Rightarrow> 'n \<Rightarrow> 'n \<times> int"
  net_recv :: "int \<Rightarrow> nat \<Rightarrow> 'n \<Rightarrow> 'n \<times> byte list option"
  net_close :: "int \<Rightarrow> 'n \<Rightarrow> 'n"

text \<open>The documented bound of \<^verbatim>\<open>recv\<close>: at most as many bytes as there is room for.\<close>

definition recv_bounded :: "'n Net \<Rightarrow> bool" where
  "recv_bounded net \<longleftrightarrow> (\<forall>fd n s. case snd (net_recv net fd n s) of None \<Rightarrow> True | Some bs \<Rightarrow> length bs \<le> n)"

text \<open>
  Filling a buffer of \<open>n\<close> zeroed bytes: what was not received stays zero, as in the code, which
  ignores the count.
\<close>

definition recv_into :: "'n Net \<Rightarrow> int \<Rightarrow> nat \<Rightarrow> 'n \<Rightarrow> 'n \<times> byte list" where
  "recv_into net fd n s = (case net_recv net fd n s of
     (s, None) \<Rightarrow> (s, replicate n 0)
   | (s, Some bs) \<Rightarrow> (s, bs @ replicate (n - length bs) 0))"

subsection \<open>A loopback\<close>

record Wire =
  inbox :: "byte list"
  outbox :: "byte list"
  closed_fds :: "int list"

definition loopback :: "Wire Net" where
  "loopback = \<lparr>
     net_socket = (\<lambda>s. (s, 3)), net_resolve = (\<lambda>h s. (s, Some h)), net_connect = (\<lambda>fd h p s. (s, True)),
     net_bind = (\<lambda>fd p s. (s, True)), net_listen = (\<lambda>fd s. (s, True)),
     net_send = (\<lambda>fd bs s. (s\<lparr>outbox := outbox s @ bs\<rparr>, int (length bs))),
     net_recv = (\<lambda>fd n s. (s\<lparr>inbox := drop n (inbox s)\<rparr>, Some (take n (inbox s)))),
     net_close = (\<lambda>fd s. s\<lparr>closed_fds := closed_fds s @ [fd]\<rparr>)\<rparr>"

definition wire :: "byte list \<Rightarrow> Wire" where
  "wire bs = \<lparr>inbox = bs, outbox = [], closed_fds = []\<rparr>"

lemma recv_bounded_loopback: "recv_bounded loopback"
  by (simp add: recv_bounded_def loopback_def)

lemma loopback_simps [simp]:
  "net_socket loopback s = (s, 3)" "net_resolve loopback h s = (s, Some h)"
  "net_connect loopback fd h p s = (s, True)"
  "net_send loopback fd bs s = (s\<lparr>outbox := outbox s @ bs\<rparr>, int (length bs))"
  "net_recv loopback fd n s = (s\<lparr>inbox := drop n (inbox s)\<rparr>, Some (take n (inbox s)))"
  "net_close loopback fd s = s\<lparr>closed_fds := closed_fds s @ [fd]\<rparr>"
  by (simp_all add: loopback_def)

lemma wire_simps [simp]: "inbox (wire bs) = bs" "outbox (wire bs) = []" "closed_fds (wire bs) = []"
  by (simp_all add: wire_def)

lemma recv_into_loopback [simp]:
  "n \<le> length (inbox s) \<Longrightarrow> recv_into loopback fd n s = (s\<lparr>inbox := drop n (inbox s)\<rparr>, take n (inbox s))"
  by (simp add: recv_into_def)

end
