(* ===== verification/MCX_WebSocket.thy ===== *)
theory MCX_WebSocket
  imports MCX_Net MCX_Strings
begin

text \<open>
  The WebSocket server (\<^verbatim>\<open>core/websocket_server.cpp\<close>): the frame encoder and decoder with
  the conversions of signed characters as the platform does them, the handshake, the registry
  of clients and the life of one connection.
\<close>

subsection \<open>Characters as the decoder reads them\<close>

text \<open>
  \<^verbatim>\<open>s[i]\<close> of a constant string is defined up to and including the terminator. A
  \<^verbatim>\<open>char\<close> is signed: in an integer expression its top bit is extended.
\<close>

definition str_at :: "string \<Rightarrow> nat \<Rightarrow> char result" where
  "str_at s i = (if i < length s then Inr (s ! i) else if i = length s then Inr (CHR 0x00) else Inl Undefined)"

definition int_of_schar :: "char \<Rightarrow> u32" where
  "int_of_schar c = scast (byte_of c)"

definition xor_char :: "char \<Rightarrow> char \<Rightarrow> char" where
  "xor_char a b = char_of_byte (byte_of a XOR byte_of b)"

text \<open>\<^verbatim>\<open>(frame[2] << 8) | frame[3]\<close> as an \<^verbatim>\<open>int\<close>, converted to \<^verbatim>\<open>uint64_t\<close>.\<close>

definition len16 :: "char \<Rightarrow> char \<Rightarrow> 64 word" where
  "len16 a b = scast (push_bit 8 (int_of_schar a) OR int_of_schar b)"

subsection \<open>Frames\<close>

definition byte_char :: "nat \<Rightarrow> char" where
  "byte_char n = char_of_byte (of_nat n)"

definition EncodeFrame :: "string \<Rightarrow> string" where
  "EncodeFrame message = byte_char 0x81 #
     (if length message < 126 then [byte_char (length message)]
      else if length message < 65536 then [byte_char 126, byte_char (length message div 2 ^ 8), byte_char (length message)]
      else byte_char 127 # map (\<lambda>i. byte_char (length message div 2 ^ (i * 8))) [7, 6, 5, 4, 3, 2, 1, 0])
     @ message"

fun unmask :: "string \<Rightarrow> nat \<Rightarrow> string \<Rightarrow> nat \<Rightarrow> nat \<Rightarrow> string result" where
  "unmask frame offset key i 0 = Inr []"
| "unmask frame offset key i (Suc n) = rbind (str_at frame (offset + i)) (\<lambda>c.
     rmap (\<lambda>r. xor_char c (key ! (i mod 4)) # r) (unmask frame offset key (Suc i) n))"

definition read_key :: "string \<Rightarrow> nat \<Rightarrow> string result" where
  "read_key frame offset = rbind (str_at frame offset) (\<lambda>a. rbind (str_at frame (offset + 1)) (\<lambda>b.
     rbind (str_at frame (offset + 2)) (\<lambda>c. rbind (str_at frame (offset + 3)) (\<lambda>d. Inr [a, b, c, d]))))"

definition DecodeFrame :: "string \<Rightarrow> string result" where
  "DecodeFrame frame =
     (if length frame < 2 then Inr []
      else let opcode = byte_of (frame ! 0) AND 0x0F in
        if opcode \<noteq> 1 \<and> opcode \<noteq> 2 then Inr []
        else let mask = byte_of (frame ! 1) AND 0x80; short = unat (byte_of (frame ! 1) AND 0x7F) in
          rbind (if short = 126 then rbind (str_at frame 2) (\<lambda>a. rbind (str_at frame 3) (\<lambda>b. Inr (unat (len16 a b), 4)))
                 else if short = 127 then Inr (127, 10) else Inr (short, 2))
            (\<lambda>(payloadLen, offset).
               if mask \<noteq> 0 then rbind (read_key frame offset) (\<lambda>key. unmask frame (offset + 4) key 0 payloadLen)
               else substr frame offset payloadLen))"

text \<open>The frame a browser sends (RFC 6455): the same header with the mask bit, the key, the masked text.\<close>

definition mask_text :: "string \<Rightarrow> string \<Rightarrow> string" where
  "mask_text key message = map (\<lambda>i. xor_char (message ! i) (key ! (i mod 4))) [0..<length message]"

definition client_frame :: "string \<Rightarrow> string \<Rightarrow> string" where
  "client_frame key message = byte_char 0x81 #
     (if length message < 126 then [byte_char (128 + length message)]
      else if length message < 65536 then [byte_char 254, byte_char (length message div 2 ^ 8), byte_char (length message)]
      else byte_char 255 # map (\<lambda>i. byte_char (length message div 2 ^ (i * 8))) [7, 6, 5, 4, 3, 2, 1, 0])
     @ key @ mask_text key message"

subsection \<open>Lemmas on characters\<close>

lemma byte_of_byte_char [simp]: "byte_of (byte_char n) = of_nat n"
  by (simp add: byte_char_def)

lemma xor_char_twice [simp]: "xor_char (xor_char a b) b = a"
  by (simp add: xor_char_def xor.assoc)

lemma byte_sign: "bit (b :: byte) 7 \<longleftrightarrow> 128 \<le> unat b"
proof -
  have n: "unat b < 256" using unsigned_less [of b, where ?'a = nat] by simp
  have "bit b 7 \<longleftrightarrow> bit (unat b) 7" by (simp add: bit_simps)
  also have "\<dots> \<longleftrightarrow> odd (unat b div 128)" by (simp add: bit_iff_odd)
  also have "\<dots> \<longleftrightarrow> 128 \<le> unat b"
  proof (cases "128 \<le> unat b")
    case True
    with n have "unat b div 128 = 1" by (simp add: div_nat_eqI)
    with True show ?thesis by simp
  next
    case False
    then show ?thesis by simp
  qed
  finally show ?thesis .
qed

lemma scast_of_nat_byte: "n < 128 \<Longrightarrow> (scast (word_of_nat n :: byte) :: u32) = word_of_nat n"
  by (simp add: signed_of_nat signed_take_bit_int_eq_self)

lemma scast_of_nat_u32: "n < 2 ^ 31 \<Longrightarrow> (scast (word_of_nat n :: u32) :: 64 word) = word_of_nat n"
  by (simp add: signed_of_nat signed_take_bit_int_eq_self)

lemma or_shifted:
  assumes "b < 256"
  shows "push_bit 8 a OR b = 256 * a + (b :: nat)"
proof -
  have b: "take_bit 8 b = b" using assms by (simp add: take_bit_nat_eq_self)
  have "push_bit 8 a AND take_bit 8 b = 0"
    by (rule bit_eqI) (simp add: bit_simps)
  then have "push_bit 8 a OR take_bit 8 b = push_bit 8 a + take_bit 8 b"
    by (rule disjunctive_add_eq_or [symmetric])
  then show ?thesis by (simp add: b push_bit_eq_mult)
qed

lemma high_bit_large: "bit (w :: 64 word) 63 \<Longrightarrow> 2 ^ 63 \<le> unat w"
proof -
  assume "bit w 63"
  then have "bit (unat w) 63" by (simp add: bit_simps)
  then have "odd (unat w div 2 ^ 63)" by (simp add: bit_iff_odd)
  then have "unat w div 2 ^ 63 > 0" by (auto intro: gr0I)
  then show ?thesis by (simp add: div_greater_zero_iff)
qed

text \<open>Two bytes below 128 give the length they encode; any other pair gives a huge number.\<close>

lemma len16_small:
  assumes "x < 128" "y < 128"
  shows "unat (len16 (byte_char x) (byte_char y)) = 256 * x + y"
proof -
  have "push_bit 8 (word_of_nat x :: u32) OR word_of_nat y = word_of_nat (push_bit 8 x OR y)"
    by (simp add: of_nat_or_eq of_nat_push_bit)
  also have "\<dots> = word_of_nat (256 * x + y)"
    using assms by (subst or_shifted) simp_all
  finally have "push_bit 8 (word_of_nat x :: u32) OR word_of_nat y = word_of_nat (256 * x + y)" .
  then have "len16 (byte_char x) (byte_char y) = word_of_nat (256 * x + y)"
    using assms scast_of_nat_u32 [of "256 * x + y"]
    by (simp add: len16_def int_of_schar_def scast_of_nat_byte del: of_nat_add of_nat_mult)
  then show ?thesis using assms by (simp add: unat_of_nat del: of_nat_add of_nat_mult)
qed

lemma len16_large:
  assumes "bit (byte_of a) 7 \<or> bit (byte_of b) 7"
  shows "2 ^ 63 \<le> unat (len16 a b)"
proof (rule high_bit_large)
  show "bit (len16 a b) 63"
    using assms by (auto simp: len16_def int_of_schar_def bit_simps min_def)
qed

lemma byte_char_sign: "n < 256 \<Longrightarrow> bit (byte_of (byte_char n)) 7 \<longleftrightarrow> 128 \<le> n"
  unfolding byte_sign by (simp add: unat_of_nat)

text \<open>The length byte with and without the mask bit.\<close>

lemma length_bytes_all:
  "list_all (\<lambda>n. (of_nat n :: byte) AND 0x80 = 0 \<and> unat ((of_nat n :: byte) AND 0x7F) = n
     \<and> (of_nat (128 + n) :: byte) AND 0x80 \<noteq> 0 \<and> unat ((of_nat (128 + n) :: byte) AND 0x7F) = n) [0..<128]"
  by code_simp

lemma length_byte:
  assumes "n < 128"
  shows "(word_of_nat n :: byte) AND 0x80 = 0" "unat ((word_of_nat n :: byte) AND 0x7F) = n"
    "(word_of_nat (128 + n) :: byte) AND 0x80 \<noteq> 0" "unat ((word_of_nat (128 + n) :: byte) AND 0x7F) = n"
proof -
  have "n \<in> set [0..<128]" using assms by simp
  with length_bytes_all have "(of_nat n :: byte) AND 0x80 = 0 \<and> unat ((of_nat n :: byte) AND 0x7F) = n
     \<and> (of_nat (128 + n) :: byte) AND 0x80 \<noteq> 0 \<and> unat ((of_nat (128 + n) :: byte) AND 0x7F) = n"
    unfolding list_all_iff by blast
  then show "(word_of_nat n :: byte) AND 0x80 = 0" "unat ((word_of_nat n :: byte) AND 0x7F) = n"
    "(word_of_nat (128 + n) :: byte) AND 0x80 \<noteq> 0" "unat ((word_of_nat (128 + n) :: byte) AND 0x7F) = n"
    by simp_all
qed

lemma opcode_text: "(word_of_nat 129 :: byte) AND 0x0F = 1"
  by simp

lemma byte_char_mod: "byte_char (n mod 256) = byte_char n"
proof -
  have "(word_of_nat (n mod 256) :: byte) = word_of_nat n" by (simp add: word_unat_eq_iff unat_of_nat)
  then show ?thesis by (simp add: byte_char_def)
qed

definition wide_ok :: "nat \<Rightarrow> bool" where
  "wide_ok n \<longleftrightarrow> n div 256 < 128 \<and> n mod 256 < 128"

lemma len16_length:
  assumes "n < 65536"
  shows "if wide_ok n then unat (len16 (byte_char (n div 2 ^ 8)) (byte_char n)) = n
    else 2 ^ 63 \<le> unat (len16 (byte_char (n div 2 ^ 8)) (byte_char n))"
proof -
  have x: "n div 256 < 256" "n mod 256 < 256" using assms by auto
  show ?thesis
  proof (cases "wide_ok n")
    case True
    then have "unat (len16 (byte_char (n div 256)) (byte_char (n mod 256))) = 256 * (n div 256) + n mod 256"
      unfolding wide_ok_def by (intro len16_small) simp_all
    with True show ?thesis by (simp add: byte_char_mod)
  next
    case False
    then have "bit (byte_of (byte_char (n div 256))) 7 \<or> bit (byte_of (byte_char (n mod 256))) 7"
      using x unfolding wide_ok_def by (auto simp only: byte_char_sign not_less)
    from len16_large [OF this] False show ?thesis by (simp add: byte_char_mod)
  qed
qed

lemma unmask_all:
  "offset + i + n \<le> length frame \<Longrightarrow>
   unmask frame offset key i n = Inr (map (\<lambda>j. xor_char (frame ! (offset + j)) (key ! (j mod 4))) [i..<i + n])"
proof (induction n arbitrary: i)
  case 0
  then show ?case by simp
next
  case (Suc n)
  then show ?case
    by (simp add: str_at_def upt_conv_Cons Suc.IH [of "Suc i"] del: upt_Suc)
qed

lemma unmask_undefined:
  "length frame + 1 < offset + i + n \<Longrightarrow> offset + i \<le> length frame + 1 \<Longrightarrow> unmask frame offset key i n = Inl Undefined"
proof (induction n arbitrary: i)
  case 0
  then show ?case by simp
next
  case (Suc n)
  show ?case
  proof (cases "offset + i \<le> length frame")
    case True
    with Suc.prems have "unmask frame offset key (Suc i) n = Inl Undefined" by (intro Suc.IH) auto
    with True show ?thesis by (simp add: str_at_def)
  next
    case False
    then show ?thesis by (simp add: str_at_def)
  qed
qed

text \<open>The decoder on a text frame, by the form of its length.\<close>

lemma Decode_short:
  assumes "n < 126"
  shows "DecodeFrame (byte_char 129 # byte_char n # rest) = substr (byte_char 129 # byte_char n # rest) 2 n"
    and "DecodeFrame (byte_char 129 # byte_char (128 + n) # rest) =
      rbind (read_key (byte_char 129 # byte_char (128 + n) # rest) 2)
        (\<lambda>key. unmask (byte_char 129 # byte_char (128 + n) # rest) 6 key 0 n)"
  using assms length_byte [of n] opcode_text by (simp_all add: DecodeFrame_def Let_def del: of_nat_add)

lemma Decode_wide:
  "DecodeFrame (byte_char 129 # byte_char 126 # a # b # rest) =
     substr (byte_char 129 # byte_char 126 # a # b # rest) 4 (unat (len16 a b))"
  "DecodeFrame (byte_char 129 # byte_char 254 # a # b # rest) =
      rbind (read_key (byte_char 129 # byte_char 254 # a # b # rest) 4)
        (\<lambda>key. unmask (byte_char 129 # byte_char 254 # a # b # rest) 8 key 0 (unat (len16 a b)))"
  using length_byte [of 126] opcode_text by (simp_all add: DecodeFrame_def Let_def str_at_def)

lemma Decode_huge:
  "DecodeFrame (byte_char 129 # byte_char 127 # rest) = substr (byte_char 129 # byte_char 127 # rest) 10 127"
  "DecodeFrame (byte_char 129 # byte_char 255 # rest) =
      rbind (read_key (byte_char 129 # byte_char 255 # rest) 10)
        (\<lambda>key. unmask (byte_char 129 # byte_char 255 # rest) 14 key 0 127)"
  using length_byte [of 127] opcode_text by (simp_all add: DecodeFrame_def Let_def str_at_def)

subsection \<open>Properties of the frames\<close>

lemma Encode_cases:
  "length m < 126 \<Longrightarrow> EncodeFrame m = byte_char 129 # byte_char (length m) # m"
  "\<not> length m < 126 \<Longrightarrow> length m < 65536 \<Longrightarrow>
     EncodeFrame m = byte_char 129 # byte_char 126 # byte_char (length m div 2 ^ 8) # byte_char (length m) # m"
  "\<not> length m < 65536 \<Longrightarrow> EncodeFrame m = byte_char 129 # byte_char 127 #
     map (\<lambda>i. byte_char (length m div 2 ^ (i * 8))) [7, 6, 5, 4, 3, 2, 1, 0] @ m"
  by (simp_all add: EncodeFrame_def)

lemma wide_payload:
  "n < 65536 \<Longrightarrow> n \<le> unat (len16 (byte_char (n div 2 ^ 8)) (byte_char n))"
  using len16_length [of n] by (auto split: if_splits)

text \<open>
  C13. The server decodes its own frames: a frame that holds one message of less than 65536
  characters decodes to the message (also where the sign extension of the length bytes makes
  the length read huge, because \<^verbatim>\<open>substr\<close> cuts it); of a longer message the decoder returns
  the first 127 characters.
\<close>

theorem websocket_frame_roundtrip:
  "DecodeFrame (EncodeFrame m) = Inr (if length m < 65536 then m else take 127 m)"
proof -
  consider "length m < 126" | "\<not> length m < 126" "length m < 65536" | "\<not> length m < 65536" by blast
  then show ?thesis
  proof cases
    case 1
    then show ?thesis by (simp add: Encode_cases Decode_short substr_def)
  next
    case 2
    then show ?thesis
      using wide_payload [of "length m"]
      by (simp add: Encode_cases(2) Decode_wide substr_def)
  next
    case 3
    then show ?thesis by (simp add: Encode_cases(3) Decode_huge substr_def)
  qed
qed

text \<open>
  A text longer than 1020 characters does not survive the connection: the reader takes at
  most 1024 bytes at a time and decodes each piece as a frame of its own, so the first piece of
  a frame of 65535 characters or less comes out as the first 1020 characters of its text.
\<close>

theorem websocket_long_frame_is_cut:
  assumes "1020 < length m" "length m < 65536"
  shows "DecodeFrame (take 1024 (EncodeFrame m)) = Inr (take 1020 m)"
  using assms wide_payload [of "length m"]
  by (simp add: Encode_cases(2) take_Cons' Decode_wide substr_def min_def)

theorem websocket_long_frame_is_cut_witness:
  "DecodeFrame (take 1024 (EncodeFrame (replicate 2000 CHR ''a''))) = Inr (replicate 1020 CHR ''a'')"
  using websocket_long_frame_is_cut [of "replicate 2000 CHR ''a''"] by simp

lemma length_mask_text [simp]: "length (mask_text key m) = length m"
  by (simp add: mask_text_def)

lemma mask_text_nth: "i < length m \<Longrightarrow> mask_text key m ! i = xor_char (m ! i) (key ! (i mod 4))"
  by (simp add: mask_text_def)

lemma read_key_mid:
  assumes "length key = 4" "length pre = n"
  shows "read_key (pre @ key @ rest) n = Inr key"
proof -
  obtain a b c d where "key = [a, b, c, d]"
    using assms(1) by (auto simp: numeral_eq_Suc length_Suc_conv)
  with assms(2) show ?thesis by (simp add: read_key_def str_at_def nth_append)
qed

lemma unmask_mid:
  assumes "length pre = n" "k \<le> length m"
  shows "unmask (pre @ mask_text key m) n key 0 k = Inr (take k m)"
proof -
  have "unmask (pre @ mask_text key m) n key 0 k =
      Inr (map (\<lambda>j. xor_char ((pre @ mask_text key m) ! (n + j)) (key ! (j mod 4))) [0..<0 + k])"
    using assms by (intro unmask_all) simp
  also have "map (\<lambda>j. xor_char ((pre @ mask_text key m) ! (n + j)) (key ! (j mod 4))) [0..<0 + k] = take k m"
    using assms by (intro nth_equalityI) (auto simp: nth_append mask_text_nth)
  finally show ?thesis .
qed

lemma client_cases:
  "length m < 126 \<Longrightarrow> client_frame key m = [byte_char 129, byte_char (128 + length m)] @ key @ mask_text key m"
  "\<not> length m < 126 \<Longrightarrow> length m < 65536 \<Longrightarrow> client_frame key m =
     [byte_char 129, byte_char 254, byte_char (length m div 2 ^ 8), byte_char (length m)] @ key @ mask_text key m"
  "\<not> length m < 65536 \<Longrightarrow> client_frame key m = ([byte_char 129, byte_char 255] @
     map (\<lambda>i. byte_char (length m div 2 ^ (i * 8))) [7, 6, 5, 4, 3, 2, 1, 0]) @ key @ mask_text key m"
  by (simp_all add: client_frame_def)

text \<open>
  C9. The frames of browsers (masked, RFC 6455), each arriving whole: up to 125 characters the
  decoder unmasks them exactly; from 126 on it depends on the two length bytes: if both are
  below 128 it still does, otherwise it reads past the end of the frame, which is undefined
  (so a message of 128 to 255 characters is enough); from 65536 on it returns 127 characters.
\<close>

theorem websocket_decodes_client_frames:
  assumes "length key = 4"
  shows "DecodeFrame (client_frame key m) =
    (if length m < 126 \<or> (length m < 65536 \<and> wide_ok (length m)) then Inr m
     else if length m < 65536 then Inl Undefined
     else Inr (take 127 m))"
proof -
  consider "length m < 126" | "\<not> length m < 126" "length m < 65536" | "\<not> length m < 65536" by blast
  then show ?thesis
  proof cases
    case 1
    then show ?thesis
      using read_key_mid [OF assms, of "[byte_char 129, byte_char (128 + length m)]" 2 "mask_text key m"]
        unmask_mid [of "[byte_char 129, byte_char (128 + length m)] @ key" 6 "length m" m key] assms
      by (simp add: client_cases(1) Decode_short(2))
  next
    case 2
    let ?pre = "[byte_char 129, byte_char 254, byte_char (length m div 2 ^ 8), byte_char (length m)]"
    let ?n = "unat (len16 (byte_char (length m div 2 ^ 8)) (byte_char (length m)))"
    have key: "read_key (?pre @ key @ mask_text key m) 4 = Inr key"
      using read_key_mid [OF assms, of ?pre 4 "mask_text key m"] by simp
    have dec: "DecodeFrame (client_frame key m) = unmask ((?pre @ key) @ mask_text key m) 8 key 0 ?n"
      using key by (simp add: client_cases(2) [OF 2] Decode_wide(2))
    show ?thesis
    proof (cases "wide_ok (length m)")
      case True
      then have "?n = length m" using len16_length [OF 2(2)] by simp
      with dec 2 True show ?thesis
        using unmask_mid [of "?pre @ key" 8 "length m" m key] assms by simp
    next
      case False
      then have "2 ^ 63 \<le> ?n" using len16_length [OF 2(2)] by simp
      then have "length ((?pre @ key) @ mask_text key m) + 1 < 8 + 0 + ?n"
        using 2(2) assms by simp
      then have "unmask ((?pre @ key) @ mask_text key m) 8 key 0 ?n = Inl Undefined"
        using assms by (intro unmask_undefined) simp_all
      with dec 2 False show ?thesis by simp
    qed
  next
    case 3
    let ?pre = "[byte_char 129, byte_char 255] @ map (\<lambda>i. byte_char (length m div 2 ^ (i * 8))) [7, 6, 5, 4, 3, 2, 1, 0]"
    have "read_key (?pre @ key @ mask_text key m) 10 = Inr key"
      by (rule read_key_mid [OF assms]) simp
    then have "DecodeFrame (client_frame key m) = unmask ((?pre @ key) @ mask_text key m) 14 key 0 127"
      by (simp add: client_cases(3) [OF 3] Decode_huge(2))
    also have "\<dots> = Inr (take 127 m)"
      using 3 assms by (intro unmask_mid) simp_all
    finally show ?thesis using 3 by simp
  qed
qed

theorem websocket_decodes_client_frames_witness:
  "DecodeFrame (client_frame ''k3y!'' ''hello'') = Inr ''hello''
   \<and> DecodeFrame (client_frame ''k3y!'' (replicate 200 CHR ''a'')) = Inl Undefined"
  using websocket_decodes_client_frames [of "''k3y!''" "''hello''"]
    websocket_decodes_client_frames [of "''k3y!''" "replicate 200 CHR ''a''"]
  by (simp add: wide_ok_def)

subsection \<open>The server\<close>

record 'c WebSocketServer =
  ws_port :: nat
  ws_running :: bool
  ws_serverFd :: int
  clients :: "u32 fset"
  nextClientId :: u32
  onMessage :: "(u32 \<Rightarrow> string \<Rightarrow> 'c effect) option"
  onConnect :: "(u32 \<Rightarrow> 'c effect) option"
  onDisconnect :: "(u32 \<Rightarrow> 'c effect) option"

definition fresh_WebSocketServer :: "nat \<Rightarrow> 'c WebSocketServer" where
  "fresh_WebSocketServer p = \<lparr>ws_port = p, ws_running = False, ws_serverFd = - 1, clients = {||}, nextClientId = 1,
     onMessage = None, onConnect = None, onDisconnect = None\<rparr>"

definition Start_ws :: "'n Net \<Rightarrow> 'c WebSocketServer \<Rightarrow> 'n \<Rightarrow> 'c WebSocketServer \<times> 'n \<times> console list" where
  "Start_ws net srv s = (case net_socket net s of (s, fd) \<Rightarrow>
     let srv = srv\<lparr>ws_serverFd := fd\<rparr> in
     if fd < 0 then (srv, s, [log_Error ''Failed to create WebSocket server socket''])
     else (case net_bind net fd (ws_port srv) s of
       (s, False) \<Rightarrow> (srv, net_close net fd s, [log_Error ''Failed to bind WebSocket server''])
     | (s, True) \<Rightarrow> (case net_listen net fd s of
         (s, False) \<Rightarrow> (srv, net_close net fd s, [log_Error ''Failed to listen on WebSocket server''])
       | (s, True) \<Rightarrow> (srv\<lparr>ws_running := True\<rparr>, s,
           [log_Info (''WebSocket server started on port '' @ show_nat (ws_port srv))]))))"

definition Stop_ws :: "'n Net \<Rightarrow> 'c WebSocketServer \<Rightarrow> 'n \<Rightarrow> 'c WebSocketServer \<times> 'n" where
  "Stop_ws net srv s = (srv\<lparr>ws_running := False, clients := {||}\<rparr>,
     if ws_serverFd srv \<ge> 0 then net_close net (ws_serverFd srv) s else s)"

definition OnMessage_ws :: "(u32 \<Rightarrow> string \<Rightarrow> 'c effect) \<Rightarrow> 'c WebSocketServer \<Rightarrow> 'c WebSocketServer" where
  "OnMessage_ws h srv = srv\<lparr>onMessage := Some h\<rparr>"

definition OnConnect_ws :: "(u32 \<Rightarrow> 'c effect) \<Rightarrow> 'c WebSocketServer \<Rightarrow> 'c WebSocketServer" where
  "OnConnect_ws h srv = srv\<lparr>onConnect := Some h\<rparr>"

definition OnDisconnect_ws :: "(u32 \<Rightarrow> 'c effect) \<Rightarrow> 'c WebSocketServer \<Rightarrow> 'c WebSocketServer" where
  "OnDisconnect_ws h srv = srv\<lparr>onDisconnect := Some h\<rparr>"

definition Send_ws :: "u32 \<Rightarrow> string \<Rightarrow> console list" where
  "Send_ws clientId message = [log_Info (''WebSocket send to client '' @ show_nat (unat clientId))]"

text \<open>The order of the clients in a broadcast is that of the hash set, an argument.\<close>

definition Broadcast_ws :: "u32 list \<Rightarrow> string \<Rightarrow> console list" where
  "Broadcast_ws ids message = concat (map (\<lambda>i. Send_ws i message) ids)"

definition GetClientCount :: "'c WebSocketServer \<Rightarrow> nat" where
  "GetClientCount srv = fcard (clients srv)"

definition handshake_response :: string where
  "handshake_response = ''HTTP/1.1 101 Switching Protocols'' @ crlf @ ''Upgrade: websocket'' @ crlf
     @ ''Connection: Upgrade'' @ crlf @ ''Sec-WebSocket-Accept: s3pPLMBiTxaQ9kYGzzhZRbK+xOo='' @ crlf @ crlf"

text \<open>
  A connection is the sequence of the results of \<^verbatim>\<open>recv\<close>, each at most 1024 bytes; an empty
  one, or the end of the sequence, is a closed connection (or a stopped server). The handshake
  takes the first; its result is what is sent, \<open>None\<close> if it is refused.
\<close>

definition PerformHandshake :: "string list \<Rightarrow> string option \<times> string list" where
  "PerformHandshake recvs = (case recvs of
     [] \<Rightarrow> (None, [])
   | request # rest \<Rightarrow>
       if request = [] then (None, rest)
       else if str_find request ''Sec-WebSocket-Key: '' 0 = None then (None, rest)
       else (Some handshake_response, rest))"

fun client_loop :: "string list \<Rightarrow> u32 \<Rightarrow> 'c WebSocketServer \<Rightarrow> 'c \<Rightarrow> 'c \<times> unit result" where
  "client_loop [] clientId srv c = (c, Inr ())"
| "client_loop (frame # rest) clientId srv c =
     (if frame = [] then (c, Inr ())
      else (case DecodeFrame frame of
        Inl e \<Rightarrow> (c, Inl e)
      | Inr message \<Rightarrow> (case onMessage srv of
          None \<Rightarrow> client_loop rest clientId srv c
        | Some h \<Rightarrow> (case h clientId message c of
            (c, Some e) \<Rightarrow> (c, Inl (Exception e))
          | (c, None) \<Rightarrow> client_loop rest clientId srv c))))"

definition HandleClient_ws :: "string list \<Rightarrow> u32 \<Rightarrow> 'c WebSocketServer \<Rightarrow> 'c \<Rightarrow> 'c WebSocketServer \<times> 'c \<times> unit result" where
  "HandleClient_ws recvs clientId srv c = (case client_loop recvs clientId srv c of
     (c, Inl e) \<Rightarrow> (srv, c, Inl e)
   | (c, Inr _) \<Rightarrow>
       let srv = srv\<lparr>clients := clients srv |-| {|clientId|}\<rparr> in
       (case onDisconnect srv of
          None \<Rightarrow> (srv, c, Inr ())
        | Some h \<Rightarrow> (case h clientId c of
            (c, Some e) \<Rightarrow> (srv, c, Inl (Exception e))
          | (c, None) \<Rightarrow> (srv, c, Inr ()))))"

text \<open>One iteration of \<^verbatim>\<open>AcceptLoop\<close> that accepted a connection; a fault ends the process.\<close>

definition accept_client :: "string list \<Rightarrow> 'c WebSocketServer \<Rightarrow> 'c \<Rightarrow> 'c WebSocketServer \<times> 'c \<times> string \<times> unit result" where
  "accept_client recvs srv c =
     (let clientId = nextClientId srv; srv = srv\<lparr>nextClientId := nextClientId srv + 1\<rparr> in
      case PerformHandshake recvs of
        (None, _) \<Rightarrow> (srv, c, [], Inr ())
      | (Some sent, rest) \<Rightarrow>
          let srv = srv\<lparr>clients := finsert clientId (clients srv)\<rparr> in
          (case (case onConnect srv of None \<Rightarrow> (c, None) | Some h \<Rightarrow> h clientId c) of
             (c, Some e) \<Rightarrow> (srv, c, sent, Inl (Exception e))
           | (c, None) \<Rightarrow> (case HandleClient_ws rest clientId srv c of (srv, c, r) \<Rightarrow> (srv, c, sent, r))))"

fun AcceptLoop_ws :: "string list list \<Rightarrow> 'c WebSocketServer \<Rightarrow> 'c \<Rightarrow> 'c WebSocketServer \<times> 'c \<times> unit result" where
  "AcceptLoop_ws [] srv c = (srv, c, Inr ())"
| "AcceptLoop_ws (conn # conns) srv c = (case accept_client conn srv c of
     (srv, c, sent, Inl e) \<Rightarrow> (srv, c, Inl e)
   | (srv, c, sent, Inr _) \<Rightarrow> AcceptLoop_ws conns srv c)"

text \<open>What one connection does to the client state: its handlers, in order.\<close>

definition optional :: "('a \<Rightarrow> 'b) option \<Rightarrow> 'a \<Rightarrow> 'b list" where
  "optional h x = (case h of None \<Rightarrow> [] | Some f \<Rightarrow> [f x])"

definition session_effects :: "'c WebSocketServer \<Rightarrow> u32 \<Rightarrow> string list \<Rightarrow> 'c effect list" where
  "session_effects srv i msgs = optional (onConnect srv) i
     @ concat (map (\<lambda>m. case onMessage srv of None \<Rightarrow> [] | Some h \<Rightarrow> [h i m]) msgs) @ optional (onDisconnect srv) i"

lemma client_loop_effects:
  assumes "list_all2 (\<lambda>frame m. frame \<noteq> [] \<and> DecodeFrame frame = Inr m) frames msgs"
  shows "client_loop frames i srv c =
    (case run_effects (concat (map (\<lambda>m. case onMessage srv of None \<Rightarrow> [] | Some h \<Rightarrow> [h i m]) msgs)) c of
       (c', None) \<Rightarrow> (c', Inr ()) | (c', Some e) \<Rightarrow> (c', Inl (Exception e)))"
  using assms
proof (induction frames msgs arbitrary: c rule: list_all2_induct)
  case Nil
  then show ?case by simp
next
  case (Cons frame frames m msgs)
  then show ?case by (auto split: option.split prod.split)
qed

lemma run_effects_None_append:
  "run_effects (fs @ gs) c = (c2, None) \<longleftrightarrow> (\<exists>c1. run_effects fs c = (c1, None) \<and> run_effects gs c1 = (c2, None))"
  by (auto simp: run_effects_append split: prod.splits option.splits)

text \<open>
  One connection, from accept to close, when its request carries a key, its frames decode
  and no handler throws: the connect handler, the message handler for each frame in order and
  the disconnect handler run with one fresh id, the same fixed answer is sent to every client,
  and afterwards the id is not registered.
\<close>

theorem websocket_session:
  assumes "request \<noteq> []" "str_contains request ''Sec-WebSocket-Key: ''"
    and "list_all2 (\<lambda>frame m. frame \<noteq> [] \<and> DecodeFrame frame = Inr m) frames msgs"
    and "run_effects (session_effects srv (nextClientId srv) msgs) c = (c', None)"
  shows "accept_client (request # frames) srv c =
    (srv\<lparr>nextClientId := nextClientId srv + 1, clients := clients srv |-| {|nextClientId srv|}\<rparr>, c', handshake_response, Inr ())"
proof -
  let ?i = "nextClientId srv"
  let ?ms = "concat (map (\<lambda>m. case onMessage srv of None \<Rightarrow> [] | Some h \<Rightarrow> [h ?i m]) msgs)"
  let ?srv = "srv\<lparr>nextClientId := ?i + 1, clients := finsert ?i (clients srv)\<rparr>"
  from assms(4) obtain c1 c2 where c1: "run_effects (optional (onConnect srv) ?i) c = (c1, None)"
    and c2: "run_effects ?ms c1 = (c2, None)" and c3: "run_effects (optional (onDisconnect srv) ?i) c2 = (c', None)"
    unfolding session_effects_def run_effects_None_append by blast
  have hs: "PerformHandshake (request # frames) = (Some handshake_response, frames)"
    using assms(1,2) by (simp add: PerformHandshake_def str_contains_def)
  have conn: "(case onConnect srv of None \<Rightarrow> (c, None) | Some h \<Rightarrow> h ?i c) = (c1, None)"
    using c1 by (auto simp: optional_def split: option.splits prod.splits)
  have loop: "client_loop frames ?i ?srv c1 = (c2, Inr ())"
    using client_loop_effects [OF assms(3), of ?i ?srv c1] c2 by simp
  have "clients ?srv |-| {|?i|} = clients srv |-| {|?i|}" by auto
  with loop c3 have "HandleClient_ws frames ?i ?srv c1 =
      (srv\<lparr>nextClientId := ?i + 1, clients := clients srv |-| {|?i|}\<rparr>, c', Inr ())"
    by (auto simp: HandleClient_ws_def Let_def optional_def split: option.splits prod.splits)
  then show ?thesis using conn by (simp add: accept_client_def Let_def hs)
qed

definition recording_server :: "(nat \<times> string) list WebSocketServer" where
  "recording_server = (fresh_WebSocketServer 8080)\<lparr>
     onConnect := Some (\<lambda>i c. (c @ [(unat i, ''connect'')], None)),
     onMessage := Some (\<lambda>i m c. (c @ [(unat i, m)], None)),
     onDisconnect := Some (\<lambda>i c. (c @ [(unat i, ''bye'')], None))\<rparr>"

theorem websocket_session_witness:
  "accept_client [''GET / Sec-WebSocket-Key: x'', EncodeFrame ''hi''] recording_server [] =
   (recording_server\<lparr>nextClientId := 2, clients := {||}\<rparr>, [(1, ''connect''), (1, ''hi''), (1, ''bye'')], handshake_response, Inr ())"
proof -
  let ?r = "''GET / Sec-WebSocket-Key: x''"
  have 1: "?r \<noteq> []" "str_contains ?r ''Sec-WebSocket-Key: ''" by (simp, code_simp)
  have 2: "list_all2 (\<lambda>frame m. frame \<noteq> [] \<and> DecodeFrame frame = Inr m) [EncodeFrame ''hi''] [''hi'']"
    by (simp add: Encode_cases(1) Decode_short substr_def)
  have 3: "run_effects (session_effects recording_server (nextClientId recording_server) [''hi'']) [] =
      ([(1, ''connect''), (1, ''hi''), (1, ''bye'')], None)"
    by (simp add: session_effects_def recording_server_def fresh_WebSocketServer_def optional_def)
  from websocket_session [OF 1 2 3] show ?thesis
    by (simp add: recording_server_def fresh_WebSocketServer_def)
qed

text \<open>
  A client can end the server: a whole frame of two bytes that announces a 64-bit length
  makes the decoder throw, and the exception leaves the thread that accepts connections.
\<close>

theorem websocket_short_frame_throws:
  assumes "length rest < 8"
  shows "client_loop [byte_char 129 # byte_char 127 # rest] i srv c = (c, Inl (Exception Out_of_range))"
  using assms by (simp add: Decode_huge substr_def)

theorem websocket_short_frame_throws_witness:
  "client_loop [byte_char 129 # byte_char 127 # []] 1 recording_server [] = ([], Inl (Exception Out_of_range))"
  by (rule websocket_short_frame_throws) simp

end
