(* ===== verification/MCX_Rcon.thy ===== *)
theory MCX_Rcon
  imports MCX_Net MCX_Strings
begin

text \<open>
  The RCON client and server (\<^verbatim>\<open>core/rcon.cpp\<close>), on the POSIX branch, over the socket
  interface.
\<close>

subsection \<open>Packets\<close>

text \<open>The three fields are \<^verbatim>\<open>int32_t\<close>.\<close>

record RconPacket =
  rlength :: int
  requestId :: int
  rtype :: int
  payload :: string

definition default_RconPacket :: RconPacket where
  "default_RconPacket = \<lparr>rlength = 0, requestId = 0, rtype = 0, payload = []\<rparr>"

record RconClient =
  socketFd :: int
  connected :: bool
  nextRequestId :: int

definition fresh_RconClient :: RconClient where
  "fresh_RconClient = \<lparr>socketFd = - 1, connected = False, nextRequestId = 1\<rparr>"

text \<open>\<^verbatim>\<open>static_cast<int32_t>\<close> of a size, and a 32-bit addition, whose overflow is undefined.\<close>

definition int32_of_size :: "nat \<Rightarrow> int" where
  "int32_of_size n = sint (of_nat n :: u32)"

definition chk32 :: "int \<Rightarrow> int result" where
  "chk32 n = (if in_int n then Inr n else Inl Undefined)"

subsection \<open>Connecting\<close>

definition Connect :: "'n Net \<Rightarrow> string \<Rightarrow> nat \<Rightarrow> RconClient \<Rightarrow> 'n \<Rightarrow> bool \<times> RconClient \<times> 'n" where
  "Connect net host port c s = (case net_socket net s of (s, fd) \<Rightarrow>
     let c = c\<lparr>socketFd := fd\<rparr> in
     if fd < 0 then (False, c, s)
     else (case net_connect net fd host port s of
       (s, False) \<Rightarrow> (False, c\<lparr>socketFd := - 1\<rparr>, net_close net fd s)
     | (s, True) \<Rightarrow> (True, c\<lparr>connected := True\<rparr>, s)))"

definition Disconnect :: "'n Net \<Rightarrow> RconClient \<Rightarrow> 'n \<Rightarrow> RconClient \<times> 'n" where
  "Disconnect net c s =
     (if socketFd c \<ge> 0 then (c\<lparr>socketFd := - 1, connected := False\<rparr>, net_close net (socketFd c) s)
      else (c\<lparr>connected := False\<rparr>, s))"

definition IsConnected :: "RconClient \<Rightarrow> bool" where
  "IsConnected c = connected c"

subsection \<open>Sending and receiving\<close>

definition append_int32 :: "int \<Rightarrow> byte list" where
  "append_int32 val = le_bytes 4 (word_of_int val :: u32)"

definition packet_bytes :: "RconPacket \<Rightarrow> byte list" where
  "packet_bytes p = append_int32 (rlength p) @ append_int32 (requestId p) @ append_int32 (rtype p)
     @ map byte_of (payload p) @ [0, 0]"

definition SendPacket :: "'n Net \<Rightarrow> RconPacket \<Rightarrow> RconClient \<Rightarrow> 'n \<Rightarrow> bool \<times> 'n" where
  "SendPacket net p c s = (let data = packet_bytes p in
     case net_send net (socketFd c) data s of (s, n) \<Rightarrow> (n = int (length data), s))"

definition read_int32 :: "byte list \<Rightarrow> nat \<Rightarrow> int" where
  "read_int32 header i = sint (le_word (take 4 (drop i header)) :: u32)"

text \<open>
  The count of the second \<^verbatim>\<open>recv\<close> is ignored. \<^verbatim>\<open>assign\<close> with a length of \<open>- 1\<close> throws
  (the length converts to the largest \<^verbatim>\<open>size_t\<close>).
\<close>

definition ReceivePacket :: "'n Net \<Rightarrow> RconClient \<Rightarrow> 'n \<Rightarrow> 'n \<times> RconPacket result" where
  "ReceivePacket net c s = (case net_recv net (socketFd c) 12 s of
     (s, None) \<Rightarrow> (s, Inr default_RconPacket)
   | (s, Some header) \<Rightarrow>
       if length header \<noteq> 12 then (s, Inr default_RconPacket)
       else
         let p = \<lparr>rlength = read_int32 header 0, requestId = read_int32 header 4, rtype = read_int32 header 8, payload = []\<rparr> in
         (case chk32 (rlength p - 8) of
            Inl e \<Rightarrow> (s, Inl e)
          | Inr payloadLen \<Rightarrow>
              if payloadLen > 0 then
                (case recv_into net (socketFd c) (nat payloadLen) s of (s, bytes) \<Rightarrow>
                   if payloadLen < 2 then (s, Inl (Exception Length_error))
                   else (s, Inr (p\<lparr>payload := map char_of_byte (take (nat (payloadLen - 2)) bytes)\<rparr>)))
              else (s, Inr p)))"

text \<open>The common part of \<^verbatim>\<open>Authenticate\<close> and \<^verbatim>\<open>SendCommand\<close>: build, number and send.\<close>

definition new_packet :: "int \<Rightarrow> string \<Rightarrow> RconClient \<Rightarrow> (RconPacket \<times> RconClient) result" where
  "new_packet ty text c = rbind (chk32 (nextRequestId c + 1)) (\<lambda>next.
     rbind (chk32 (10 + int32_of_size (length text))) (\<lambda>len.
       Inr (\<lparr>rlength = len, requestId = nextRequestId c, rtype = ty, payload = text\<rparr>, c\<lparr>nextRequestId := next\<rparr>)))"

definition Authenticate :: "'n Net \<Rightarrow> string \<Rightarrow> RconClient \<Rightarrow> 'n \<Rightarrow> RconClient \<times> 'n \<times> bool result" where
  "Authenticate net password c s = (case new_packet 3 password c of
     Inl e \<Rightarrow> (c, s, Inl e)
   | Inr (p, c) \<Rightarrow> (case SendPacket net p c s of
       (False, s) \<Rightarrow> (c, s, Inr False)
     | (True, s) \<Rightarrow> (case ReceivePacket net c s of
         (s, r) \<Rightarrow> (c, s, rmap (\<lambda>response. requestId response \<noteq> - 1) r))))"

definition SendCommand :: "'n Net \<Rightarrow> string \<Rightarrow> RconClient \<Rightarrow> 'n \<Rightarrow> RconClient \<times> 'n \<times> string result" where
  "SendCommand net text c s = (case new_packet 2 text c of
     Inl e \<Rightarrow> (c, s, Inl e)
   | Inr (p, c) \<Rightarrow> (case SendPacket net p c s of
       (False, s) \<Rightarrow> (c, s, Inr [])
     | (True, s) \<Rightarrow> (case ReceivePacket net c s of (s, r) \<Rightarrow> (c, s, rmap payload r))))"

subsection \<open>The server\<close>

record 'c RconServer =
  port :: nat
  password :: string
  listening :: bool
  serverFd :: int
  commandHandler :: "(string \<Rightarrow> 'c effect) option"

definition fresh_RconServer :: "nat \<Rightarrow> 'c RconServer" where
  "fresh_RconServer p = \<lparr>port = p, password = [], listening = False, serverFd = - 1, commandHandler = None\<rparr>"

definition SetPassword :: "string \<Rightarrow> 'c RconServer \<Rightarrow> 'c RconServer" where
  "SetPassword pw srv = srv\<lparr>password := pw\<rparr>"

definition OnCommand :: "(string \<Rightarrow> 'c effect) \<Rightarrow> 'c RconServer \<Rightarrow> 'c RconServer" where
  "OnCommand h srv = srv\<lparr>commandHandler := Some h\<rparr>"

definition Start_rcon :: "'n Net \<Rightarrow> 'c RconServer \<Rightarrow> 'n \<Rightarrow> 'c RconServer \<times> 'n \<times> console list" where
  "Start_rcon net srv s = (case net_socket net s of (s, fd) \<Rightarrow>
     let srv = srv\<lparr>serverFd := fd\<rparr> in
     if fd < 0 then (srv, s, [])
     else (case net_bind net fd (port srv) s of
       (s, False) \<Rightarrow> (srv, net_close net fd s, [])
     | (s, True) \<Rightarrow> (case net_listen net fd s of (s, _) \<Rightarrow>
         (srv\<lparr>listening := True\<rparr>, s, [log_Info (''RCON server started on port '' @ show_nat (port srv))]))))"

definition Stop_rcon :: "'n Net \<Rightarrow> 'c RconServer \<Rightarrow> 'n \<Rightarrow> 'c RconServer \<times> 'n" where
  "Stop_rcon net srv s = (srv\<lparr>listening := False\<rparr>, if serverFd srv \<ge> 0 then net_close net (serverFd srv) s else s)"

definition HandleClient_rcon :: "'n Net \<Rightarrow> int \<Rightarrow> 'c RconServer \<Rightarrow> 'n \<Rightarrow> 'c \<Rightarrow> 'n \<times> 'c \<times> console list \<times> exn option" where
  "HandleClient_rcon net clientFd srv s c = (case net_recv net clientFd 1024 s of
     (s, bytes) \<Rightarrow>
       (case (bytes, commandHandler srv) of
          (Some (b # bs), Some h) \<Rightarrow> (case h ''help'' c of (c, ex) \<Rightarrow> (s, c, [log_Info ''RCON client connected''], ex))
        | _ \<Rightarrow> (s, c, [log_Info ''RCON client connected''], None)))"

text \<open>The accept loop over the descriptors that \<^verbatim>\<open>accept\<close> gave; a throw ends the process.\<close>

fun AcceptLoop_rcon :: "'n Net \<Rightarrow> int list \<Rightarrow> 'c RconServer \<Rightarrow> 'n \<Rightarrow> 'c \<Rightarrow> 'n \<times> 'c \<times> console list \<times> exn option" where
  "AcceptLoop_rcon net [] srv s c = (s, c, [], None)"
| "AcceptLoop_rcon net (fd # fds) srv s c =
     (if fd \<ge> 0 then
        (case HandleClient_rcon net fd srv s c of
           (s, c, out, Some e) \<Rightarrow> (s, c, out, Some e)
         | (s, c, out, None) \<Rightarrow> (case AcceptLoop_rcon net fds srv (net_close net fd s) c of
             (s, c, out2, ex) \<Rightarrow> (s, c, out @ out2, ex)))
      else AcceptLoop_rcon net fds srv s c)"

subsection \<open>Lemmas\<close>

lemma length_append_int32 [simp]: "length (append_int32 n) = 4"
  by (simp add: append_int32_def)

lemma sint_small_int: "in_int n \<Longrightarrow> sint (word_of_int n :: u32) = n"
  by (simp add: signed_of_int signed_take_bit_int_eq_self int_range_defs)

lemma read_append_int32:
  "in_int n \<Longrightarrow> sint (le_word (append_int32 n) :: u32) = n"
  by (simp add: append_int32_def sint_small_int)

lemma int32_of_size_small:
  assumes "int n \<le> INT_MAX"
  shows "int32_of_size n = int n"
proof -
  have "sint (word_of_int (int n) :: u32) = int n"
    using assms by (intro sint_small_int) (simp add: int_range_defs)
  then show ?thesis by (simp add: int32_of_size_def)
qed

lemma packet_header:
  "in_int (rlength p) \<Longrightarrow> in_int (requestId p) \<Longrightarrow> in_int (rtype p) \<Longrightarrow>
   read_int32 (take 12 (packet_bytes p @ rest)) 0 = rlength p
   \<and> read_int32 (take 12 (packet_bytes p @ rest)) 4 = requestId p
   \<and> read_int32 (take 12 (packet_bytes p @ rest)) 8 = rtype p"
  by (simp add: read_int32_def packet_bytes_def read_append_int32 drop_take)

text \<open>What a client reads from a wire that holds a packet whose length field is right.\<close>

lemma ReceivePacket_packet:
  assumes "rlength p = 10 + int (length (payload p))" "rlength p \<le> INT_MAX" "in_int (requestId p)" "in_int (rtype p)"
    and "inbox s = packet_bytes p @ rest"
  shows "ReceivePacket loopback c s = (s\<lparr>inbox := rest\<rparr>, Inr p)"
proof -
  let ?n = "length (payload p)"
  have len: "in_int (rlength p)" "in_int (rlength p - 8)"
    using assms(1,2) by (auto simp: int_range_defs)
  obtain h where h: "take 12 (inbox s) = h" "length h = 12" "read_int32 h 0 = rlength p"
      "read_int32 h 4 = requestId p" "read_int32 h 8 = rtype p"
    unfolding assms(5) using packet_header [OF len(1) assms(3,4), of rest]
    by (simp add: packet_bytes_def)
  have tail: "drop 12 (inbox s) = map byte_of (payload p) @ [0, 0] @ rest"
    unfolding assms(5) by (simp add: packet_bytes_def)
  have fill: "recv_into loopback (socketFd c) (nat (rlength p - 8)) (s\<lparr>inbox := drop 12 (inbox s)\<rparr>) =
      (s\<lparr>inbox := rest\<rparr>, map byte_of (payload p) @ [0, 0])"
    using assms(1) by (simp add: tail nat_add_distrib)
  have "rlength p - 8 > 0" "\<not> rlength p - 8 < 2" "nat (rlength p - 8 - 2) = ?n"
    using assms(1) by linarith+
  with len(2) fill h(2-5) show ?thesis
    by (simp add: ReceivePacket_def h(1) Let_def chk32_def del: recv_into_loopback)
qed

subsection \<open>Properties\<close>

text \<open>
  C12. RCON framing: a packet whose length field is the one the client computes is written as
  \<open>14 + n\<close> bytes of which the field counts all but itself, and reading those bytes back gives
  the packet and leaves what follows on the wire.
\<close>

theorem rcon_packet_roundtrip:
  assumes "rlength p = 10 + int (length (payload p))" "rlength p \<le> INT_MAX" "in_int (requestId p)" "in_int (rtype p)"
  shows "int (length (packet_bytes p)) = 4 + rlength p
    \<and> snd (SendPacket loopback p c (wire [])) = (wire [])\<lparr>outbox := packet_bytes p\<rparr>
    \<and> ReceivePacket loopback c (wire (packet_bytes p @ rest)) = (wire rest, Inr p)"
proof -
  have "ReceivePacket loopback c (wire (packet_bytes p @ rest)) = ((wire (packet_bytes p @ rest))\<lparr>inbox := rest\<rparr>, Inr p)"
    by (rule ReceivePacket_packet [OF assms]) simp
  with assms(1) show ?thesis
    by (simp add: SendPacket_def Let_def wire_def packet_bytes_def)
qed

definition list_packet :: RconPacket where
  "list_packet = \<lparr>rlength = 14, requestId = 7, rtype = 2, payload = ''list''\<rparr>"

theorem rcon_packet_roundtrip_witness:
  "ReceivePacket loopback fresh_RconClient (wire (packet_bytes list_packet @ [1, 2])) = (wire [1, 2], Inr list_packet)"
proof -
  have h: "rlength list_packet = 10 + int (length (payload list_packet))" "rlength list_packet \<le> INT_MAX"
    "in_int (requestId list_packet)" "in_int (rtype list_packet)"
    by (simp_all add: list_packet_def int_range_defs)
  show ?thesis using rcon_packet_roundtrip [OF h, of fresh_RconClient "[1, 2]"] by simp
qed

text \<open>
  C31. Authentication fails open: when the request was sent and the answer is missing, shorter
  than a header or an error of the socket, \<^verbatim>\<open>Authenticate\<close> reports success.
\<close>

theorem rcon_authenticate_fails_open:
  assumes "nextRequestId c + 1 \<le> INT_MAX" "INT_MIN \<le> nextRequestId c" "int (length pw) + 10 \<le> INT_MAX"
    and "\<forall>fd bs s. snd (net_send net fd bs s) = int (length bs)"
    and "\<forall>fd s bs. snd (net_recv net fd 12 s) = Some bs \<longrightarrow> length bs < 12"
  shows "\<exists>c' s'. Authenticate net pw c s = (c', s', Inr True)"
proof -
  have len: "int32_of_size (length pw) = int (length pw)"
    using assms(3) by (intro int32_of_size_small) simp
  obtain p c1 where np: "new_packet 3 pw c = Inr (p, c1)"
    using assms(1-3) by (simp add: new_packet_def chk32_def in_int_def len INT_MIN_def)
  obtain s1 n where "net_send net (socketFd c1) (packet_bytes p) s = (s1, n)" by fastforce
  with assms(4) have snt: "SendPacket net p c1 s = (True, s1)"
    by (metis (mono_tags, lifting) SendPacket_def case_prod_conv snd_conv)
  obtain s2 r where rc: "net_recv net (socketFd c1) 12 s1 = (s2, r)" by fastforce
  have "ReceivePacket net c1 s1 = (s2, Inr default_RconPacket)"
  proof (cases r)
    case None
    with rc show ?thesis by (simp add: ReceivePacket_def)
  next
    case (Some bs)
    with rc assms(5) have "length bs < 12" by (metis snd_conv)
    with rc Some show ?thesis by (simp add: ReceivePacket_def)
  qed
  with np snt show ?thesis by (simp add: Authenticate_def default_RconPacket_def)
qed

theorem rcon_authenticate_fails_open_witness:
  "\<exists>c' s'. Authenticate (loopback\<lparr>net_recv := (\<lambda>fd n s. (s, Some []))\<rparr>) ''wrong'' fresh_RconClient (wire []) = (c', s', Inr True)"
  by (rule rcon_authenticate_fails_open)
    (simp_all add: fresh_RconClient_def int_range_defs loopback_def)

text \<open>
  C33. What a hostile length field does to the client, for a header that arrives whole: a length
  of 9 throws; one below \<open>INT_MIN + 8\<close> is an overflow; any other is answered with a packet,
  without payload if it is at most 8, with one of \<open>length - 10\<close> bytes otherwise, zero-filled
  where the peer sent less.
\<close>

theorem rcon_receive_by_length:
  assumes "recv_bounded net" "net_recv net (socketFd c) 12 s = (s1, Some header)" "length header = 12"
  shows "case snd (ReceivePacket net c s) of
      Inl Undefined \<Rightarrow> read_int32 header 0 < INT_MIN + 8
    | Inl (Exception e) \<Rightarrow> e = Length_error \<and> read_int32 header 0 = 9
    | Inr p \<Rightarrow> INT_MIN + 8 \<le> read_int32 header 0 \<and> read_int32 header 0 \<noteq> 9
        \<and> rlength p = read_int32 header 0 \<and> requestId p = read_int32 header 4
        \<and> int (length (payload p)) = max 0 (rlength p - 10)"
proof -
  let ?len = "read_int32 header 0"
  have range: "INT_MIN \<le> ?len" "?len \<le> INT_MAX"
    using sint_range_size [of "le_word (take 4 (drop 0 header)) :: u32"]
    by (auto simp: read_int32_def int_range_defs word_size)
  have fill: "length (snd (recv_into net fd n s')) = n" for fd n s'
  proof -
    obtain s2 r where r: "net_recv net fd n s' = (s2, r)" by fastforce
    with assms(1) have "case r of None \<Rightarrow> True | Some bs \<Rightarrow> length bs \<le> n"
      unfolding recv_bounded_def by (metis snd_conv)
    with r show ?thesis by (cases r) (auto simp: recv_into_def)
  qed
  show ?thesis
  proof (cases "in_int (?len - 8)")
    case False
    with range have "?len < INT_MIN + 8" by (simp add: in_int_def)
    with False assms(2,3) show ?thesis by (simp add: ReceivePacket_def Let_def chk32_def)
  next
    case True
    obtain s2 bytes where ri: "recv_into net (socketFd c) (nat (?len - 8)) s1 = (s2, bytes)" by fastforce
    with fill [of "socketFd c" "nat (?len - 8)" s1] have "length bytes = nat (?len - 8)" by simp
    with True ri assms(2,3) show ?thesis
      by (auto simp: ReceivePacket_def Let_def chk32_def in_int_def)
  qed
qed

theorem rcon_receive_by_length_witness:
  "snd (ReceivePacket loopback fresh_RconClient (wire (append_int32 9 @ append_int32 1 @ append_int32 0))) = Inl (Exception Length_error)"
proof -
  let ?h = "append_int32 9 @ append_int32 1 @ append_int32 0"
  have r: "net_recv loopback (socketFd fresh_RconClient) 12 (wire ?h) = ((wire ?h)\<lparr>inbox := []\<rparr>, Some ?h)" by simp
  have "read_int32 ?h 0 = 9" by (simp add: read_int32_def read_append_int32 int_range_defs)
  with rcon_receive_by_length [OF recv_bounded_loopback r]
  show ?thesis by (auto simp: INT_MIN_def split: sum.splits fault.splits)
qed

text \<open>
  The server authenticates nobody: any first bytes of any client run the command handler,
  always with the command \<^verbatim>\<open>help\<close>; neither the password nor the bytes matter.
\<close>

theorem rcon_server_ignores_password:
  assumes "net_recv net fd 1024 s = (s1, Some (b # bs))" "commandHandler srv = Some h"
  shows "HandleClient_rcon net fd (SetPassword pw srv) s c =
    (s1, fst (h ''help'' c), [log_Info ''RCON client connected''], snd (h ''help'' c))"
  using assms by (simp add: HandleClient_rcon_def SetPassword_def split: prod.split)

theorem rcon_server_ignores_password_witness:
  "HandleClient_rcon loopback 5 (SetPassword ''secret'' (OnCommand (\<lambda>t c. (c @ [t], None)) (fresh_RconServer 25575))) (wire [0]) [] =
   (wire [], [''help''], [log_Info ''RCON client connected''], None)"
proof -
  have "net_recv loopback 5 1024 (wire [0]) = (wire [], Some (0 # []))" by (simp add: wire_def)
  moreover have "commandHandler (OnCommand (\<lambda>t c. (c @ [t], None)) (fresh_RconServer 25575)) = Some (\<lambda>t c. (c @ [t], None))"
    by (simp add: OnCommand_def)
  ultimately show ?thesis
    using rcon_server_ignores_password [of loopback 5 "wire [0]" "wire []" 0 "[]"
        "OnCommand (\<lambda>t c. (c @ [t], None)) (fresh_RconServer 25575)" "\<lambda>t c. (c @ [t], None)" "''secret''" "[]"]
    by simp
qed

end
