(* ===== verification/MCX_Acceptors.thy ===== *)
theory MCX_Acceptors
  imports MCX_WebSocket MCX_Rcon MCX_Stopping
begin

text \<open>
  The accept threads of the WebSocket server and of the RCON server (\<^verbatim>\<open>core/websocket_server.cpp\<close>,
  \<^verbatim>\<open>core/rcon.cpp\<close>) beside \<open>Stop\<close>, as step relations: what the thread does by itself, what it waits for
  from its peers, what \<open>Stop\<close> does. A handler call is one step. The handlers are registered before \<open>Start\<close>.
\<close>

subsection \<open>The WebSocket thread\<close>

text \<open>
  Where the thread stands: before the test of the flag; in \<^verbatim>\<open>select\<close>; in the \<^verbatim>\<open>recv\<close> of the handshake;
  before the connect handler; before the test of the flag and in the \<^verbatim>\<open>recv\<close> of \<open>HandleClient\<close>; before and after
  the client leaves the registry; ended; the process ended (an exception or undefined behaviour).
\<close>

datatype ws_phase = A_test | A_select | A_handshake u32 | A_connect u32 | C_test u32 | C_recv u32 | C_leave u32
  | C_left u32 | A_ended | A_terminated

text \<open>The points at which the thread calls a handler if it is set.\<close>

datatype ws_call = Call_connect u32 | Call_message u32 string | Call_disconnect u32

text \<open>
  Four ghost fields: how many connections were accepted and how many frames received, what was received, and
  the calls that were made.
\<close>

record 'c WsThread =
  wserver :: "'c WebSocketServer"
  wsphase :: ws_phase
  wsstopping :: stopping
  wsstate :: 'c
  connections :: nat
  frames :: nat
  heard :: "string list"
  calls_made :: "ws_call list"

text \<open>A handler that was set is called; what it throws leaves the thread.\<close>

definition run_handler :: "ws_call \<Rightarrow> 'c effect option \<Rightarrow> ws_phase \<Rightarrow> 'c WsThread \<Rightarrow> 'c WsThread" where
  "run_handler k h next s = (let s = s\<lparr>calls_made := calls_made s @ [k]\<rparr> in case h of
     None \<Rightarrow> s\<lparr>wsphase := next\<rparr>
   | Some f \<Rightarrow> (case f (wsstate s) of (c, ex) \<Rightarrow>
       s\<lparr>wsstate := c, wsphase := (if ex = None then next else A_terminated)\<rparr>))"

inductive ws_own_step :: "'c WsThread \<Rightarrow> 'c WsThread \<Rightarrow> bool" where
  test: "wsphase s = A_test \<Longrightarrow> ws_own_step s (s\<lparr>wsphase := (if ws_running (wserver s) then A_select else A_ended)\<rparr>)"
| timeout: "wsphase s = A_select \<Longrightarrow> ws_own_step s (s\<lparr>wsphase := A_test\<rparr>)"
| connect: "wsphase s = A_connect i \<Longrightarrow>
    ws_own_step s (run_handler (Call_connect i) (map_option (\<lambda>h. h i) (onConnect (wserver s))) (C_test i) s)"
| client_test: "wsphase s = C_test i \<Longrightarrow>
    ws_own_step s (s\<lparr>wsphase := (if ws_running (wserver s) then C_recv i else C_leave i)\<rparr>)"
| leave: "wsphase s = C_leave i \<Longrightarrow>
    ws_own_step s (s\<lparr>wserver := wserver s\<lparr>clients := clients (wserver s) |-| {|i|}\<rparr>, wsphase := C_left i\<rparr>)"
| left: "wsphase s = C_left i \<Longrightarrow>
    ws_own_step s (run_handler (Call_disconnect i) (map_option (\<lambda>h. h i) (onDisconnect (wserver s))) A_test s)"

text \<open>
  A connection is accepted while the listening descriptor is open; its number is taken at once. A
  \<^verbatim>\<open>recv\<close> returns when the peer sends or closes (the empty string), not before.
\<close>

inductive ws_peer_step :: "'c WsThread \<Rightarrow> 'c WsThread \<Rightarrow> bool" where
  arrive: "wsphase s = A_select \<Longrightarrow> wsstopping s \<in> {Not_stopped, Flag_cleared} \<Longrightarrow>
    ws_peer_step s (s\<lparr>wserver := wserver s\<lparr>nextClientId := nextClientId (wserver s) + 1\<rparr>,
      wsphase := A_handshake (nextClientId (wserver s)), connections := connections s + 1\<rparr>)"
| greet: "wsphase s = A_handshake i \<Longrightarrow> length request \<le> 1024 \<Longrightarrow>
    ws_peer_step s (if fst (PerformHandshake [request]) = None then s\<lparr>wsphase := A_test\<rparr>
      else s\<lparr>wserver := wserver s\<lparr>clients := finsert i (clients (wserver s))\<rparr>, wsphase := A_connect i\<rparr>)"
| hang_up: "wsphase s = C_recv i \<Longrightarrow> ws_peer_step s (s\<lparr>wsphase := C_leave i\<rparr>)"
| talk: "wsphase s = C_recv i \<Longrightarrow> frame \<noteq> [] \<Longrightarrow> length frame \<le> 1024 \<Longrightarrow>
    ws_peer_step s (case DecodeFrame frame of
      Inl e \<Rightarrow> s\<lparr>wsphase := A_terminated, frames := frames s + 1, heard := heard s @ [frame]\<rparr>
    | Inr m \<Rightarrow> run_handler (Call_message i m) (map_option (\<lambda>h. h i m) (onMessage (wserver s))) (C_test i) (s\<lparr>frames := frames s + 1, heard := heard s @ [frame]\<rparr>))"

text \<open>\<open>Stop\<close> clears the flag, closes the listening descriptor, joins and clears the registry.\<close>

inductive ws_stop_step :: "'c WsThread \<Rightarrow> 'c WsThread \<Rightarrow> bool" where
  clear: "wsstopping s = Not_stopped \<Longrightarrow>
    ws_stop_step s (s\<lparr>wserver := wserver s\<lparr>ws_running := False\<rparr>, wsstopping := Flag_cleared\<rparr>)"
| close: "wsstopping s = Flag_cleared \<Longrightarrow> ws_stop_step s (s\<lparr>wsstopping := Joining\<rparr>)"
| join: "wsstopping s = Joining \<Longrightarrow> wsphase s = A_ended \<Longrightarrow>
    ws_stop_step s (s\<lparr>wserver := wserver s\<lparr>clients := {||}\<rparr>, wsstopping := Stopped\<rparr>)"

inductive ws_step :: "'c WsThread \<Rightarrow> 'c WsThread \<Rightarrow> bool" where
  own: "ws_own_step s s' \<Longrightarrow> ws_step s s'"
| peer: "ws_peer_step s s' \<Longrightarrow> ws_step s s'"
| stop: "ws_stop_step s s' \<Longrightarrow> ws_step s s'"

inductive_cases ws_own_stepE: "ws_own_step s s'"
inductive_cases ws_peer_stepE: "ws_peer_step s s'"
inductive_cases ws_stop_stepE: "ws_stop_step s s'"
inductive_cases ws_stepE: "ws_step s s'"

definition ws_start :: "'c WsThread \<Rightarrow> bool" where
  "ws_start s \<longleftrightarrow> ws_running (wserver s) \<and> clients (wserver s) = {||} \<and> nextClientId (wserver s) = 1
     \<and> wsphase s = A_test \<and> wsstopping s = Not_stopped \<and> connections s = 0 \<and> frames s = 0 \<and> heard s = [] \<and> calls_made s = []"

text \<open>The thread that \<open>Start\<close> creates.\<close>

definition ws_thread :: "'c WebSocketServer \<Rightarrow> 'c \<Rightarrow> 'c WsThread" where
  "ws_thread srv c = \<lparr>wserver = srv, wsphase = A_test, wsstopping = Not_stopped, wsstate = c, connections = 0, frames = 0, heard = [], calls_made = []\<rparr>"

definition ws_initial :: "nat WsThread" where
  "ws_initial = ws_thread (fst (Start_ws loopback (fresh_WebSocketServer 25566) (wire []))) 0"

subsection \<open>One client at a time\<close>

text \<open>The client the thread is busy with, and whether it is in the registry.\<close>

fun busy_with :: "ws_phase \<Rightarrow> u32 option" where
  "busy_with (A_handshake i) = Some i"
| "busy_with (A_connect i) = Some i"
| "busy_with (C_test i) = Some i"
| "busy_with (C_recv i) = Some i"
| "busy_with (C_leave i) = Some i"
| "busy_with (C_left i) = Some i"
| "busy_with _ = None"

definition unregistered :: "ws_phase \<Rightarrow> bool" where
  "unregistered p \<longleftrightarrow> (busy_with p = None \<and> p \<noteq> A_terminated) \<or> (\<exists>i. p = A_handshake i) \<or> (\<exists>i. p = C_left i)"

definition ws_inv :: "'c WsThread \<Rightarrow> bool" where
  "ws_inv s \<longleftrightarrow> clients (wserver s) |\<subseteq>| {|of_nat (connections s)|}
     \<and> (unregistered (wsphase s) \<longrightarrow> clients (wserver s) = {||})
     \<and> (\<forall>i. busy_with (wsphase s) = Some i \<longrightarrow> i = of_nat (connections s))
     \<and> nextClientId (wserver s) = of_nat (connections s) + 1
     \<and> (ws_running (wserver s) \<longleftrightarrow> wsstopping s = Not_stopped)
     \<and> (wsstopping s = Stopped \<longrightarrow> wsphase s = A_ended)"

lemma run_handler_simps [simp]:
  "wserver (run_handler k h p s) = wserver s" "wsstopping (run_handler k h p s) = wsstopping s"
  "connections (run_handler k h p s) = connections s" "frames (run_handler k h p s) = frames s"
  "heard (run_handler k h p s) = heard s" "calls_made (run_handler k h p s) = calls_made s @ [k]"
  by (simp_all add: run_handler_def Let_def split: option.split prod.split)

lemma run_handler_phase: "wsphase (run_handler k h p s) = p \<or> wsphase (run_handler k h p s) = A_terminated"
  by (simp add: run_handler_def Let_def split: option.split prod.split)

lemma unregistered_simps [simp]:
  "unregistered A_test" "unregistered A_select" "unregistered (A_handshake i)" "unregistered (C_left i)" "unregistered A_ended"
  "\<not> unregistered (A_connect i)" "\<not> unregistered (C_test i)" "\<not> unregistered (C_recv i)" "\<not> unregistered (C_leave i)"
  "\<not> unregistered A_terminated"
  by (auto simp: unregistered_def)

text \<open>A handler leaves the registry as it is and the thread with the same client, or ends the process.\<close>

lemma run_handler_inv:
  assumes "ws_inv s" "busy_with p = None \<or> busy_with p = busy_with (wsphase s)"
    "unregistered p \<Longrightarrow> unregistered (wsphase s)" "wsphase s \<noteq> A_ended"
  shows "ws_inv (run_handler k h p s)"
  using assms run_handler_phase [of k h p s] by (auto simp: ws_inv_def)

lemma ws_inv_frames [simp]: "ws_inv (s\<lparr>frames := n, heard := fs\<rparr>) = ws_inv s"
  by (simp add: ws_inv_def)

lemma ws_own_step_inv: "ws_own_step s s' \<Longrightarrow> ws_inv s \<Longrightarrow> ws_inv s'"
  by (induction rule: ws_own_step.induct) (auto intro!: run_handler_inv, auto simp: ws_inv_def)

lemma ws_peer_step_inv: "ws_peer_step s s' \<Longrightarrow> ws_inv s \<Longrightarrow> ws_inv s'"
proof (induction rule: ws_peer_step.induct)
  case (talk s i frame)
  then have "ws_inv (s\<lparr>wsphase := A_terminated\<rparr>)" by (auto simp: ws_inv_def)
  with talk show ?case
    by (cases "DecodeFrame frame") (auto intro!: run_handler_inv simp: ws_inv_def [of "s\<lparr>wsphase := A_terminated, frames := n, heard := fs\<rparr>" for n fs] ws_inv_def [of "s\<lparr>wsphase := A_terminated\<rparr>"])
qed (auto simp: ws_inv_def)

lemma ws_stop_step_inv: "ws_stop_step s s' \<Longrightarrow> ws_inv s \<Longrightarrow> ws_inv s'"
  by (induction rule: ws_stop_step.induct) (auto simp: ws_inv_def)

lemma ws_start_inv: "ws_start s \<Longrightarrow> ws_inv s"
  by (simp add: ws_start_def ws_inv_def)

interpretation ws_machine: invariant_steps ws_start ws_step ws_inv
  by unfold_locales (auto intro: ws_start_inv ws_own_step_inv ws_peer_step_inv ws_stop_step_inv elim!: ws_stepE)

lemma ws_initial_start: "ws_start ws_initial"
  by (simp add: ws_initial_def ws_thread_def ws_start_def Start_ws_def fresh_WebSocketServer_def loopback_def)

text \<open>
  C19. The accept thread of the WebSocket server serves one client at a time: in every reachable state at
  most one client is registered, and it is the one accepted last, so a broadcast reaches at most one
  client; and while the thread is busy with a client no other connection is accepted.
\<close>

theorem ws_one_client_at_a_time:
  assumes "ws_start s0" "ws_step\<^sup>*\<^sup>* s0 s" "distinct ids" "set ids = fset (clients (wserver s))"
  shows "GetClientCount (wserver s) \<le> 1 \<and> set ids \<subseteq> {of_nat (connections s)} \<and> length (Broadcast_ws ids message) \<le> 1
    \<and> (busy_with (wsphase s) \<noteq> None \<longrightarrow> {t. ws_step s t \<and> connections t \<noteq> connections s} = {})"
proof -
  have sub: "clients (wserver s) |\<subseteq>| {|of_nat (connections s)|}" using ws_machine.reachable_inv [OF assms(1,2)] by (simp add: ws_inv_def)
  then have ids: "set ids \<subseteq> {of_nat (connections s)}" using assms(4) by auto
  then have len: "length ids \<le> 1" using card_mono [OF _ ids] assms(3) by (simp add: distinct_card)
  have "fcard (clients (wserver s)) \<le> 1" using fcard_mono [OF sub] by (simp add: fcard_finsert_if fcard_fempty)
  moreover have "length (Broadcast_ws ids message) = length ids"
    by (simp add: Broadcast_ws_def Send_ws_def length_concat comp_def sum_list_triv)
  moreover have "busy_with (wsphase s) \<noteq> None \<Longrightarrow> ws_step s t \<Longrightarrow> connections t = connections s" for t
    by (auto elim!: ws_stepE ws_own_stepE ws_peer_stepE ws_stop_stepE split: sum.split)
  ultimately show ?thesis using ids len by (auto simp: GetClientCount_def)
qed

subsection \<open>What the handlers see\<close>

text \<open>
  The protocol of the calls, as a machine over the client whose session is open: a session is opened by the call for
  the connection, holds messages of that client only, and is closed by the call for its departure before
  another is opened.
\<close>

fun call_allowed :: "u32 option \<Rightarrow> ws_call \<Rightarrow> u32 option option" where
  "call_allowed None (Call_connect i) = Some (Some i)"
| "call_allowed (Some j) (Call_message i m) = (if i = j then Some (Some j) else None)"
| "call_allowed (Some j) (Call_disconnect i) = (if i = j then Some None else None)"
| "call_allowed _ _ = None"

definition open_session :: "ws_call list \<Rightarrow> u32 option option" where
  "open_session ks = foldl (\<lambda>r k. Option.bind r (\<lambda>j. call_allowed j k)) (Some None) ks"

text \<open>What the calls make of the client state, up to the first that throws.\<close>

definition call_effect :: "'c WebSocketServer \<Rightarrow> ws_call \<Rightarrow> 'c effect" where
  "call_effect srv k = (case k of
     Call_connect i \<Rightarrow> (case onConnect srv of None \<Rightarrow> (\<lambda>c. (c, None)) | Some h \<Rightarrow> h i)
   | Call_message i m \<Rightarrow> (case onMessage srv of None \<Rightarrow> (\<lambda>c. (c, None)) | Some h \<Rightarrow> h i m)
   | Call_disconnect i \<Rightarrow> (case onDisconnect srv of None \<Rightarrow> (\<lambda>c. (c, None)) | Some h \<Rightarrow> h i))"

fun run_calls :: "'c WebSocketServer \<Rightarrow> ws_call list \<Rightarrow> 'c \<Rightarrow> 'c \<times> bool" where
  "run_calls srv [] c = (c, False)"
| "run_calls srv (k # ks) c = (case call_effect srv k c of (c, Some e) \<Rightarrow> (c, True) | (c, None) \<Rightarrow> run_calls srv ks c)"

fun messages_of :: "ws_call list \<Rightarrow> string list" where
  "messages_of [] = []"
| "messages_of (Call_message i m # ks) = m # messages_of ks"
| "messages_of (_ # ks) = messages_of ks"

fun connected_in :: "ws_call list \<Rightarrow> u32 list" where
  "connected_in [] = []"
| "connected_in (Call_connect i # ks) = i # connected_in ks"
| "connected_in (_ # ks) = connected_in ks"

text \<open>Where the thread stands in a session, and whom the registry then holds.\<close>

fun session_at :: "ws_phase \<Rightarrow> u32 option" where
  "session_at (C_test i) = Some i"
| "session_at (C_recv i) = Some i"
| "session_at (C_leave i) = Some i"
| "session_at (C_left i) = Some i"
| "session_at _ = None"

fun registered_at :: "ws_phase \<Rightarrow> u32 fset" where
  "registered_at (A_connect i) = {|i|}"
| "registered_at (C_test i) = {|i|}"
| "registered_at (C_recv i) = {|i|}"
| "registered_at (C_leave i) = {|i|}"
| "registered_at _ = {||}"

lemma open_session_append: "open_session (ks @ [k]) = Option.bind (open_session ks) (\<lambda>j. call_allowed j k)"
  by (simp add: open_session_def)

lemma run_calls_append:
  "run_calls srv (ks @ [k]) c = (case run_calls srv ks c of (c, True) \<Rightarrow> (c, True)
     | (c, False) \<Rightarrow> (case call_effect srv k c of (c, ex) \<Rightarrow> (c, ex \<noteq> None)))"
  by (induction ks arbitrary: c) (auto split: prod.split option.split)

lemma messages_of_append [simp]: "messages_of (ks @ ls) = messages_of ks @ messages_of ls"
  by (induction ks rule: messages_of.induct) simp_all

lemma connected_in_append [simp]: "connected_in (ks @ ls) = connected_in ks @ connected_in ls"
  by (induction ks rule: connected_in.induct) simp_all

text \<open>
  The invariant, in a thread that has not ended the process and in one that has: by a call that threw, or
  by a frame that the decoder does not survive.
\<close>

definition same_handlers :: "'c WebSocketServer \<Rightarrow> 'c WebSocketServer \<Rightarrow> bool" where
  "same_handlers a b \<longleftrightarrow> onConnect a = onConnect b \<and> onMessage a = onMessage b \<and> onDisconnect a = onDisconnect b"

definition numbered :: "nat \<Rightarrow> ws_call list \<Rightarrow> bool" where
  "numbered n ks \<longleftrightarrow> (\<exists>ns. connected_in ks = map of_nat ns \<and> sorted_wrt (<) ns \<and> set ns \<subseteq> {1..n})"

fun ungreeted :: "ws_phase \<Rightarrow> nat" where
  "ungreeted (A_handshake i) = 1"
| "ungreeted (A_connect i) = 1"
| "ungreeted _ = 0"

definition greeted :: "'c WsThread \<Rightarrow> nat" where
  "greeted s = connections s - ungreeted (wsphase s)"

definition call_inv :: "'c WebSocketServer \<Rightarrow> 'c \<Rightarrow> 'c WsThread \<Rightarrow> bool" where
  "call_inv srv c s \<longleftrightarrow> same_handlers (wserver s) srv \<and> frames s = length (heard s) \<and> numbered (greeted s) (calls_made s)
     \<and> (busy_with (wsphase s) \<noteq> None \<longrightarrow> 0 < connections s)
     \<and> (if wsphase s = A_terminated then open_session (calls_made s) \<noteq> None \<and>
          (run_calls srv (calls_made s) c = (wsstate s, True) \<and> map DecodeFrame (heard s) = map Inr (messages_of (calls_made s))
           \<or> run_calls srv (calls_made s) c = (wsstate s, False) \<and>
             (\<exists>frame e. DecodeFrame frame = Inl e \<and> map DecodeFrame (heard s) = map Inr (messages_of (calls_made s)) @ [DecodeFrame frame]))
        else open_session (calls_made s) = Some (session_at (wsphase s)) \<and> clients (wserver s) = registered_at (wsphase s)
          \<and> run_calls srv (calls_made s) c = (wsstate s, False) \<and> map DecodeFrame (heard s) = map Inr (messages_of (calls_made s)))"

lemma numbered_mono: "numbered m ks \<Longrightarrow> m \<le> n \<Longrightarrow> numbered n ks"
  by (force simp: numbered_def)

lemma numbered_same: "connected_in ks = connected_in ls \<Longrightarrow> numbered n ks = numbered n ls"
  by (simp add: numbered_def)

lemma numbered_next:
  assumes "numbered (n - 1) ks" "0 < n"
  shows "numbered n (ks @ [Call_connect (of_nat n)])"
proof -
  obtain ns where ns: "connected_in ks = map of_nat ns" "sorted_wrt (<) ns" "set ns \<subseteq> {1..n - 1}"
    using assms(1) by (auto simp: numbered_def)
  then have "connected_in (ks @ [Call_connect (of_nat n)]) = map of_nat (ns @ [n])" "sorted_wrt (<) (ns @ [n])" "set (ns @ [n]) \<subseteq> {1..n}"
    using assms(2) by (force simp: sorted_wrt_append)+
  then show ?thesis unfolding numbered_def by blast
qed

text \<open>A call that the protocol allows, with what follows it.\<close>

lemma run_handler_call_inv:
  assumes "same_handlers (wserver s) srv" "frames s = length (heard s)"
    "open_session (calls_made s @ [k]) = Some (session_at p)" "clients (wserver s) = registered_at p" "p \<noteq> A_terminated"
    "run_calls srv (calls_made s) c = (wsstate s, False)"
    "map DecodeFrame (heard s) = map Inr (messages_of (calls_made s @ [k]))"
    "h = None \<and> call_effect srv k = (\<lambda>c. (c, None)) \<or> h = Some (call_effect srv k)"
    "numbered (greeted (run_handler k h p s)) (calls_made s @ [k])" "0 < connections s"
  shows "call_inv srv c (run_handler k h p s)"
proof -
  obtain c' ex where e: "call_effect srv k (wsstate s) = (c', ex)" by fastforce
  have run: "run_calls srv (calls_made s @ [k]) c = (c', ex \<noteq> None)" using assms(6) e by (simp add: run_calls_append)
  have st: "wsstate (run_handler k h p s) = c'" "wsphase (run_handler k h p s) = (if ex = None then p else A_terminated)"
    using assms(8) e by (auto simp: run_handler_def Let_def)
  show ?thesis using assms(1-5,7,9,10) run unfolding call_inv_def by (simp add: st)
qed

lemma handler_effects:
  assumes "same_handlers (wserver s) srv"
  shows "map_option (\<lambda>h. h i) (onConnect (wserver s)) = None \<and> call_effect srv (Call_connect i) = (\<lambda>c. (c, None))
      \<or> map_option (\<lambda>h. h i) (onConnect (wserver s)) = Some (call_effect srv (Call_connect i))"
    and "map_option (\<lambda>h. h i) (onDisconnect (wserver s)) = None \<and> call_effect srv (Call_disconnect i) = (\<lambda>c. (c, None))
      \<or> map_option (\<lambda>h. h i) (onDisconnect (wserver s)) = Some (call_effect srv (Call_disconnect i))"
    and "map_option (\<lambda>h. h i m) (onMessage (wserver s)) = None \<and> call_effect srv (Call_message i m) = (\<lambda>c. (c, None))
      \<or> map_option (\<lambda>h. h i m) (onMessage (wserver s)) = Some (call_effect srv (Call_message i m))"
  using assms by (auto simp: same_handlers_def call_effect_def split: option.splits)

lemma greeted_handler: "session_at p \<noteq> None \<or> p = A_test \<Longrightarrow> greeted (run_handler k h p s) = connections s"
  using run_handler_phase [of k h p s] by (cases p) (auto simp: greeted_def)

lemma ws_own_step_call_inv: "ws_own_step s s' \<Longrightarrow> ws_inv s \<Longrightarrow> call_inv srv c s \<Longrightarrow> call_inv srv c s'"
proof (induction rule: ws_own_step.induct)
  case (connect s i)
  then have i: "i = of_nat (connections s)" and one: "0 < connections s" and h: "same_handlers (wserver s) srv"
    by (auto simp: ws_inv_def call_inv_def)
  have "numbered (connections s) (calls_made s @ [Call_connect i])"
    unfolding i using connect one by (intro numbered_next) (simp_all add: call_inv_def greeted_def)
  then show ?case
    using connect one h
    by (intro run_handler_call_inv handler_effects(1)) (simp_all add: call_inv_def open_session_append greeted_handler)
next
  case (left s i)
  then have h: "same_handlers (wserver s) srv" by (simp add: call_inv_def)
  have "numbered (connections s) (calls_made s @ [Call_disconnect i])"
    using left numbered_same [of "calls_made s @ [Call_disconnect i]" "calls_made s"] by (simp add: call_inv_def greeted_def)
  then show ?case
    using left h by (intro run_handler_call_inv handler_effects(2)) (simp_all add: call_inv_def open_session_append greeted_handler)
qed (auto simp: call_inv_def greeted_def same_handlers_def)

lemma ws_peer_step_call_inv: "ws_peer_step s s' \<Longrightarrow> ws_inv s \<Longrightarrow> call_inv srv c s \<Longrightarrow> call_inv srv c s'"
proof (induction rule: ws_peer_step.induct)
  case (talk s i frame)
  let ?s = "s\<lparr>frames := frames s + 1, heard := heard s @ [frame]\<rparr>"
  show ?case
  proof (cases "DecodeFrame frame")
    case (Inl e)
    with talk show ?thesis by (auto simp: call_inv_def greeted_def)
  next
    case (Inr m)
    have h: "same_handlers (wserver ?s) srv" using talk by (simp add: call_inv_def)
    have "numbered (connections ?s) (calls_made ?s @ [Call_message i m])"
      using talk numbered_same [of "calls_made s @ [Call_message i m]" "calls_made s"] by (simp add: call_inv_def greeted_def)
    then have "call_inv srv c (run_handler (Call_message i m) (map_option (\<lambda>h. h i m) (onMessage (wserver ?s))) (C_test i) ?s)"
      using talk Inr h
      by (intro run_handler_call_inv handler_effects(3)) (simp_all add: call_inv_def open_session_append greeted_handler)
    with Inr show ?thesis by simp
  qed
next
  case (arrive s)
  then show ?case by (auto simp: call_inv_def greeted_def same_handlers_def)
next
  case (greet s i request)
  then show ?case by (auto simp: call_inv_def greeted_def same_handlers_def intro: numbered_mono)
next
  case (hang_up s i)
  then show ?case by (auto simp: call_inv_def greeted_def same_handlers_def)
qed

lemma ws_stop_step_call_inv: "ws_stop_step s s' \<Longrightarrow> call_inv srv c s \<Longrightarrow> call_inv srv c s'"
  by (induction rule: ws_stop_step.induct) (auto simp: call_inv_def greeted_def same_handlers_def)

lemma ws_call_inv:
  assumes "ws_running srv" "clients srv = {||}" "nextClientId srv = 1" "ws_step\<^sup>*\<^sup>* (ws_thread srv c) s"
  shows "ws_inv s \<and> call_inv srv c s"
  using assms(4)
proof (induction rule: rtranclp_induct)
  case base
  have "open_session [] = Some None" "numbered 0 []" by (simp_all add: open_session_def numbered_def)
  with assms(1-3) show ?case by (simp add: ws_thread_def ws_inv_def call_inv_def greeted_def same_handlers_def)
next
  case (step s t)
  have "ws_start (ws_thread srv c)" using assms(1-3) by (simp add: ws_start_def ws_thread_def)
  then have "ws_inv t" using ws_machine.reachable_inv rtranclp.rtrancl_into_rtrancl [OF step(1,2)] by blast
  moreover have "call_inv srv c t"
    using step(2,3) by (auto elim!: ws_stepE intro: ws_own_step_call_inv ws_peer_step_call_inv ws_stop_step_call_inv)
  ultimately show ?case ..
qed

text \<open>
  C14. What the handlers see of the accept thread, in every run, whatever connections and frames come and
  whenever the server is stopped. The calls keep the protocol of sessions, one client at a time: connected,
  then messages of this client only, then gone, before the next; the clients are greeted in the order of
  their acceptance, each at most once. The messages are exactly the decoded frames, each delivered once and in order. The client
  state is what these calls make of it, and the process ends by the first that throws, or by a frame that
  the decoder does not survive. In between the registry holds the client of the session, and is
  empty when there is none: a client that is gone, or whose handshake failed, leaves nothing behind.
\<close>

theorem ws_thread_keeps_sessions:
  assumes "ws_running srv" "clients srv = {||}" "nextClientId srv = 1" "ws_step\<^sup>*\<^sup>* (ws_thread srv c) s"
  shows "(if wsphase s = A_terminated then open_session (calls_made s) \<noteq> None \<and>
        (run_calls srv (calls_made s) c = (wsstate s, True) \<and> map DecodeFrame (heard s) = map Inr (messages_of (calls_made s))
         \<or> run_calls srv (calls_made s) c = (wsstate s, False) \<and>
             (\<exists>frame e. DecodeFrame frame = Inl e \<and> map DecodeFrame (heard s) = map Inr (messages_of (calls_made s)) @ [DecodeFrame frame]))
      else open_session (calls_made s) = Some (session_at (wsphase s)) \<and> clients (wserver s) = registered_at (wsphase s)
        \<and> run_calls srv (calls_made s) c = (wsstate s, False) \<and> map DecodeFrame (heard s) = map Inr (messages_of (calls_made s)))
    \<and> frames s = length (heard s)
    \<and> (\<exists>ns. connected_in (calls_made s) = map of_nat ns \<and> sorted_wrt (<) ns \<and> set ns \<subseteq> {1..connections s})"
proof -
  have inv: "call_inv srv c s" using ws_call_inv [OF assms] ..
  then have "numbered (connections s) (calls_made s)"
    by (auto simp: call_inv_def greeted_def intro: numbered_mono)
  with inv show ?thesis by (auto simp: call_inv_def numbered_def)
qed

subsection \<open>The thread implements the accept loop\<close>

definition ws_run :: "'c WsThread \<Rightarrow> 'c WebSocketServer \<Rightarrow> 'c \<Rightarrow> ws_phase \<Rightarrow> bool" where
  "ws_run s srv c p \<longleftrightarrow> (\<exists>t. ws_step\<^sup>*\<^sup>* s t \<and> wserver t = srv \<and> wsstate t = c \<and> wsphase t = p \<and> wsstopping t = wsstopping s)"

lemma ws_run_here: "wserver s = srv \<Longrightarrow> wsstate s = c \<Longrightarrow> wsphase s = p \<Longrightarrow> ws_run s srv c p"
  by (auto simp: ws_run_def)

lemma ws_run_own: "ws_own_step s t \<Longrightarrow> wsstopping t = wsstopping s \<Longrightarrow> ws_run t srv c p \<Longrightarrow> ws_run s srv c p"
  by (auto simp: ws_run_def intro: converse_rtranclp_into_rtranclp ws_step.own)

lemma ws_run_peer: "ws_peer_step s t \<Longrightarrow> wsstopping t = wsstopping s \<Longrightarrow> ws_run t srv c p \<Longrightarrow> ws_run s srv c p"
  by (auto simp: ws_run_def intro: converse_rtranclp_into_rtranclp ws_step.peer)

lemma ws_run_trans:
  assumes "ws_run s srv c p" "\<And>t. wserver t = srv \<Longrightarrow> wsstate t = c \<Longrightarrow> wsphase t = p \<Longrightarrow> wsstopping t = wsstopping s \<Longrightarrow> ws_run t srv' c' p'"
  shows "ws_run s srv' c' p'"
proof -
  from assms(1) obtain t where t: "ws_step\<^sup>*\<^sup>* s t" "wserver t = srv" "wsstate t = c" "wsphase t = p" "wsstopping t = wsstopping s"
    by (auto simp: ws_run_def)
  from assms(2) [OF t(2-5)] obtain u where "ws_step\<^sup>*\<^sup>* t u" "wserver u = srv'" "wsstate u = c'" "wsphase u = p'" "wsstopping u = wsstopping t"
    by (auto simp: ws_run_def)
  with t show ?thesis using rtranclp_trans [OF t(1)] by (auto simp: ws_run_def)
qed

text \<open>Where the thread stands after a part of the loop with this result.\<close>

definition after :: "unit result \<Rightarrow> ws_phase \<Rightarrow> ws_phase" where
  "after r p = (case r of Inr _ \<Rightarrow> p | Inl _ \<Rightarrow> A_terminated)"

lemma after_simps [simp]: "after (Inr u) p = p" "after (Inl e) p = A_terminated"
  by (simp_all add: after_def)

lemma ws_run_client_test:
  assumes "wsphase s = C_test i" "ws_running (wserver s)" "ws_run (s\<lparr>wsphase := C_recv i\<rparr>) srv c p"
  shows "ws_run s srv c p"
  by (rule ws_run_own [OF _ _ assms(3)]) (use ws_own_step.client_test [OF assms(1)] assms(2) in auto)

lemma ws_run_hang_up:
  assumes "wsphase s = C_test i" "ws_running (wserver s)"
  shows "ws_run s (wserver s) (wsstate s) (C_leave i)"
  by (rule ws_run_client_test [OF assms], rule ws_run_peer, rule ws_peer_step.hang_up) (auto intro!: ws_run_here)

lemma client_loop_steps:
  assumes "wsphase s = C_test i" "ws_running (wserver s)" "\<forall>f \<in> set recvs. length f \<le> 1024"
    "client_loop recvs i (wserver s) (wsstate s) = (c, r)"
  shows "ws_run s (wserver s) c (after r (C_leave i))"
  using assms
proof (induction recvs arbitrary: s)
  case Nil
  then show ?case using ws_run_hang_up [of s i] by auto
next
  case (Cons frame rest)
  show ?case
  proof (cases "frame = []")
    case True
    with Cons.prems show ?thesis using ws_run_hang_up [of s i] by auto
  next
    case False
    let ?s = "s\<lparr>wsphase := C_recv i, frames := frames s + 1, heard := heard s @ [frame]\<rparr>"
    have talk: "ws_peer_step (s\<lparr>wsphase := C_recv i\<rparr>) (case DecodeFrame frame of
        Inl e \<Rightarrow> s\<lparr>wsphase := A_terminated, frames := frames s + 1, heard := heard s @ [frame]\<rparr> | Inr m \<Rightarrow> run_handler (Call_message i m) (map_option (\<lambda>h. h i m) (onMessage (wserver s))) (C_test i) ?s)"
      using ws_peer_step.talk [of "s\<lparr>wsphase := C_recv i\<rparr>" i frame] False Cons.prems(3) by (cases "DecodeFrame frame") simp_all
    note Cons' = Cons.prems(4) [unfolded client_loop.simps]
    show ?thesis
    proof (rule ws_run_client_test [OF Cons.prems(1,2)], rule ws_run_peer [OF talk])
      show "ws_run (case DecodeFrame frame of
        Inl e \<Rightarrow> s\<lparr>wsphase := A_terminated, frames := frames s + 1, heard := heard s @ [frame]\<rparr> | Inr m \<Rightarrow> run_handler (Call_message i m) (map_option (\<lambda>h. h i m) (onMessage (wserver s))) (C_test i) ?s)
        (wserver s) c (after r (C_leave i))"
      proof (cases "DecodeFrame frame")
        case (Inl e)
        then show ?thesis using False Cons' Cons.prems(2) by (auto intro: ws_run_here)
      next
        case (Inr m)
        then show ?thesis
          using False Cons' Cons.prems Cons.IH [of "run_handler (Call_message i m) (map_option (\<lambda>h. h i m) (onMessage (wserver s))) (C_test i) ?s"]
          by (auto simp: run_handler_def intro: ws_run_here split: option.splits prod.splits)
      qed
    qed (simp split: sum.split)
  qed
qed

lemma HandleClient_steps:
  fixes s :: "'a WsThread"
  assumes "wsphase s = C_test i" "ws_running (wserver s)" "\<forall>f \<in> set recvs. length f \<le> 1024"
    "HandleClient_ws recvs i (wserver s) (wsstate s) = (srv, c, r)"
  shows "ws_run s srv c (after r A_test)"
proof -
  obtain c1 r1 where loop: "client_loop recvs i (wserver s) (wsstate s) = (c1, r1)" by (metis surj_pair)
  note run = client_loop_steps [OF assms(1-3) loop]
  show ?thesis
  proof (cases r1)
    case (Inl e)
    then show ?thesis using run loop assms(4) by (auto simp: HandleClient_ws_def)
  next
    case (Inr u)
    show ?thesis
    proof (rule ws_run_trans [OF run])
      fix t :: "'a WsThread"
      assume t: "wserver t = wserver s" "wsstate t = c1" "wsphase t = after r1 (C_leave i)"
      let ?u = "t\<lparr>wserver := wserver t\<lparr>clients := clients (wserver t) |-| {|i|}\<rparr>, wsphase := C_left i\<rparr>"
      have "ws_run ?u srv c (after r A_test)"
        by (rule ws_run_own [OF ws_own_step.left [of _ i]])
          (use t Inr loop assms(4) in \<open>auto simp: HandleClient_ws_def Let_def run_handler_def intro: ws_run_here split: option.splits prod.splits\<close>)
      then show "ws_run t srv c (after r A_test)"
        by (rule ws_run_own [OF ws_own_step.leave, rotated 2]) (use t Inr in auto)
    qed
  qed
qed

lemma accept_client_steps:
  fixes s :: "'a WsThread"
  assumes "wsphase s = A_select" "wsstopping s = Not_stopped" "ws_running (wserver s)" "\<forall>f \<in> set recvs. length f \<le> 1024"
    "accept_client recvs (wserver s) (wsstate s) = (srv, c, sent, r)"
  shows "ws_run s srv c (after r A_test)"
proof -
  let ?i = "nextClientId (wserver s)"
  let ?t = "s\<lparr>wserver := wserver s\<lparr>nextClientId := ?i + 1\<rparr>, wsphase := A_handshake ?i, connections := connections s + 1\<rparr>"
  define request where "request = (case recvs of [] \<Rightarrow> [] | f # _ \<Rightarrow> f)"
  have short: "length request \<le> 1024" using assms(4) by (auto simp: request_def split: list.split)
  have first: "fst (PerformHandshake [request]) = fst (PerformHandshake recvs)"
    by (auto simp: request_def PerformHandshake_def split: list.split)
  have rest: "\<forall>f \<in> set (snd (PerformHandshake recvs)). length f \<le> 1024"
    using assms(4) by (auto simp: PerformHandshake_def split: list.split)
  have arrive: "ws_peer_step s ?t" using ws_peer_step.arrive [of s] assms(1,2) by simp
  have greet: "ws_peer_step ?t (if fst (PerformHandshake recvs) = None then ?t\<lparr>wsphase := A_test\<rparr>
      else ?t\<lparr>wserver := wserver ?t\<lparr>clients := finsert ?i (clients (wserver ?t))\<rparr>, wsphase := A_connect ?i\<rparr>)"
    using ws_peer_step.greet [of ?t ?i request] short first by simp
  show ?thesis
  proof (rule ws_run_peer [OF arrive], simp, rule ws_run_peer [OF greet], simp)
    show "ws_run (if fst (PerformHandshake recvs) = None then ?t\<lparr>wsphase := A_test\<rparr>
        else ?t\<lparr>wserver := wserver ?t\<lparr>clients := finsert ?i (clients (wserver ?t))\<rparr>, wsphase := A_connect ?i\<rparr>) srv c (after r A_test)"
    proof (cases "fst (PerformHandshake recvs)")
      case None
      then show ?thesis using assms(5) by (auto simp: accept_client_def Let_def intro!: ws_run_here split: prod.splits option.splits)
    next
      case (Some response)
      let ?u = "?t\<lparr>wserver := wserver ?t\<lparr>clients := finsert ?i (clients (wserver ?t))\<rparr>, wsphase := A_connect ?i\<rparr>"
      let ?v = "run_handler (Call_connect ?i) (map_option (\<lambda>h. h ?i) (onConnect (wserver ?u))) (C_test ?i) ?u"
      have "ws_run ?v srv c (after r A_test)"
        using assms(3,5) Some rest HandleClient_steps [of ?v ?i "snd (PerformHandshake recvs)" srv c r]
        by (auto simp: accept_client_def Let_def run_handler_def intro: ws_run_here split: prod.splits option.splits)
      then have "ws_run ?u srv c (after r A_test)" by (rule ws_run_own [OF ws_own_step.connect, rotated 2]) simp_all
      with Some show ?thesis by simp
    qed
  qed
qed

lemma accept_client_running: "accept_client recvs srv c = (srv', c', sent, r) \<Longrightarrow> ws_running srv' = ws_running srv"
  by (auto simp: accept_client_def HandleClient_ws_def Let_def split: prod.splits option.splits sum.splits)

lemma AcceptLoop_steps:
  fixes s :: "'a WsThread"
  assumes "wsphase s = A_test" "wsstopping s = Not_stopped" "ws_running (wserver s)" "\<forall>conn \<in> set conns. \<forall>f \<in> set conn. length f \<le> 1024"
    "AcceptLoop_ws conns (wserver s) (wsstate s) = (srv, c, r)"
  shows "ws_run s srv c (after r A_test)"
  using assms
proof (induction conns arbitrary: s)
  case Nil
  then show ?case by (auto intro: ws_run_here)
next
  case (Cons conn conns)
  obtain srv1 c1 sent r1 where one: "accept_client conn (wserver s) (wsstate s) = (srv1, c1, sent, r1)" by (metis surj_pair)
  have "ws_run (s\<lparr>wsphase := A_select\<rparr>) srv1 c1 (after r1 A_test)"
    by (rule accept_client_steps) (use Cons.prems one in auto)
  then have "ws_run (s\<lparr>wsphase := A_select\<rparr>) srv c (after r A_test)"
  proof (rule ws_run_trans)
    fix t :: "'a WsThread"
    assume t: "wserver t = srv1" "wsstate t = c1" "wsphase t = after r1 A_test" "wsstopping t = wsstopping (s\<lparr>wsphase := A_select\<rparr>)"
    then show "ws_run t srv c (after r A_test)"
      using Cons.prems one accept_client_running [OF one] Cons.IH [of t] by (cases r1) (auto intro: ws_run_here)
  qed
  with Cons.prems show ?case by (intro ws_run_own [OF ws_own_step.test [OF Cons.prems(1)]]) simp_all
qed

text \<open>
  Conversely the thread reaches what the loop computes: as long as nobody stops the server, whatever sequence of
  connections arrives, each with the pieces it sends, it can get step by step to the server
  and the client state that the loop gives, back before the test of its flag, or ended with the
  process when the loop ends in a fault.
\<close>

lemma ws_thread_implements_loop:
  assumes "ws_running srv" "\<forall>conn \<in> set conns. \<forall>f \<in> set conn. length f \<le> 1024" "AcceptLoop_ws conns srv c = (srv', c', r)"
  shows "\<exists>t. ws_step\<^sup>*\<^sup>* (ws_thread srv c) t \<and> wserver t = srv' \<and> wsstate t = c'
    \<and> wsphase t = (case r of Inr _ \<Rightarrow> A_test | Inl _ \<Rightarrow> A_terminated)"
  using AcceptLoop_steps [of "ws_thread srv c" conns srv' c' r] assms by (auto simp: ws_thread_def ws_run_def after_def)

text \<open>One client that greets and leaves, over handlers that count the connections and the departures.\<close>

definition counting_server :: "(nat \<times> nat) WebSocketServer" where
  "counting_server = (fresh_WebSocketServer 25566)\<lparr>ws_running := True,
     onConnect := Some (\<lambda>i (a, b). ((a + 1, b), None)), onDisconnect := Some (\<lambda>i (a, b). ((a, b + 1), None))\<rparr>"

lemma greeting: "PerformHandshake [''Sec-WebSocket-Key: x''] = (Some handshake_response, [])"
  "length ''Sec-WebSocket-Key: x'' \<le> 1024"
proof -
  have "str_find ''Sec-WebSocket-Key: x'' ''Sec-WebSocket-Key: '' 0 \<noteq> None" by code_simp
  then show "PerformHandshake [''Sec-WebSocket-Key: x''] = (Some handshake_response, [])" by (simp add: PerformHandshake_def)
qed simp

theorem ws_thread_keeps_sessions_witness:
  "\<exists>t. ws_step\<^sup>*\<^sup>* (ws_thread counting_server (0, 0)) t \<and> wsstate t = (1, 1) \<and> wsphase t = A_test
     \<and> run_calls counting_server (calls_made t) (0, 0) = ((1, 1), False)
     \<and> open_session (calls_made t) = Some None \<and> clients (wserver t) = {||}"
proof -
  let ?r = "''Sec-WebSocket-Key: x''"
  let ?srv = "counting_server\<lparr>nextClientId := 2\<rparr>"
  have new: "ws_running counting_server" "clients counting_server = {||}" "nextClientId counting_server = 1"
    by (simp_all add: counting_server_def fresh_WebSocketServer_def)
  have loop: "AcceptLoop_ws [[?r]] counting_server (0, 0) = (?srv, (1, 1), Inr ())"
    by (simp add: accept_client_def HandleClient_ws_def Let_def greeting counting_server_def fresh_WebSocketServer_def)
  have "\<forall>conn \<in> set [[?r]]. \<forall>f \<in> set conn. length f \<le> 1024" by simp
  from ws_thread_implements_loop [OF new(1) this loop] obtain t where
    t: "ws_step\<^sup>*\<^sup>* (ws_thread counting_server (0, 0)) t" "wsstate t = (1, 1)" "wsphase t = A_test" by auto
  with ws_thread_keeps_sessions [OF new t(1)] show ?thesis by auto
qed

subsection \<open>Stopping the WebSocket server\<close>

text \<open>How many connections and frames the thread may still take once the flag is cleared.\<close>

definition may_receive :: "ws_phase \<Rightarrow> nat" where
  "may_receive p = (if p = A_select \<or> (\<exists>i. p = C_recv i) then 1 else 0)"

lemma may_receive_simps [simp]:
  "may_receive A_select = 1" "may_receive (C_recv i) = 1" "may_receive A_test = 0" "may_receive (A_handshake i) = 0"
  "may_receive (A_connect i) = 0" "may_receive (C_test i) = 0" "may_receive (C_leave i) = 0" "may_receive (C_left i) = 0"
  "may_receive A_ended = 0" "may_receive A_terminated = 0"
  by (simp_all add: may_receive_def)

lemma run_handler_may_receive [simp]: "may_receive p = 0 \<Longrightarrow> may_receive (wsphase (run_handler k h p s)) = 0"
  using run_handler_phase [of k h p s] by auto

lemma ws_step_closing: "ws_step s t \<Longrightarrow> \<not> ws_running (wserver s) \<Longrightarrow> \<not> ws_running (wserver t)"
  by (auto elim!: ws_stepE ws_own_stepE ws_peer_stepE ws_stop_stepE split: sum.splits if_splits)

lemma ws_step_receives:
  "ws_step s t \<Longrightarrow> \<not> ws_running (wserver s) \<Longrightarrow>
     connections t + frames t + may_receive (wsphase t) \<le> connections s + frames s + may_receive (wsphase s)"
  by (auto elim!: ws_stepE ws_own_stepE ws_peer_stepE ws_stop_stepE split: sum.split if_splits)

interpretation ws_end: winding_down ws_step "\<lambda>s. \<not> ws_running (wserver s)" "\<lambda>s. connections s + frames s" "\<lambda>s. may_receive (wsphase s)"
  by unfold_locales (blast dest: ws_step_closing ws_step_receives)+

text \<open>
  Once \<open>Stop\<close> has cleared the flag, the WebSocket thread takes at most one more connection or one
  more frame, whatever its peers do, and neither unless it was in \<^verbatim>\<open>select\<close> or in the \<^verbatim>\<open>recv\<close> of a client.
\<close>

theorem ws_stop_takes_at_most_one:
  assumes "ws_start s0" "ws_step\<^sup>*\<^sup>* s0 s" "wsstopping s \<noteq> Not_stopped" "ws_step\<^sup>*\<^sup>* s t"
  shows "connections t + frames t \<le> connections s + frames s + (if wsphase s = A_select \<or> (\<exists>i. wsphase s = C_recv i) then 1 else 0)"
proof -
  have "\<not> ws_running (wserver s)" using ws_machine.reachable_inv [OF assms(1,2)] assms(3) by (simp add: ws_inv_def)
  from ws_end.started_bound [OF assms(4) this] show ?thesis by (simp add: may_receive_def)
qed

text \<open>A client that has connected and is silent, before anybody stops the server.\<close>

definition ws_silent :: "nat WsThread" where
  "ws_silent = ws_initial\<lparr>wserver := (wserver ws_initial)\<lparr>nextClientId := 2, clients := {|1|}\<rparr>, wsphase := C_recv 1, connections := 1,
     calls_made := [Call_connect 1]\<rparr>"

lemma ws_silent_reached: "ws_step\<^sup>*\<^sup>* ws_initial ws_silent"
proof -
  let ?s1 = "ws_initial\<lparr>wsphase := A_select\<rparr>"
  let ?s2 = "ws_initial\<lparr>wserver := (wserver ws_initial)\<lparr>nextClientId := 2\<rparr>, wsphase := A_handshake 1, connections := 1\<rparr>"
  let ?s3 = "ws_silent\<lparr>wsphase := A_connect 1, calls_made := []\<rparr>"
  let ?s4 = "ws_silent\<lparr>wsphase := C_test 1\<rparr>"
  note d = ws_silent_def ws_initial_def ws_thread_def Start_ws_def fresh_WebSocketServer_def loopback_def Let_def
  have 1: "ws_own_step ws_initial ?s1" using ws_own_step.test [of ws_initial] by (simp add: d)
  have 2: "ws_peer_step ?s1 ?s2" using ws_peer_step.arrive [of ?s1] by (simp add: d)
  have 3: "ws_peer_step ?s2 ?s3" using ws_peer_step.greet [OF _ greeting(2), of ?s2 1] by (simp add: d greeting)
  have 4: "ws_own_step ?s3 ?s4" using ws_own_step.connect [of ?s3 1] by (simp add: d run_handler_def)
  have 5: "ws_own_step ?s4 ws_silent" using ws_own_step.client_test [of ?s4 1] by (simp add: d)
  have "ws_step\<^sup>*\<^sup>* ws_initial ?s3" by (rule three_steps [of ws_step, OF ws_step.own [OF 1] ws_step.peer [OF 2] ws_step.peer [OF 3]])
  also have "ws_step\<^sup>*\<^sup>* ?s3 ws_silent" by (rule two_steps [of ws_step, OF ws_step.own [OF 4] ws_step.own [OF 5]])
  finally show ?thesis .
qed

theorem ws_one_client_at_a_time_witness:
  "\<exists>s. ws_step\<^sup>*\<^sup>* ws_initial s \<and> clients (wserver s) = {|1|} \<and> length (Broadcast_ws [1] ''hello'') \<le> 1
     \<and> {t. ws_step s t \<and> connections t \<noteq> connections s} = {}"
proof -
  have c: "clients (wserver ws_silent) = {|1|}" "busy_with (wsphase ws_silent) \<noteq> None" by (simp_all add: ws_silent_def)
  have "set [1] = fset (clients (wserver ws_silent))" by (simp add: c)
  with c show ?thesis
    using ws_one_client_at_a_time [OF ws_initial_start ws_silent_reached, of "[1]" "''hello''"] ws_silent_reached by auto
qed

text \<open>The server is stopped while the client is silent: whatever follows, one frame more at most.\<close>

theorem ws_stop_takes_at_most_one_witness:
  "\<exists>s. ws_step\<^sup>*\<^sup>* ws_initial s \<and> wsstopping s = Flag_cleared \<and> connections s = 1
     \<and> (\<forall>t \<in> {t. ws_step\<^sup>*\<^sup>* s t}. connections t + frames t \<le> 2)"
proof -
  let ?s = "ws_silent\<lparr>wserver := wserver ws_silent\<lparr>ws_running := False\<rparr>, wsstopping := Flag_cleared\<rparr>"
  have f: "wsstopping ws_silent = Not_stopped" "connections ws_silent = 1" "frames ws_silent = 0"
    by (simp_all add: ws_silent_def ws_initial_def ws_thread_def)
  have "ws_step ws_silent ?s" by (rule ws_step.stop, rule ws_stop_step.clear, rule f)
  with ws_silent_reached have reached: "ws_step\<^sup>*\<^sup>* ws_initial ?s" by (rule rtranclp.rtrancl_into_rtrancl)
  have "connections t + frames t \<le> 2" if "ws_step\<^sup>*\<^sup>* ?s t" for t
    using ws_stop_takes_at_most_one [OF ws_initial_start reached _ that] f by (simp split: if_splits)
  with reached f show ?thesis by (intro exI [of _ ?s]) auto
qed

text \<open>What is left to the server when its peers do nothing.\<close>

definition ws_alone :: "'c WsThread \<Rightarrow> 'c WsThread \<Rightarrow> bool" where
  "ws_alone s t \<longleftrightarrow> ws_own_step s t \<or> ws_stop_step s t"

text \<open>
  \<open>Stop\<close> of the WebSocket server waits for its client: a client that has connected and is silent
  keeps it in \<^verbatim>\<open>join\<close>, since closing the listening descriptor does not end the \<^verbatim>\<open>recv\<close> of the connection.
  The state is reachable from a fresh server; neither the thread nor \<open>Stop\<close> has a step in it.
  Once the client hangs up, both go on by themselves and \<open>Stop\<close> returns with an empty registry.
\<close>

theorem ws_stop_waits_for_client:
  "\<exists>s t u. ws_step\<^sup>*\<^sup>* ws_initial s \<and> wsstopping s = Joining \<and> wsphase s = C_recv 1 \<and> {t. ws_alone s t} = {}
     \<and> ws_peer_step s t \<and> ws_alone\<^sup>*\<^sup>* t u \<and> wsstopping u = Stopped \<and> clients (wserver u) = {||}"
proof -
  let ?srv = "(wserver ws_initial)\<lparr>nextClientId := 2, ws_running := False\<rparr>"
  let ?st = "\<lambda>ids p q ks. ws_initial\<lparr>wserver := ?srv\<lparr>clients := ids\<rparr>, wsphase := p, connections := 1, wsstopping := q,
      calls_made := Call_connect 1 # ks\<rparr>"
  let ?l = "[Call_disconnect 1]"
  let ?s1 = "?st {|1|} (C_recv 1) Flag_cleared []" and ?s = "?st {|1|} (C_recv 1) Joining []" and ?t = "?st {|1|} (C_leave 1) Joining []"
  let ?t1 = "?st {||} (C_left 1) Joining []" and ?t2 = "?st {||} A_test Joining ?l" and ?t3 = "?st {||} A_ended Joining ?l"
  let ?u = "?st {||} A_ended Stopped ?l"
  note d = ws_silent_def ws_initial_def ws_thread_def Start_ws_def fresh_WebSocketServer_def loopback_def Let_def
  have 1: "ws_stop_step ws_silent ?s1" using ws_stop_step.clear [of ws_silent] by (simp add: d)
  have 2: "ws_stop_step ?s1 ?s" using ws_stop_step.close [of ?s1] by (simp add: d)
  have 3: "ws_peer_step ?s ?t" using ws_peer_step.hang_up [of ?s 1] by (simp add: d)
  have 4: "ws_alone ?t ?t1" using ws_own_step.leave [of ?t 1] by (simp add: d ws_alone_def)
  have 5: "ws_alone ?t1 ?t2" using ws_own_step.left [of ?t1 1] by (simp add: d ws_alone_def run_handler_def)
  have 6: "ws_alone ?t2 ?t3" using ws_own_step.test [of ?t2] by (simp add: d ws_alone_def)
  have 7: "ws_alone ?t3 ?u" using ws_stop_step.join [of ?t3] by (simp add: d ws_alone_def)
  have "ws_step\<^sup>*\<^sup>* ws_silent ?s" by (rule two_steps [of ws_step, OF ws_step.stop [OF 1] ws_step.stop [OF 2]])
  then have reached: "ws_step\<^sup>*\<^sup>* ws_initial ?s" by (rule rtranclp_trans [OF ws_silent_reached])
  have stuck: "{t. ws_alone ?s t} = {}" by (auto simp: ws_alone_def elim: ws_own_stepE ws_stop_stepE)
  have "ws_alone\<^sup>*\<^sup>* ?t ?t3" by (rule three_steps [of ws_alone, OF 4 5 6])
  then have "ws_alone\<^sup>*\<^sup>* ?t ?u" using 7 by (rule rtranclp.rtrancl_into_rtrancl)
  moreover have "wsstopping ?s = Joining" "wsphase ?s = C_recv 1" "wsstopping ?u = Stopped" "clients (wserver ?u) = {||}" by simp_all
  ultimately show ?thesis using reached stuck 3 by blast
qed

subsection \<open>The RCON thread\<close>

text \<open>
  The same shape with a shorter session: one \<^verbatim>\<open>recv\<close>, and the command handler if something came and a
  handler is set.
\<close>

datatype rcon_phase = R_test | R_select | R_recv | R_ended | R_terminated

record 'c RconThread =
  rserver :: "'c RconServer"
  rphase :: rcon_phase
  rstopping :: stopping
  rstate :: 'c
  rsessions :: nat

definition rcon_session :: "byte list \<Rightarrow> 'c RconThread \<Rightarrow> 'c RconThread" where
  "rcon_session bytes s = (case (bytes, commandHandler (rserver s)) of
     (b # bs, Some h) \<Rightarrow> (case h ''help'' (rstate s) of (c, ex) \<Rightarrow>
       s\<lparr>rstate := c, rphase := (if ex = None then R_test else R_terminated)\<rparr>)
   | _ \<Rightarrow> s\<lparr>rphase := R_test\<rparr>)"

inductive rcon_own_step :: "'c RconThread \<Rightarrow> 'c RconThread \<Rightarrow> bool" where
  test: "rphase s = R_test \<Longrightarrow> rcon_own_step s (s\<lparr>rphase := (if listening (rserver s) then R_select else R_ended)\<rparr>)"
| timeout: "rphase s = R_select \<Longrightarrow> rcon_own_step s (s\<lparr>rphase := R_test\<rparr>)"

inductive rcon_peer_step :: "'c RconThread \<Rightarrow> 'c RconThread \<Rightarrow> bool" where
  arrive: "rphase s = R_select \<Longrightarrow> rstopping s \<in> {Not_stopped, Flag_cleared} \<Longrightarrow>
    rcon_peer_step s (s\<lparr>rphase := R_recv, rsessions := rsessions s + 1\<rparr>)"
| talk: "rphase s = R_recv \<Longrightarrow> length bytes \<le> 1024 \<Longrightarrow> rcon_peer_step s (rcon_session bytes s)"

inductive rcon_stop_step :: "'c RconThread \<Rightarrow> 'c RconThread \<Rightarrow> bool" where
  clear: "rstopping s = Not_stopped \<Longrightarrow>
    rcon_stop_step s (s\<lparr>rserver := rserver s\<lparr>listening := False\<rparr>, rstopping := Flag_cleared\<rparr>)"
| close: "rstopping s = Flag_cleared \<Longrightarrow> rcon_stop_step s (s\<lparr>rstopping := Joining\<rparr>)"
| join: "rstopping s = Joining \<Longrightarrow> rphase s = R_ended \<Longrightarrow> rcon_stop_step s (s\<lparr>rstopping := Stopped\<rparr>)"

definition rcon_alone :: "'c RconThread \<Rightarrow> 'c RconThread \<Rightarrow> bool" where
  "rcon_alone s t \<longleftrightarrow> rcon_own_step s t \<or> rcon_stop_step s t"

definition rcon_step :: "'c RconThread \<Rightarrow> 'c RconThread \<Rightarrow> bool" where
  "rcon_step s t \<longleftrightarrow> rcon_alone s t \<or> rcon_peer_step s t"

inductive_cases rcon_own_stepE: "rcon_own_step s s'"
inductive_cases rcon_peer_stepE: "rcon_peer_step s s'"
inductive_cases rcon_stop_stepE: "rcon_stop_step s s'"

definition rcon_thread :: "'c RconServer \<Rightarrow> 'c \<Rightarrow> 'c RconThread" where
  "rcon_thread srv c = \<lparr>rserver = srv, rphase = R_test, rstopping = Not_stopped, rstate = c, rsessions = 0\<rparr>"

text \<open>The session is that of \<open>HandleClient\<close> over a network that delivers the bytes.\<close>

lemma rcon_session_is_HandleClient:
  assumes "net_recv net fd 1024 n = (n', Some bytes)" "HandleClient_rcon net fd (rserver s) n (rstate s) = (n1, c, out, ex)"
  shows "rstate (rcon_session bytes s) = c \<and> rphase (rcon_session bytes s) = (if ex = None then R_test else R_terminated)"
  using assms by (auto simp: HandleClient_rcon_def rcon_session_def split: list.splits option.splits prod.splits)

definition may_connect :: "rcon_phase \<Rightarrow> nat" where
  "may_connect p = (if p = R_select then 1 else 0)"

lemma rcon_session_fixed [simp]:
  "rserver (rcon_session bytes s) = rserver s" "rstopping (rcon_session bytes s) = rstopping s"
  "rsessions (rcon_session bytes s) = rsessions s" "may_connect (rphase (rcon_session bytes s)) = 0"
  by (simp_all add: rcon_session_def may_connect_def split: list.split option.split prod.split)

interpretation rcon_end: winding_down rcon_step "\<lambda>s. \<not> listening (rserver s)" rsessions "\<lambda>s. may_connect (rphase s)"
  by unfold_locales
    (auto simp: rcon_step_def rcon_alone_def may_connect_def [of R_test] may_connect_def [of R_select] may_connect_def [of R_ended]
       may_connect_def [of R_recv] elim!: rcon_own_stepE rcon_peer_stepE rcon_stop_stepE split: if_splits)

definition rcon_initial :: "nat RconThread" where
  "rcon_initial = rcon_thread (fst (Start_rcon loopback (fresh_RconServer 25575) (wire []))) 0"

text \<open>
  \<open>Stop\<close> of the RCON server waits for its client: a client that has connected and sends nothing
  keeps it in \<^verbatim>\<open>join\<close>; the state is reachable, in it neither the thread nor \<open>Stop\<close> has a step, and no
  further session ever begins. Whatever the client then sends, or when it hangs up, \<open>Stop\<close> returns.
\<close>

theorem rcon_stop_waits_for_client:
  "\<exists>s. rcon_step\<^sup>*\<^sup>* rcon_initial s \<and> rstopping s = Joining \<and> rphase s = R_recv \<and> {t. rcon_alone s t} = {}
     \<and> rsessions ` {t. rcon_step\<^sup>*\<^sup>* s t} = {1}
     \<and> (\<forall>bytes. \<exists>u. rcon_alone\<^sup>*\<^sup>* (rcon_session bytes s) u \<and> rstopping u = Stopped)"
proof -
  let ?srv = "\<lparr>port = 25575, password = [], listening = False, serverFd = 3, commandHandler = None\<rparr> :: nat RconServer"
  let ?st = "\<lambda>l p q n. \<lparr>rserver = ?srv\<lparr>listening := l\<rparr>, rphase = p, rstopping = q, rstate = 0, rsessions = n\<rparr>"
  let ?s1 = "?st True R_select Not_stopped 0" and ?s2 = "?st True R_recv Not_stopped 1" and ?s3 = "?st False R_recv Flag_cleared 1"
  let ?s = "?st False R_recv Joining 1" and ?t = "?st False R_test Joining 1" and ?v = "?st False R_ended Joining 1" and ?u = "?st False R_ended Stopped 1"
  have i: "rcon_initial = ?st True R_test Not_stopped 0"
    by (simp add: rcon_initial_def rcon_thread_def Start_rcon_def fresh_RconServer_def loopback_def)
  have 1: "rcon_step rcon_initial ?s1" using rcon_own_step.test [of rcon_initial] by (simp add: i rcon_step_def rcon_alone_def)
  have 2: "rcon_step ?s1 ?s2" using rcon_peer_step.arrive [of ?s1] by (simp add: rcon_step_def)
  have 3: "rcon_step ?s2 ?s3" using rcon_stop_step.clear [of ?s2] by (simp add: rcon_step_def rcon_alone_def)
  have 4: "rcon_step ?s3 ?s" using rcon_stop_step.close [of ?s3] by (simp add: rcon_step_def rcon_alone_def)
  have 5: "rcon_alone ?t ?v" using rcon_own_step.test [of ?t] by (simp add: rcon_alone_def)
  have 6: "rcon_alone ?v ?u" using rcon_stop_step.join [of ?v] by (simp add: rcon_alone_def)
  have "rcon_step\<^sup>*\<^sup>* rcon_initial ?s3" by (rule three_steps [of rcon_step, OF 1 2 3])
  then have reached: "rcon_step\<^sup>*\<^sup>* rcon_initial ?s" using 4 by (rule rtranclp.rtrancl_into_rtrancl)
  have stuck: "{t. rcon_alone ?s t} = {}" by (auto simp: rcon_alone_def elim: rcon_own_stepE rcon_stop_stepE)
  have grow: "rsessions s \<le> rsessions t" if "rcon_step\<^sup>*\<^sup>* s t" for s t :: "nat RconThread"
    using that by (induction rule: rtranclp_induct)
      (auto simp: rcon_step_def rcon_alone_def elim!: rcon_own_stepE rcon_peer_stepE rcon_stop_stepE)
  have "rsessions t = 1" if "rcon_step\<^sup>*\<^sup>* ?s t" for t
    using rcon_end.started_bound [OF that] grow [OF that] by (simp add: may_connect_def)
  then have one: "rsessions ` {t. rcon_step\<^sup>*\<^sup>* ?s t} = {1}" by (auto intro!: image_eqI [of _ _ ?s])
  have s: "rcon_session bytes ?s = ?t" for bytes by (simp add: rcon_session_def split: list.split)
  have "rcon_alone\<^sup>*\<^sup>* ?t ?u" by (rule two_steps [of rcon_alone, OF 5 6])
  then have last: "\<forall>bytes. \<exists>u. rcon_alone\<^sup>*\<^sup>* (rcon_session bytes ?s) u \<and> rstopping u = Stopped"
    unfolding s by (intro allI exI [of _ ?u] conjI) simp_all
  have "rstopping ?s = Joining" "rphase ?s = R_recv" by simp_all
  with reached stuck one last show ?thesis by blast
qed

subsection \<open>Stopping twice\<close>

text \<open>
  \<open>Stop\<close> keeps the number of the descriptor: called again, as the destructor does after an explicit
  call, it closes the number once more, which may by then belong to another file of the process.
\<close>

lemma stop_twice_closes_twice:
  assumes "Stop_rcon loopback srv s = (srv1, s1)" "Stop_rcon loopback srv1 s1 = (srv2, s2)" "serverFd srv \<ge> 0"
  shows "closed_fds s2 = closed_fds s @ [serverFd srv, serverFd srv]"
  using assms by (auto simp: Stop_rcon_def)

lemma stop_ws_twice_closes_twice:
  assumes "Stop_ws loopback srv s = (srv1, s1)" "Stop_ws loopback srv1 s1 = (srv2, s2)" "ws_serverFd srv \<ge> 0"
  shows "closed_fds s2 = closed_fds s @ [ws_serverFd srv, ws_serverFd srv]"
  using assms by (auto simp: Stop_ws_def)

end
