(* ===== verification/MCX_Http.thy ===== *)
theory MCX_Http
  imports MCX_Net MCX_Strings
begin

text \<open>
  The HTTP client (\<^verbatim>\<open>core/http_client.cpp\<close>): the parts of a request (URL, request text,
  response), \<^verbatim>\<open>PerformRequest\<close> over the socket interface, and the queue of requests with its
  worker.
\<close>

subsection \<open>Requests and responses\<close>

record HttpRequest =
  rq_method :: string
  rq_url :: string
  rq_headers :: "(string \<times> string) list"
  rq_body :: string

definition default_HttpRequest :: HttpRequest where
  "default_HttpRequest = \<lparr>rq_method = ''GET'', rq_url = [], rq_headers = [], rq_body = []\<rparr>"

text \<open>The response headers of the struct are never filled in.\<close>

record HttpResponse =
  statusCode :: int
  rs_body :: string
  rs_headers :: "(string \<times> string) list"
  success :: bool

definition default_HttpResponse :: HttpResponse where
  "default_HttpResponse = \<lparr>statusCode = 0, rs_body = [], rs_headers = [], success = False\<rparr>"

subsection \<open>The URL\<close>

text \<open>Host, port and path; \<open>None\<close> without a scheme. The scheme itself is not looked at.\<close>

definition parse_url :: "string \<Rightarrow> (string \<times> int \<times> string) result option" where
  "parse_url url = (case str_find url ''://'' 0 of
     None \<Rightarrow> None
   | Some protoEnd \<Rightarrow>
       let hostStart = protoEnd + 3; pathStart = str_find url ''/'' hostStart in
       Some (rbind (substr url hostStart (case pathStart of None \<Rightarrow> length url | Some p \<Rightarrow> p - hostStart)) (\<lambda>host.
         rbind (case pathStart of None \<Rightarrow> Inr ''/'' | Some p \<Rightarrow> substr url p (length url)) (\<lambda>path.
           (case str_find host '':'' 0 of
              None \<Rightarrow> Inr (host, 80, path)
            | Some portSep \<Rightarrow>
                rbind (rbind (substr host (portSep + 1) (length host)) stoi) (\<lambda>port.
                  rbind (substr host 0 portSep) (\<lambda>h. Inr (h, port, path))))))))"

text \<open>\<^verbatim>\<open>htons\<close> of an \<^verbatim>\<open>int\<close> keeps the low 16 bits.\<close>

definition port16 :: "int \<Rightarrow> nat" where
  "port16 port = nat (port mod 65536)"

definition request_text :: "HttpRequest \<Rightarrow> string \<Rightarrow> string \<Rightarrow> string" where
  "request_text req host path = rq_method req @ '' '' @ path @ '' HTTP/1.1'' @ crlf @ ''Host: '' @ host @ crlf
     @ ''Connection: close'' @ crlf @ concat (map (\<lambda>(key, val). key @ '': '' @ val @ crlf) (rq_headers req)) @ crlf @ rq_body req"

subsection \<open>The response\<close>

text \<open>
  Each piece is appended as a C string, up to its first null character. The loop ends when
  \<^verbatim>\<open>recv\<close> gives nothing; it has fuel.
\<close>

definition c_string :: "byte list \<Rightarrow> string" where
  "c_string bs = map char_of_byte (takeWhile (\<lambda>b. b \<noteq> 0) bs)"

fun receive_all :: "nat \<Rightarrow> 'n Net \<Rightarrow> int \<Rightarrow> 'n \<Rightarrow> ('n \<times> string) option" where
  "receive_all 0 net sock s = None"
| "receive_all (Suc fuel) net sock s = (case net_recv net sock 4095 s of
     (s, None) \<Rightarrow> Some (s, [])
   | (s, Some bs) \<Rightarrow> if bs = [] then Some (s, [])
       else map_option (\<lambda>(s, rest). (s, c_string bs @ rest)) (receive_all fuel net sock s))"

text \<open>
  \<^verbatim>\<open>sscanf\<close> with \<^verbatim>\<open>"HTTP/%*s %d"\<close>: the value stored, \<open>None\<close> if the match fails before. A
  number that is no \<^verbatim>\<open>int\<close> is undefined.
\<close>

definition scan_status :: "string \<Rightarrow> int option result" where
  "scan_status line =
     (if \<not> prefix ''HTTP/'' line then Inr None
      else let t = dropWhile is_space (drop 5 line); rest = dropWhile (\<lambda>c. \<not> is_space c) t in
        if t = [] then Inr None
        else (case stoi rest of
          Inr v \<Rightarrow> Inr (Some v)
        | Inl (Exception Out_of_range) \<Rightarrow> Inl Undefined
        | Inl _ \<Rightarrow> Inr None))"

definition parse_response :: "string \<Rightarrow> HttpResponse result" where
  "parse_response data = (case str_find data crlf 0 of
     None \<Rightarrow> Inr default_HttpResponse
   | Some statusEnd \<Rightarrow>
       rbind (substr data 0 statusEnd) (\<lambda>statusLine.
       rbind (scan_status statusLine) (\<lambda>code.
         let status = (case code of None \<Rightarrow> 0 | Some v \<Rightarrow> v) in
         rbind (case str_find data (crlf @ crlf) 0 of
                  None \<Rightarrow> Inr []
                | Some bodyStart \<Rightarrow> substr data (bodyStart + 4) (length data)) (\<lambda>body.
           Inr (default_HttpResponse\<lparr>statusCode := status, rs_body := body, success := 200 \<le> status \<and> status < 300\<rparr>)))))"

definition PerformRequest :: "nat \<Rightarrow> 'n Net \<Rightarrow> HttpRequest \<Rightarrow> 'n \<Rightarrow> ('n \<times> HttpResponse result) option" where
  "PerformRequest fuel net req s = (case parse_url (rq_url req) of
     None \<Rightarrow> Some (s, Inr default_HttpResponse)
   | Some (Inl e) \<Rightarrow> Some (s, Inl e)
   | Some (Inr (host, port, path)) \<Rightarrow>
       (case net_resolve net host s of
          (s, None) \<Rightarrow> Some (s, Inr default_HttpResponse)
        | (s, Some addr) \<Rightarrow> (case net_socket net s of (s, sock) \<Rightarrow>
            if sock < 0 then Some (s, Inr default_HttpResponse)
            else (case net_connect net sock addr (port16 port) s of
              (s, False) \<Rightarrow> Some (net_close net sock s, Inr default_HttpResponse)
            | (s, True) \<Rightarrow> (case net_send net sock (map byte_of (request_text req host path)) s of (s, _) \<Rightarrow>
                map_option (\<lambda>(s, data). (net_close net sock s, parse_response data)) (receive_all fuel net sock s))))))"

subsection \<open>The queue and its worker\<close>

type_synonym 'c http_callback = "(HttpResponse \<Rightarrow> 'c effect) option"

record 'c HttpClient =
  http_queue :: "(HttpRequest \<times> 'c http_callback) list"
  http_running :: bool

definition fresh_HttpClient :: "'c HttpClient" where
  "fresh_HttpClient = \<lparr>http_queue = [], http_running = False\<rparr>"

definition Start_http :: "'c HttpClient \<Rightarrow> 'c HttpClient" where
  "Start_http cl = cl\<lparr>http_running := True\<rparr>"

definition Stop_http :: "'c HttpClient \<Rightarrow> 'c HttpClient" where
  "Stop_http cl = cl\<lparr>http_running := False\<rparr>"

definition Request :: "HttpRequest \<Rightarrow> 'c http_callback \<Rightarrow> 'c HttpClient \<Rightarrow> 'c HttpClient" where
  "Request req callback cl = cl\<lparr>http_queue := http_queue cl @ [(req, callback)]\<rparr>"

definition Get :: "string \<Rightarrow> 'c http_callback \<Rightarrow> 'c HttpClient \<Rightarrow> 'c HttpClient" where
  "Get url callback cl = Request (default_HttpRequest\<lparr>rq_method := ''GET'', rq_url := url\<rparr>) callback cl"

definition Post :: "string \<Rightarrow> string \<Rightarrow> 'c http_callback \<Rightarrow> 'c HttpClient \<Rightarrow> 'c HttpClient" where
  "Post url body callback cl = Request (default_HttpRequest\<lparr>rq_method := ''POST'', rq_url := url, rq_body := body,
     rq_headers := [(''Content-Length'', show_nat (length body))]\<rparr>) callback cl"

definition take_request :: "'c HttpClient \<Rightarrow> ((HttpRequest \<times> 'c http_callback) \<times> 'c HttpClient) option" where
  "take_request cl = (case http_queue cl of [] \<Rightarrow> None | p # ps \<Rightarrow> Some (p, cl\<lparr>http_queue := ps\<rparr>))"

text \<open>
  One round of the worker: \<open>None\<close> when it waits or has been stopped; otherwise the request is
  performed and its callback called (an exception of either ends the process).
\<close>

definition WorkerLoop_round :: "nat \<Rightarrow> 'n Net \<Rightarrow> 'c HttpClient \<Rightarrow> 'n \<Rightarrow> 'c \<Rightarrow> ('c HttpClient \<times> 'n \<times> 'c \<times> unit result) option" where
  "WorkerLoop_round fuel net cl s c =
     (if \<not> http_running cl then None
      else case take_request cl of
        None \<Rightarrow> None
      | Some ((req, callback), cl) \<Rightarrow>
          (case PerformRequest fuel net req s of
             None \<Rightarrow> None
           | Some (s, Inl e) \<Rightarrow> Some (cl, s, c, Inl e)
           | Some (s, Inr response) \<Rightarrow> (case callback of
               None \<Rightarrow> Some (cl, s, c, Inr ())
             | Some f \<Rightarrow> (case f response c of
                 (c, None) \<Rightarrow> Some (cl, s, c, Inr ())
               | (c, Some e) \<Rightarrow> Some (cl, s, c, Inl (Exception e))))))"

interpretation http_fifo: fifo "\<lambda>p. Request (fst p) (snd p)" take_request http_queue
  by unfold_locales (auto simp: Request_def take_request_def)

subsection \<open>Lemmas\<close>

lemma str_find_pass:
  "p = a # q \<Longrightarrow> a \<notin> set u \<Longrightarrow> str_find (w @ u @ p @ v) p (length w) = Some (length w + length u)"
  using str_find_skip by blast

lemma str_find_absent: "p = a # q \<Longrightarrow> a \<notin> set u \<Longrightarrow> str_find (w @ u) p (length w) = None"
  by (simp add: str_find_def find_from_absent_char)

text \<open>The form of the URLs that the client understands.\<close>

definition plain_host :: "string \<Rightarrow> bool" where
  "plain_host host \<longleftrightarrow> CHR '':'' \<notin> set host \<and> CHR ''/'' \<notin> set host"

lemma parse_url_parts:
  assumes "CHR '':'' \<notin> set scheme" "CHR ''/'' \<notin> set hp"
  shows "parse_url (scheme @ ''://'' @ hp @ CHR ''/'' # path) =
    Some (case str_find hp '':'' 0 of
            None \<Rightarrow> Inr (hp, 80, CHR ''/'' # path)
          | Some i \<Rightarrow> rbind (stoi (drop (Suc i) hp)) (\<lambda>port. Inr (take i hp, port, CHR ''/'' # path)))"
proof -
  let ?url = "scheme @ ''://'' @ hp @ CHR ''/'' # path"
  have 1: "str_find ?url ''://'' 0 = Some (length scheme)"
    using str_find_pass [of "''://''" "CHR '':''" "''//''" scheme "[]" "hp @ CHR ''/'' # path"] assms(1) by simp
  have 2: "str_find ?url ''/'' (length scheme + 3) = Some (length scheme + 3 + length hp)"
    using str_find_pass [of "''/''" "CHR ''/''" "[]" hp "scheme @ ''://''" path] assms(2)
    by (simp add: numeral_3_eq_3)
  have host: "substr ?url (length scheme + 3) (length hp) = Inr hp"
    by (simp add: substr_def)
  have path: "substr ?url (length scheme + 3 + length hp) (length ?url) = Inr (CHR ''/'' # path)"
    using substr_rest [of "scheme @ ''://'' @ hp" "length scheme + 3 + length hp" "CHR ''/'' # path" "length ?url"] by simp
  have port: "i + length '':'' \<le> length hp" if "str_find hp '':'' 0 = Some i" for i
    using str_find_Some [OF that] by simp
  show ?thesis
    unfolding parse_url_def 1 2 option.case Let_def using host path port
    by (auto simp: substr_def split: option.split)
qed

lemma parse_url_default_port:
  assumes "CHR '':'' \<notin> set scheme" "plain_host host"
  shows "parse_url (scheme @ ''://'' @ host @ CHR ''/'' # path) = Some (Inr (host, 80, CHR ''/'' # path))"
  using assms parse_url_parts [of scheme host path] str_find_absent [of "'':''" "CHR '':''" "[]" host "[]"]
  by (simp add: plain_host_def)

lemma parse_url_port:
  assumes "CHR '':'' \<notin> set scheme" "plain_host host" "in_int (int port)"
  shows "parse_url (scheme @ ''://'' @ (host @ '':'' @ show_nat port) @ CHR ''/'' # path) = Some (Inr (host, int port, CHR ''/'' # path))"
proof -
  have "CHR ''/'' \<notin> set (show_nat port)"
    using show_nat_digits [of "CHR ''/''" port] by (auto simp: is_digit_def)
  then have "CHR ''/'' \<notin> set (host @ '':'' @ show_nat port)"
    using assms(2) by (simp add: plain_host_def)
  moreover have "str_find (host @ '':'' @ show_nat port) '':'' 0 = Some (length host)"
    using str_find_pass [of "'':''" "CHR '':''" "[]" host "[]" "show_nat port"] assms(2) by (simp add: plain_host_def)
  ultimately show ?thesis
    using parse_url_parts [OF assms(1), of "host @ '':'' @ show_nat port" path] assms(3) by simp
qed

lemma byte_of_zero: "byte_of c = 0 \<Longrightarrow> c = CHR 0x00"
proof -
  assume "byte_of c = 0"
  then have "unat (byte_of c) = 0" by simp
  then have "(of_char c :: nat) = of_char (CHR 0x00)" by simp
  then show ?thesis by (simp only: of_char_eq_iff)
qed

lemma c_string_text: "CHR 0x00 \<notin> set t \<Longrightarrow> c_string (map byte_of t) = t"
proof -
  assume "CHR 0x00 \<notin> set t"
  then have "takeWhile (\<lambda>b. b \<noteq> 0) (map byte_of t) = map byte_of t"
    by (intro takeWhile_all) (auto dest: byte_of_zero)
  then show ?thesis by (simp only: c_string_def map_char_of_byte_of)
qed

lemma receive_all_loopback:
  "inbox s = map byte_of t \<Longrightarrow> CHR 0x00 \<notin> set t \<Longrightarrow> length t < fuel \<Longrightarrow>
   receive_all fuel loopback sock s = Some (s\<lparr>inbox := []\<rparr>, t)"
proof (induction fuel arbitrary: s t)
  case 0
  then show ?case by simp
next
  case (Suc fuel)
  show ?case
  proof (cases "t = []")
    case True
    with Suc.prems show ?thesis by simp
  next
    case False
    let ?s = "s\<lparr>inbox := drop 4095 (inbox s)\<rparr>"
    have "length (drop 4095 t) < fuel"
      using Suc.prems(3) False by (cases t) auto
    then have "receive_all fuel loopback sock ?s = Some (?s\<lparr>inbox := []\<rparr>, drop 4095 t)"
      using Suc.prems False by (intro Suc.IH) (auto simp: drop_map dest: in_set_dropD)
    moreover have "c_string (take 4095 (inbox s)) = take 4095 t"
      using Suc.prems by (simp add: take_map c_string_text del: map_map) (metis c_string_text in_set_takeD take_map)
    ultimately show ?thesis using Suc.prems False by simp
  qed
qed

text \<open>A response: a status line, header lines and a body.\<close>

definition CR :: char where "CR = CHR 0x0D"

definition response_text :: "nat \<Rightarrow> string \<Rightarrow> string list \<Rightarrow> string \<Rightarrow> string" where
  "response_text code reason hs body = (''HTTP/1.1 '' @ show_nat code @ '' '' @ reason)
     @ concat (map (\<lambda>l. crlf @ l) hs) @ crlf @ crlf @ body"

definition header_lines :: "string list \<Rightarrow> bool" where
  "header_lines hs \<longleftrightarrow> (\<forall>l \<in> set hs. l \<noteq> [] \<and> CR \<notin> set l)"

lemma find_header_end:
  "header_lines hs \<Longrightarrow> find_from (crlf @ crlf) (concat (map (\<lambda>l. crlf @ l) hs) @ crlf @ crlf @ body) i =
     Some (i + length (concat (map (\<lambda>l. crlf @ l) hs)))"
proof (induction hs arbitrary: i)
  case Nil
  show ?case
    using find_from_here [of "crlf @ crlf" "crlf @ crlf @ body" i] by simp
next
  case (Cons l hs)
  then obtain x xs where l: "l = x # xs" "x \<noteq> CR" "CR \<notin> set xs"
    by (cases l) (auto simp: header_lines_def)
  let ?rest = "concat (map (\<lambda>l. crlf @ l) hs) @ crlf @ crlf @ body"
  have "find_from (crlf @ crlf) (CHR 0x0D # (CHR 0x0A # l) @ ?rest) i =
      find_from (crlf @ crlf) ((CHR 0x0A # l) @ ?rest) (Suc i)"
    using l by (intro find_from_step) (simp add: crlf_def CR_def)
  also have "\<dots> = find_from (crlf @ crlf) ?rest (Suc i + length (CHR 0x0A # l))"
    using l by (intro find_from_pass [where a = CR and q = "CHR 0x0A # crlf"]) (auto simp: crlf_def CR_def)
  also have "\<dots> = Some (Suc i + length (CHR 0x0A # l) + length (concat (map (\<lambda>l. crlf @ l) hs)))"
    using Cons by (intro Cons.IH) (simp add: header_lines_def)
  finally show ?case by (simp add: crlf_def)
qed

lemma scan_status_line:
  "in_int (int code) \<Longrightarrow> scan_status (''HTTP/1.1 '' @ show_nat code @ '' '' @ reason) = Inr (Some (int code))"
proof -
  assume c: "in_int (int code)"
  have d: "drop 5 (''HTTP/1.1 '' @ show_nat code @ '' '' @ reason) = ''1.1 '' @ show_nat code @ '' '' @ reason"
    by simp
  have s: "dropWhile is_space (''1.1 '' @ r) = ''1.1 '' @ r" "dropWhile (\<lambda>c. \<not> is_space c) (''1.1 '' @ r) = CHR '' '' # r" for r
    by (simp_all add: is_space_def)
  have "stoi (CHR '' '' # show_nat code @ '' '' @ reason) = stoi (show_nat code @ '' '' @ reason)"
    by (simp add: stoi_def is_space_def)
  also have "\<dots> = Inr (int code)"
    using c by (intro stoi_show_nat_append) (simp_all add: is_digit_def)
  finally show ?thesis
    unfolding scan_status_def d s Let_def by simp
qed

lemma parse_response_text:
  assumes "in_int (int code)" "CR \<notin> set reason" "header_lines hs"
  shows "parse_response (response_text code reason hs body) =
    Inr \<lparr>statusCode = int code, rs_body = body, rs_headers = [], success = 200 \<le> code \<and> code < 300\<rparr>"
proof -
  let ?line = "''HTTP/1.1 '' @ show_nat code @ '' '' @ reason"
  let ?hs = "concat (map (\<lambda>l. crlf @ l) hs)"
  let ?data = "response_text code reason hs body"
  have "CR \<notin> set (show_nat code)"
    using show_nat_digits [of CR code] by (auto simp: is_digit_def CR_def)
  with assms(2) have line: "CR \<notin> set ?line" by (simp add: CR_def)
  have data: "?data = ?line @ ?hs @ crlf @ crlf @ body" by (simp only: response_text_def append_assoc)
  obtain r where r: "?hs @ crlf @ crlf @ body = crlf @ r"
    by (cases hs) auto
  have 1: "str_find ?data crlf 0 = Some (length ?line)"
    unfolding data r using str_find_pass [of crlf CR "[CHR 0x0A]" ?line "[]" r] line by (simp add: crlf_def CR_def)
  have "find_from (crlf @ crlf) ?data 0 = find_from (crlf @ crlf) (?hs @ crlf @ crlf @ body) (0 + length ?line)"
    unfolding data using line by (intro find_from_pass [where a = CR and q = "CHR 0x0A # crlf"]) (simp_all add: crlf_def CR_def)
  then have 2: "str_find ?data (crlf @ crlf) 0 = Some (length ?line + length ?hs)"
    using find_header_end [OF assms(3), of body "length ?line"] by (simp add: str_find_def)
  have sub: "substr ?data 0 (length ?line) = Inr ?line"
    unfolding data by (simp add: substr_def)
  have bod: "substr ?data (length ?line + length ?hs + 4) (length ?data) = Inr body"
  proof -
    have "?data = (?line @ ?hs @ crlf @ crlf) @ body" by (simp only: data append_assoc)
    moreover have "length (?line @ ?hs @ crlf @ crlf) = length ?line + length ?hs + 4"
      by (simp only: length_append length_crlf)
    moreover have "length body \<le> length ?data" by (simp add: data)
    ultimately show ?thesis by (metis substr_rest)
  qed
  show ?thesis
    unfolding parse_response_def 1 2 option.case sub rbind_simps scan_status_line [OF assms(1)] bod Let_def
    by (simp add: default_HttpResponse_def)
qed

subsection \<open>Properties\<close>

text \<open>
  C34. A request from end to end: for a URL with a host, an optional port and a path, a server
  that answers with a status line, headers and a body without null characters gives a response
  with that status and exactly that body, successful for the codes 200 to 299, after the client
  has sent exactly the HTTP/1.1 request; the socket is closed. Enough fuel is one more than the
  length of the answer. The scheme does not matter: \<^verbatim>\<open>https\<close> is a plain request to port 80.
\<close>

theorem http_request_end_to_end:
  assumes "CHR '':'' \<notin> set scheme" "plain_host host" "in_int (int code)" "CR \<notin> set reason" "header_lines hs"
    and "answer = response_text code reason hs body" "CHR 0x00 \<notin> set answer" "length answer < fuel"
    and "rq_url req = scheme @ ''://'' @ host @ CHR ''/'' # path"
  shows "parse_url (rq_url req) = Some (Inr (host, 80, CHR ''/'' # path))
    \<and> PerformRequest fuel loopback req (wire (map byte_of answer)) =
      Some (\<lparr>inbox = [], outbox = map byte_of (request_text req host (CHR ''/'' # path)), closed_fds = [3]\<rparr>,
        Inr \<lparr>statusCode = int code, rs_body = body, rs_headers = [], success = 200 \<le> code \<and> code < 300\<rparr>)"
proof -
  have url: "parse_url (rq_url req) = Some (Inr (host, 80, CHR ''/'' # path))"
    using parse_url_default_port [OF assms(1,2)] assms(9) by simp
  let ?s = "(wire (map byte_of answer))\<lparr>outbox := map byte_of (request_text req host (CHR ''/'' # path))\<rparr>"
  have "receive_all fuel loopback 3 ?s = Some (?s\<lparr>inbox := []\<rparr>, answer)"
    using assms(7,8) by (intro receive_all_loopback) simp_all
  then show ?thesis
    using parse_response_text [OF assms(3-5), of body] assms(6)
    by (simp add: PerformRequest_def url wire_def)
qed

definition sample_request :: HttpRequest where
  "sample_request = default_HttpRequest\<lparr>rq_url := ''https://api/v''\<rparr>"

theorem http_request_end_to_end_witness:
  "\<exists>s. PerformRequest 100 loopback sample_request (wire (map byte_of (response_text 200 ''OK'' [''A: b''] ''{}''))) =
     Some (s, Inr \<lparr>statusCode = 200, rs_body = ''{}'', rs_headers = [], success = True\<rparr>)"
proof -
  let ?a = "response_text 200 ''OK'' [''A: b''] ''{}''"
  have h: "CHR '':'' \<notin> set ''https''" "plain_host ''api''" "in_int (int 200)" "CR \<notin> set ''OK''" "header_lines [''A: b'']"
    "?a = ?a" "length ?a < 100" "rq_url sample_request = ''https'' @ ''://'' @ ''api'' @ CHR ''/'' # ''v''"
    by (simp_all add: plain_host_def int_range_defs CR_def header_lines_def sample_request_def default_HttpRequest_def
        response_text_def crlf_def show_nat.simps)
  have z: "CHR 0x00 \<notin> set ?a" by code_simp
  from http_request_end_to_end [OF h(1-6) z h(7,8)] show ?thesis by simp
qed

text \<open>
  An explicit port that is no number ends the process: \<^verbatim>\<open>stoi\<close> throws in the worker
  thread, whatever the network does; and a port is taken modulo 65536.
\<close>

theorem http_bad_port_throws:
  assumes "CHR '':'' \<notin> set scheme" "plain_host host" "CHR ''/'' \<notin> set port" "takeWhile is_digit (snd (stoi_sign (dropWhile is_space port))) = []"
    and "rq_url req = scheme @ ''://'' @ (host @ '':'' @ port) @ CHR ''/'' # path"
  shows "PerformRequest fuel net req s = Some (s, Inl (Exception Invalid_argument)) \<and> port16 (65536 + 80) = 80"
proof -
  have find: "str_find (host @ '':'' @ port) '':'' 0 = Some (length host)"
    using str_find_pass [of "'':''" "CHR '':''" "[]" host "[]" port] assms(2) by (simp add: plain_host_def)
  have "stoi port = Inl (Exception Invalid_argument)"
    using assms(4) by (cases "stoi_sign (dropWhile is_space port)") (simp add: stoi_def)
  then show ?thesis
    using parse_url_parts [OF assms(1), of "host @ '':'' @ port" path] find assms(2,3,5)
    by (simp add: PerformRequest_def plain_host_def port16_def)
qed

theorem http_bad_port_throws_witness:
  "PerformRequest 5 loopback (default_HttpRequest\<lparr>rq_url := ''http://h:x/''\<rparr>) (wire []) = Some (wire [], Inl (Exception Invalid_argument))"
proof -
  have h: "CHR '':'' \<notin> set ''http''" "plain_host ''h''" "CHR ''/'' \<notin> set ''x''"
    "takeWhile is_digit (snd (stoi_sign (dropWhile is_space ''x''))) = []"
    "rq_url (default_HttpRequest\<lparr>rq_url := ''http://h:x/''\<rparr>) = ''http'' @ ''://'' @ (''h'' @ '':'' @ ''x'') @ CHR ''/'' # []"
    by (simp_all add: plain_host_def stoi_sign_def is_space_def is_digit_def default_HttpRequest_def)
  from http_bad_port_throws [OF h, of 5 loopback "wire []"] show ?thesis by (rule conjunct1)
qed

end
