(* ===== verification/MCX_HttpWorker.thy ===== *)
theory MCX_HttpWorker
  imports MCX_Http MCX_Stopping
begin

text \<open>
  The worker thread of the HTTP client (\<^verbatim>\<open>core/http_client.cpp\<close>) beside its clients: the loop
  of \<^verbatim>\<open>WorkerLoop\<close> in the steps that its condition variable makes, requests and \<open>Stop\<close> from other
  threads at any point. A request and its callback are one step; an exception of either leaves the
  thread and ends the process.
\<close>

subsection \<open>State\<close>

type_synonym 'c pending_request = "HttpRequest \<times> 'c http_callback"

text \<open>
  Where the worker stands: before the test of the flag; in \<^verbatim>\<open>wait\<close> with the lock, before and after
  its predicate was false; blocked; past the wait, before the second test of the flag; before it takes
  the front of the queue; serving; ended; the process ended.
\<close>

datatype 'c http_phase = H_test | H_predicate | H_blocking | H_waiting | H_second_test | H_take
  | H_serving "'c pending_request" | H_ended | H_terminated

text \<open>Two ghost fields record what was requested and what was served.\<close>

record ('n, 'c) HttpWorker =
  hclient :: "'c HttpClient"
  hphase :: "'c http_phase"
  hstopping :: stopping
  hnet :: 'n
  hstate :: 'c
  requested :: "'c pending_request list"
  served :: "'c pending_request list"

subsection \<open>Steps\<close>

definition http_notified :: "'c http_phase \<Rightarrow> 'c http_phase" where
  "http_notified p = (case p of H_waiting \<Rightarrow> H_predicate | _ \<Rightarrow> p)"

definition http_holds_lock :: "'c http_phase \<Rightarrow> bool" where
  "http_holds_lock p \<longleftrightarrow> p \<in> {H_predicate, H_blocking, H_second_test, H_take}"

definition submit_request :: "'c pending_request \<Rightarrow> ('n, 'c) HttpWorker \<Rightarrow> ('n, 'c) HttpWorker" where
  "submit_request p s = s\<lparr>hclient := Request (fst p) (snd p) (hclient s), requested := requested s @ [p],
     hphase := http_notified (hphase s)\<rparr>"

text \<open>The request and then the callback, as in the loop; the fuel is that of the reading of the answer.\<close>

definition serve :: "nat \<Rightarrow> 'n Net \<Rightarrow> 'c pending_request \<Rightarrow> ('n, 'c) HttpWorker \<Rightarrow> ('n, 'c) HttpWorker option" where
  "serve fuel net p s = (case PerformRequest fuel net (fst p) (hnet s) of
     None \<Rightarrow> None
   | Some (n, Inl e) \<Rightarrow> Some (s\<lparr>hnet := n, hphase := H_terminated\<rparr>)
   | Some (n, Inr response) \<Rightarrow> Some (case snd p of
       None \<Rightarrow> s\<lparr>hnet := n, hphase := H_test, served := served s @ [p]\<rparr>
     | Some f \<Rightarrow> (case f response (hstate s) of
         (c, None) \<Rightarrow> s\<lparr>hnet := n, hstate := c, hphase := H_test, served := served s @ [p]\<rparr>
       | (c, Some e) \<Rightarrow> s\<lparr>hnet := n, hstate := c, hphase := H_terminated\<rparr>)))"

inductive http_worker_step :: "'n Net \<Rightarrow> ('n, 'c) HttpWorker \<Rightarrow> ('n, 'c) HttpWorker \<Rightarrow> bool" for net where
  test: "hphase s = H_test \<Longrightarrow>
    http_worker_step net s (s\<lparr>hphase := (if http_running (hclient s) then H_predicate else H_ended)\<rparr>)"
| predicate: "hphase s = H_predicate \<Longrightarrow>
    http_worker_step net s (s\<lparr>hphase := (if http_queue (hclient s) \<noteq> [] \<or> \<not> http_running (hclient s) then H_second_test else H_blocking)\<rparr>)"
| block: "hphase s = H_blocking \<Longrightarrow> http_worker_step net s (s\<lparr>hphase := H_waiting\<rparr>)"
| second_test: "hphase s = H_second_test \<Longrightarrow>
    http_worker_step net s (s\<lparr>hphase := (if \<not> http_running (hclient s) then H_ended else H_take)\<rparr>)"
| take_front: "hphase s = H_take \<Longrightarrow> take_request (hclient s) = Some (p, cl) \<Longrightarrow>
    http_worker_step net s (s\<lparr>hclient := cl, hphase := H_serving p\<rparr>)"
| serve: "hphase s = H_serving p \<Longrightarrow> serve fuel net p s = Some s' \<Longrightarrow> http_worker_step net s s'"

inductive http_stop_step :: "('n, 'c) HttpWorker \<Rightarrow> ('n, 'c) HttpWorker \<Rightarrow> bool" where
  clear: "hstopping s = Not_stopped \<Longrightarrow> http_stop_step s (s\<lparr>hclient := Stop_http (hclient s), hstopping := Flag_cleared\<rparr>)"
| notify: "hstopping s = Flag_cleared \<Longrightarrow> http_stop_step s (s\<lparr>hphase := http_notified (hphase s), hstopping := Joining\<rparr>)"
| join: "hstopping s = Joining \<Longrightarrow> hphase s = H_ended \<Longrightarrow> http_stop_step s (s\<lparr>hstopping := Stopped\<rparr>)"

text \<open>A blocked worker may also wake up without any reason.\<close>

definition http_spurious :: "('n, 'c) HttpWorker \<Rightarrow> ('n, 'c) HttpWorker \<Rightarrow> bool" where
  "http_spurious s s' \<longleftrightarrow> s' = s\<lparr>hphase := http_notified (hphase s)\<rparr>"

inductive http_step :: "'n Net \<Rightarrow> ('n, 'c) HttpWorker \<Rightarrow> ('n, 'c) HttpWorker \<Rightarrow> bool" for net where
  request: "\<not> http_holds_lock (hphase s) \<Longrightarrow> http_step net s (submit_request p s)"
| worker: "http_worker_step net s s' \<Longrightarrow> http_step net s s'"
| stop: "http_stop_step s s' \<Longrightarrow> http_step net s s'"
| wake: "http_spurious s s' \<Longrightarrow> http_step net s s'"

inductive_cases http_stepE: "http_step net s s'"
inductive_cases http_worker_stepE: "http_worker_step net s s'"
inductive_cases http_stop_stepE: "http_stop_step s s'"

definition http_start :: "('n, 'c) HttpWorker \<Rightarrow> bool" where
  "http_start s \<longleftrightarrow> hclient s = Start_http fresh_HttpClient \<and> hphase s = H_test \<and> hstopping s = Not_stopped
     \<and> requested s = [] \<and> served s = []"

subsection \<open>The invariant\<close>

text \<open>The request that is being served, also when it ended the process.\<close>

fun in_service :: "'c http_phase \<Rightarrow> 'c pending_request list" where
  "in_service (H_serving p) = [p]"
| "in_service _ = []"

definition http_inv :: "('n, 'c) HttpWorker \<Rightarrow> bool" where
  "http_inv s \<longleftrightarrow> (hphase s \<noteq> H_terminated \<longrightarrow> requested s = served s @ in_service (hphase s) @ http_queue (hclient s))
     \<and> (hphase s = H_terminated \<longrightarrow> (\<exists>p. requested s = served s @ p # http_queue (hclient s)))
     \<and> (hphase s = H_take \<longrightarrow> http_queue (hclient s) \<noteq> [])
     \<and> (hphase s = H_second_test \<longrightarrow> http_queue (hclient s) \<noteq> [] \<or> \<not> http_running (hclient s))
     \<and> (http_running (hclient s) \<longleftrightarrow> hstopping s = Not_stopped)
     \<and> (hstopping s = Stopped \<longrightarrow> hphase s = H_ended)"

lemma http_notified_simps [simp]:
  "http_notified p = H_serving q \<longleftrightarrow> p = H_serving q" "http_notified p = H_take \<longleftrightarrow> p = H_take"
  "http_notified p = H_second_test \<longleftrightarrow> p = H_second_test" "http_notified p = H_ended \<longleftrightarrow> p = H_ended"
  "http_notified p = H_terminated \<longleftrightarrow> p = H_terminated" "in_service (http_notified p) = in_service p"
  by (cases p; simp add: http_notified_def)+

lemma serve_outcome:
  "serve fuel net p s = Some s' \<Longrightarrow> hclient s' = hclient s \<and> hstopping s' = hstopping s \<and> requested s' = requested s
     \<and> (hphase s' = H_test \<and> served s' = served s @ [p] \<or> hphase s' = H_terminated \<and> served s' = served s)"
  by (auto simp: serve_def split: option.splits sum.splits prod.splits)

lemma http_worker_step_inv: "http_worker_step net s s' \<Longrightarrow> http_inv s \<Longrightarrow> http_inv s'"
proof (induction rule: http_worker_step.induct)
  case (serve s p fuel s')
  with serve_outcome [OF serve(2)] show ?case by (auto simp: http_inv_def)
qed (auto simp: http_inv_def take_request_def split: list.splits)

lemma http_stop_step_inv: "http_stop_step s s' \<Longrightarrow> http_inv s \<Longrightarrow> http_inv s'"
  by (induction rule: http_stop_step.induct) (auto simp: http_inv_def Stop_http_def)

lemma http_step_inv: "http_step net s s' \<Longrightarrow> http_inv s \<Longrightarrow> http_inv s'"
proof (induction rule: http_step.induct)
  case (request s p)
  then show ?case by (auto simp: http_inv_def submit_request_def Request_def http_holds_lock_def)
next
  case (wake s s')
  then show ?case by (auto simp: http_inv_def http_spurious_def)
qed (auto intro: http_worker_step_inv http_stop_step_inv)

lemma http_start_inv: "http_start s \<Longrightarrow> http_inv s"
  by (simp add: http_start_def http_inv_def Start_http_def fresh_HttpClient_def)

interpretation http_machine: invariant_steps http_start "http_step net" http_inv for net
  by unfold_locales (auto intro: http_start_inv http_step_inv)

text \<open>Once the worker is over it stays so, and nothing is served.\<close>

lemma http_step_over:
  "http_step net s s' \<Longrightarrow> hphase s = H_ended \<or> hphase s = H_terminated \<Longrightarrow>
     served s' = served s \<and> hstate s' = hstate s \<and> hphase s' = hphase s"
  by (erule http_stepE)
    (auto elim!: http_worker_stepE http_stop_stepE simp: submit_request_def http_spurious_def http_notified_def)

lemma http_over_steps:
  "(http_step net)\<^sup>*\<^sup>* s s' \<Longrightarrow> hphase s = H_ended \<or> hphase s = H_terminated \<Longrightarrow>
     served s' = served s \<and> hstate s' = hstate s \<and> hphase s' = hphase s"
  by (induction rule: rtranclp_induct) (use http_step_over in metis)+

text \<open>
  C20. The worker of the HTTP client in every reachable state: what was requested is what was served, in
  the same order and each at most once, then the request in service (the one whose exception ended the
  process, when one did), then the queue; the front of the queue is only taken when there is one, although
  the loop does not test it after the wait. A \<open>Stop\<close> that has returned has ended the worker, and
  once the worker has ended nothing more is ever served: the requests still queued are dropped, and their
  callbacks are never called.
\<close>

theorem http_worker_serves_in_order:
  assumes "http_start s0" "(http_step net)\<^sup>*\<^sup>* s0 s"
  shows "(if hphase s = H_terminated then \<exists>p. requested s = served s @ p # http_queue (hclient s)
      else requested s = served s @ in_service (hphase s) @ http_queue (hclient s))
    \<and> (hphase s = H_take \<longrightarrow> take_request (hclient s) \<noteq> None) \<and> (hstopping s = Stopped \<longrightarrow> hphase s = H_ended)
    \<and> (hphase s \<in> {H_ended, H_terminated} \<longrightarrow> (\<forall>s' \<in> {s'. (http_step net)\<^sup>*\<^sup>* s s'}.
        served s' = served s \<and> hstate s' = hstate s \<and> hphase s' = hphase s))"
proof -
  have inv: "http_inv s" by (rule http_machine.reachable_inv [OF assms])
  have order: "if hphase s = H_terminated then \<exists>p. requested s = served s @ p # http_queue (hclient s)
      else requested s = served s @ in_service (hphase s) @ http_queue (hclient s)"
    using inv by (simp add: http_inv_def)
  have take: "hphase s = H_take \<longrightarrow> take_request (hclient s) \<noteq> None"
    using inv by (auto simp: http_inv_def take_request_def split: list.splits)
  have stop: "hstopping s = Stopped \<longrightarrow> hphase s = H_ended" using inv by (simp add: http_inv_def)
  have over: "hphase s \<in> {H_ended, H_terminated} \<longrightarrow> (\<forall>s' \<in> {s'. (http_step net)\<^sup>*\<^sup>* s s'}.
      served s' = served s \<and> hstate s' = hstate s \<and> hphase s' = hphase s)"
  proof (intro impI ballI)
    fix s' assume "hphase s \<in> {H_ended, H_terminated}" "s' \<in> {s'. (http_step net)\<^sup>*\<^sup>* s s'}"
    then show "served s' = served s \<and> hstate s' = hstate s \<and> hphase s' = hphase s" using http_over_steps [of net s s'] by simp
  qed
  show ?thesis by (intro conjI order take stop over)
qed

definition http_initial :: "(Wire, nat) HttpWorker" where
  "http_initial = \<lparr>hclient = Start_http fresh_HttpClient, hphase = H_test, hstopping = Not_stopped, hnet = wire [], hstate = 0,
     requested = [], served = []\<rparr>"

lemma http_initial_start: "http_start http_initial"
  by (simp add: http_start_def http_initial_def)

text \<open>A request without a scheme fails at once and is served all the same.\<close>

definition bad_request :: "nat pending_request" where
  "bad_request = (default_HttpRequest\<lparr>rq_url := ''nowhere''\<rparr>, Some (\<lambda>r n. (n + 1, None)))"

lemma bad_request_served:
  "hphase s = H_serving bad_request \<Longrightarrow>
     http_worker_step loopback s (s\<lparr>hstate := hstate s + 1, hphase := H_test, served := served s @ [bad_request]\<rparr>)"
proof (rule http_worker_step.serve)
  have "str_find ''nowhere'' ''://'' 0 = None" by code_simp
  then have "PerformRequest 1 loopback (default_HttpRequest\<lparr>rq_url := ''nowhere''\<rparr>) n = Some (n, Inr default_HttpResponse)" for n
    by (simp add: PerformRequest_def parse_url_def)
  then show "serve 1 loopback bad_request s = Some (s\<lparr>hstate := hstate s + 1, hphase := H_test, served := served s @ [bad_request]\<rparr>)"
    by (simp add: serve_def bad_request_def)
qed

theorem http_worker_serves_in_order_witness:
  "\<exists>s. (http_step loopback)\<^sup>*\<^sup>* http_initial s \<and> served s = [bad_request] \<and> hstate s = 1
     \<and> requested s = served s @ in_service (hphase s) @ http_queue (hclient s)"
proof -
  let ?s1 = "submit_request bad_request http_initial"
  let ?s2 = "?s1\<lparr>hphase := H_predicate\<rparr>"
  let ?s3 = "?s1\<lparr>hphase := H_second_test\<rparr>"
  let ?s4 = "?s1\<lparr>hphase := H_take\<rparr>"
  let ?s5 = "?s1\<lparr>hclient := Start_http fresh_HttpClient, hphase := H_serving bad_request\<rparr>"
  let ?s6 = "?s5\<lparr>hstate := hstate ?s5 + 1, hphase := H_test, served := served ?s5 @ [bad_request]\<rparr>"
  note defs = http_initial_def submit_request_def Request_def Start_http_def fresh_HttpClient_def http_notified_def
  have 1: "http_step loopback http_initial ?s1" by (rule http_step.request) (simp add: http_initial_def http_holds_lock_def)
  have 2: "http_worker_step loopback ?s1 ?s2" using http_worker_step.test [of ?s1 loopback] by (simp add: defs)
  have 3: "http_worker_step loopback ?s2 ?s3" using http_worker_step.predicate [of ?s2 loopback] by (simp add: defs)
  have 4: "http_worker_step loopback ?s3 ?s4" using http_worker_step.second_test [of ?s3 loopback] by (simp add: defs)
  have 5: "http_worker_step loopback ?s4 ?s5"
    using http_worker_step.take_front [of ?s4 bad_request "Start_http fresh_HttpClient" loopback] by (simp add: defs take_request_def)
  have 6: "http_worker_step loopback ?s5 ?s6" by (rule bad_request_served) simp
  have "(http_step loopback)\<^sup>*\<^sup>* http_initial ?s3" by (rule three_steps [of "http_step loopback", OF 1 http_step.worker [OF 2] http_step.worker [OF 3]])
  also have "(http_step loopback)\<^sup>*\<^sup>* ?s3 ?s6"
    by (rule three_steps [of "http_step loopback", OF http_step.worker [OF 4] http_step.worker [OF 5] http_step.worker [OF 6]])
  finally have steps: "(http_step loopback)\<^sup>*\<^sup>* http_initial ?s6" .
  have f: "served ?s6 = [bad_request]" "hstate ?s6 = 1" "hphase ?s6 \<noteq> H_terminated" by (simp_all add: defs)
  have "requested ?s6 = served ?s6 @ in_service (hphase ?s6) @ http_queue (hclient ?s6)"
    using http_worker_serves_in_order [OF http_initial_start steps, THEN conjunct1] by (rule if_not_P [OF f(3), THEN iffD1])
  with steps f show ?thesis by blast
qed

subsection \<open>Stopping\<close>

definition may_take :: "'c http_phase \<Rightarrow> nat" where
  "may_take p = (if p = H_take then 1 else 0)"

text \<open>The requests whose service has begun.\<close>

definition begun :: "('n, 'c) HttpWorker \<Rightarrow> nat" where
  "begun s = length (served s) + length (in_service (hphase s))"

lemma http_worker_step_begun:
  "http_worker_step net s t \<Longrightarrow> \<not> http_running (hclient s) \<Longrightarrow>
     \<not> http_running (hclient t) \<and> begun t + may_take (hphase t) \<le> begun s + may_take (hphase s)"
proof (induction rule: http_worker_step.induct)
  case (serve s p fuel s')
  with serve_outcome [OF serve(2)] show ?case by (auto simp: begun_def may_take_def)
qed (auto simp: begun_def may_take_def take_request_def split: list.splits)

lemma http_step_begun:
  "http_step net s t \<Longrightarrow> \<not> http_running (hclient s) \<Longrightarrow>
     \<not> http_running (hclient t) \<and> begun t + may_take (hphase t) \<le> begun s + may_take (hphase s)"
  by (erule http_stepE)
    (auto dest: http_worker_step_begun elim!: http_stop_stepE
      simp: begun_def may_take_def submit_request_def Request_def Stop_http_def http_spurious_def)

interpretation http_end: winding_down "http_step net" "\<lambda>s. \<not> http_running (hclient s)" begun "\<lambda>s. may_take (hphase s)" for net
  by unfold_locales (blast dest: http_step_begun)+

text \<open>
  Once \<open>Stop\<close> has cleared the flag, the service of at most one more request begins, whatever
  happens afterwards, and none unless the worker had passed its second test of the flag. The other requests
  are abandoned: their callbacks are never called.
\<close>

theorem http_stop_begins_at_most_one:
  assumes "http_start s0" "(http_step net)\<^sup>*\<^sup>* s0 s" "hstopping s \<noteq> Not_stopped" "(http_step net)\<^sup>*\<^sup>* s s'"
  shows "length (served s') + length (in_service (hphase s'))
    \<le> length (served s) + length (in_service (hphase s)) + (if hphase s = H_take then 1 else 0)"
proof -
  have "\<not> http_running (hclient s)" using http_machine.reachable_inv [OF assms(1,2)] assms(3) by (simp add: http_inv_def)
  from http_end.started_bound [OF assms(4) this] show ?thesis by (simp add: begun_def may_take_def)
qed

text \<open>A request that is queued when the client is stopped before its worker has looked: it is never served.\<close>

theorem http_stop_begins_at_most_one_witness:
  "\<exists>s. (http_step loopback)\<^sup>*\<^sup>* http_initial s \<and> http_queue (hclient s) = [bad_request]
     \<and> (\<forall>s' \<in> {s'. (http_step loopback)\<^sup>*\<^sup>* s s'}. served s' = [])"
proof -
  let ?s1 = "submit_request bad_request http_initial"
  let ?s2 = "?s1\<lparr>hclient := Stop_http (hclient ?s1), hstopping := Flag_cleared\<rparr>"
  note defs = http_initial_def submit_request_def Request_def Start_http_def fresh_HttpClient_def http_notified_def Stop_http_def
  have 1: "http_step loopback http_initial ?s1" by (rule http_step.request) (simp add: http_initial_def http_holds_lock_def)
  have 2: "http_step loopback ?s1 ?s2" by (rule http_step.stop, rule http_stop_step.clear) (simp add: defs)
  have steps: "(http_step loopback)\<^sup>*\<^sup>* http_initial ?s2" by (rule two_steps [of "http_step loopback", OF 1 2])
  have "served s' = []" if "(http_step loopback)\<^sup>*\<^sup>* ?s2 s'" for s'
    using http_stop_begins_at_most_one [OF http_initial_start steps _ that] by (simp add: defs)
  moreover have "http_queue (hclient ?s2) = [bad_request]" by (simp add: defs)
  ultimately show ?thesis using steps by blast
qed

text \<open>
  \<open>Stop\<close> of the HTTP client can hang: when it clears the flag and notifies after the worker has found
  its predicate false and before it blocks, the notification is lost. The state is reachable from
  a fresh client; in it \<open>Stop\<close> joins a worker that waits, and but for another request (or an
  unfounded wake-up) nothing can ever happen again.
\<close>

theorem http_stop_can_hang:
  "\<exists>s. (http_step loopback)\<^sup>*\<^sup>* http_initial s \<and> hstopping s = Joining \<and> hphase s = H_waiting
     \<and> {s'. http_step loopback s s' \<and> requested s' = requested s \<and> \<not> http_spurious s s'} = {}"
proof -
  let ?p = "\<lambda>q. http_initial\<lparr>hphase := q\<rparr>"
  let ?s1 = "?p H_blocking\<lparr>hclient := Stop_http (hclient http_initial), hstopping := Flag_cleared\<rparr>"
  let ?s2 = "?s1\<lparr>hstopping := Joining\<rparr>"
  let ?s = "?s2\<lparr>hphase := H_waiting\<rparr>"
  note d = http_initial_def Start_http_def fresh_HttpClient_def http_notified_def
  have 1: "http_worker_step loopback http_initial (?p H_predicate)" using http_worker_step.test [of http_initial loopback] by (simp add: d)
  have 2: "http_worker_step loopback (?p H_predicate) (?p H_blocking)" using http_worker_step.predicate [of "?p H_predicate" loopback] by (simp add: d)
  have 3: "http_stop_step (?p H_blocking) ?s1" using http_stop_step.clear [of "?p H_blocking"] by (simp add: d)
  have 4: "http_stop_step ?s1 ?s2" using http_stop_step.notify [of ?s1] by (simp add: d)
  have 5: "http_worker_step loopback ?s2 ?s" by (rule http_worker_step.block) (simp add: d)
  have "(http_step loopback)\<^sup>*\<^sup>* http_initial ?s1"
    by (rule three_steps [of "http_step loopback", OF http_step.worker [OF 1] http_step.worker [OF 2] http_step.stop [OF 3]])
  also have "(http_step loopback)\<^sup>*\<^sup>* ?s1 ?s" by (rule two_steps [of "http_step loopback", OF http_step.stop [OF 4] http_step.worker [OF 5]])
  finally have steps: "(http_step loopback)\<^sup>*\<^sup>* http_initial ?s" .
  have w: "\<not> http_worker_step loopback ?s s'" for s' by (auto elim: http_worker_stepE)
  have t: "\<not> http_stop_step ?s s'" for s' by (auto elim: http_stop_stepE)
  have "\<not> (http_step loopback ?s s' \<and> requested s' = requested ?s \<and> \<not> http_spurious ?s s')" for s'
  proof
    assume a: "http_step loopback ?s s' \<and> requested s' = requested ?s \<and> \<not> http_spurious ?s s'"
    then have "http_step loopback ?s s'" by simp
    then show False
    proof (cases rule: http_step.cases)
      case (request p)
      with a show False by (simp add: submit_request_def)
    qed (use w t a in blast)+
  qed
  then have none: "{s'. http_step loopback ?s s' \<and> requested s' = requested ?s \<and> \<not> http_spurious ?s s'} = {}" by blast
  have f: "hstopping ?s = Joining" "hphase ?s = H_waiting" by simp_all
  from steps f none show ?thesis by blast
qed

end
