(* ===== verification/MCX_Updates.thy ===== *)
theory MCX_Updates
  imports MCX_Http
begin

text \<open>
  The update checker (\<^verbatim>\<open>core/update_checker.cpp\<close>): versions and their order, the choice of
  a download, the search for fields in the answer of the release server, and the check over
  the HTTP client.
\<close>

subsection \<open>Versions\<close>

definition version_part :: "string \<Rightarrow> int" where
  "version_part token = (case stoi token of Inr n \<Rightarrow> n | Inl _ \<Rightarrow> 0)"

definition strip_v :: "string \<Rightarrow> string" where
  "strip_v version = (case version of [] \<Rightarrow> [] | c # cs \<Rightarrow> if c = CHR ''v'' \<or> c = CHR ''V'' then cs else version)"

definition ParseVersionParts :: "string \<Rightarrow> int list" where
  "ParseVersionParts version = map version_part (split_on (CHR ''.'') (strip_v version))"

definition resize :: "nat \<Rightarrow> int list \<Rightarrow> int list" where
  "resize n xs = take n xs @ replicate (n - length xs) 0"

fun compare_parts :: "int list \<Rightarrow> int list \<Rightarrow> bool" where
  "compare_parts (a # as) (b # bs) = (if a > b then True else if a < b then False else compare_parts as bs)"
| "compare_parts _ _ = False"

definition IsVersionNewer :: "string \<Rightarrow> string \<Rightarrow> bool" where
  "IsVersionNewer candidate current =
     (let a = ParseVersionParts candidate; b = ParseVersionParts current; n = max (length a) (length b)
      in compare_parts (resize n a) (resize n b))"

text \<open>A version as the sequence of its parts, continued with zeros, and the order of the sequences.\<close>

definition part :: "int list \<Rightarrow> nat \<Rightarrow> int" where
  "part xs i = (if i < length xs then xs ! i else 0)"

definition greater_parts :: "(nat \<Rightarrow> int) \<Rightarrow> (nat \<Rightarrow> int) \<Rightarrow> bool" where
  "greater_parts f g \<longleftrightarrow> (\<exists>i. g i < f i \<and> (\<forall>j < i. f j = g j))"

lemma greater_parts_irrefl: "\<not> greater_parts f f"
  by (simp add: greater_parts_def)

lemma greater_parts_trans:
  assumes "greater_parts f g" "greater_parts g h"
  shows "greater_parts f h"
proof -
  obtain i where i: "g i < f i" "\<forall>j < i. f j = g j" using assms(1) by (auto simp: greater_parts_def)
  obtain k where k: "h k < g k" "\<forall>j < k. g j = h j" using assms(2) by (auto simp: greater_parts_def)
  have "h (min i k) < f (min i k)" "\<forall>j < min i k. f j = h j"
    using i k by (cases i k rule: linorder_cases; auto simp: min_def)+
  then show ?thesis by (auto simp: greater_parts_def)
qed

lemma greater_parts_total: "f \<noteq> g \<Longrightarrow> greater_parts f g \<or> greater_parts g f"
proof -
  assume "f \<noteq> g"
  then obtain i where "f i \<noteq> g i" by (auto simp: fun_eq_iff)
  define k where "k = (LEAST i. f i \<noteq> g i)"
  have k: "f k \<noteq> g k" unfolding k_def by (rule LeastI) fact
  have "\<forall>j < k. f j = g j" unfolding k_def by (auto dest: not_less_Least)
  with k show ?thesis
    by (cases "f k" "g k" rule: linorder_cases) (auto simp: greater_parts_def)
qed

lemma compare_parts_iff:
  "length as = length bs \<Longrightarrow> compare_parts as bs \<longleftrightarrow> greater_parts (part as) (part bs)"
proof (induction as bs rule: list_induct2)
  case Nil
  then show ?case by (simp add: greater_parts_irrefl)
next
  case (Cons a as b bs)
  have part: "part (x # xs) i = (case i of 0 \<Rightarrow> x | Suc k \<Rightarrow> part xs k)" for x xs i
    by (simp add: part_def split: nat.split)
  consider "b < a" | "a < b" | "a = b" by linarith
  then show ?case
  proof cases
    case 1
    then have "greater_parts (part (a # as)) (part (b # bs))"
      by (auto simp: greater_parts_def part intro: exI [of _ 0])
    with 1 show ?thesis by simp
  next
    case 2
    then have "\<not> greater_parts (part (a # as)) (part (b # bs))"
      by (auto simp: greater_parts_def part split: nat.splits)
    with 2 show ?thesis by simp
  next
    case 3
    have "greater_parts (part (a # as)) (part (b # bs)) \<longleftrightarrow> greater_parts (part as) (part bs)"
    proof
      assume "greater_parts (part (a # as)) (part (b # bs))"
      then obtain i where i: "part (b # bs) i < part (a # as) i" "\<forall>j < i. part (a # as) j = part (b # bs) j"
        by (auto simp: greater_parts_def)
      with 3 obtain k where k: "i = Suc k" by (cases i) (auto simp: part)
      with i have "part bs k < part as k" by (simp add: part)
      moreover have "part as j = part bs j" if "j < k" for j
        using i(2) [rule_format, of "Suc j"] that k by (simp add: part)
      ultimately show "greater_parts (part as) (part bs)" by (auto simp: greater_parts_def)
    next
      assume "greater_parts (part as) (part bs)"
      then obtain k where k: "part bs k < part as k" "\<forall>j < k. part as j = part bs j"
        by (auto simp: greater_parts_def)
      then have "part (b # bs) (Suc k) < part (a # as) (Suc k)"
        "\<forall>j < Suc k. part (a # as) j = part (b # bs) j"
        using 3 by (auto simp: part split: nat.split)
      then show "greater_parts (part (a # as)) (part (b # bs))" by (auto simp: greater_parts_def)
    qed
    with 3 Cons.IH show ?thesis by simp
  qed
qed

lemma part_resize: "length xs \<le> n \<Longrightarrow> part (resize n xs) = part xs"
  by (auto simp: part_def resize_def fun_eq_iff nth_append)

lemma length_resize [simp]: "length (resize n xs) = n"
  by (simp add: resize_def)

definition version_parts :: "string \<Rightarrow> nat \<Rightarrow> int" where
  "version_parts v = part (ParseVersionParts v)"

lemma IsVersionNewer_iff: "IsVersionNewer a b \<longleftrightarrow> greater_parts (version_parts a) (version_parts b)"
  by (simp add: IsVersionNewer_def Let_def compare_parts_iff part_resize version_parts_def)

text \<open>
  The version order is a strict weak order: no version is newer than itself, the relation
  is transitive (so it has no cycles), and two versions of which neither is newer have the same
  parts up to trailing zeros; malformed parts count as zero.
\<close>

lemma version_order:
  "\<not> IsVersionNewer a a
   \<and> (IsVersionNewer a b \<and> IsVersionNewer b c \<longrightarrow> IsVersionNewer a c)
   \<and> (\<not> IsVersionNewer a b \<and> \<not> IsVersionNewer b a \<longleftrightarrow> version_parts a = version_parts b)"
  unfolding IsVersionNewer_iff
  using greater_parts_irrefl greater_parts_trans greater_parts_total by metis

text \<open>Versions as they are written.\<close>

fun join_dots :: "string list \<Rightarrow> string" where
  "join_dots [] = []"
| "join_dots [x] = x"
| "join_dots (x # y # xs) = x @ CHR ''.'' # join_dots (y # xs)"

definition show_version :: "string \<Rightarrow> nat list \<Rightarrow> string" where
  "show_version v ns = v @ join_dots (map show_nat ns)"

lemma no_dot_show_nat: "CHR ''.'' \<notin> set (show_nat n)"
  using show_nat_digits [of "CHR ''.''" n] by (auto simp: is_digit_def)

lemma split_join_dots: "split_on (CHR ''.'') (join_dots (map show_nat ns)) = map show_nat ns"
proof (induction ns rule: induct_list012)
  case 1
  then show ?case by simp
next
  case (2 n)
  then show ?case by (simp add: split_on_piece no_dot_show_nat)
next
  case (3 m n ns)
  then show ?case by (simp add: split_on_sep no_dot_show_nat)
qed

lemma strip_v_numbers: "strip_v (join_dots (map show_nat ns)) = join_dots (map show_nat ns)"
proof (cases ns)
  case (Cons n ms)
  obtain c cs where c: "show_nat n = c # cs" by (cases "show_nat n") auto
  then have "is_digit c" using show_nat_digits [of c n] by simp
  then have "c \<noteq> CHR ''v''" "c \<noteq> CHR ''V''" by (auto simp: is_digit_def)
  with c Cons show ?thesis by (cases ms) (simp_all add: strip_v_def)
qed (simp add: strip_v_def)

lemma ParseVersionParts_show:
  "v \<in> {[], ''v'', ''V''} \<Longrightarrow> \<forall>n \<in> set ns. in_int (int n) \<Longrightarrow> ParseVersionParts (show_version v ns) = map int ns"
proof -
  assume v: "v \<in> {[], ''v'', ''V''}" and n: "\<forall>n \<in> set ns. in_int (int n)"
  have "strip_v (show_version v ns) = join_dots (map show_nat ns)"
    using v strip_v_numbers [of ns] by (auto simp: show_version_def) (simp_all add: strip_v_def)
  with n show ?thesis by (simp add: ParseVersionParts_def split_join_dots version_part_def)
qed

definition number_at :: "nat list \<Rightarrow> nat \<Rightarrow> nat" where
  "number_at ns i = (if i < length ns then ns ! i else 0)"

text \<open>
  C30. Released versions, written as decimal parts of 32 bits with or without a leading \<^verbatim>\<open>v\<close> or
  \<^verbatim>\<open>V\<close>: the parser gives back the parts, and the candidate is newer exactly when, at the first
  place where the two differ (missing parts being zero), its part is the greater number; so
  0.10 is newer than 0.9, and 1.0 is not newer than 1.
\<close>

theorem version_numbers_compare:
  assumes "v \<in> {[], ''v'', ''V''}" "w \<in> {[], ''v'', ''V''}" "\<forall>n \<in> set as \<union> set bs. in_int (int n)"
  shows "ParseVersionParts (show_version v as) = map int as
    \<and> (IsVersionNewer (show_version v as) (show_version w bs) \<longleftrightarrow>
        (\<exists>i. number_at bs i < number_at as i \<and> (\<forall>j < i. number_at as j = number_at bs j)))"
proof -
  have "part (map int ns) i = int (number_at ns i)" for ns i by (simp add: part_def number_at_def)
  with assms show ?thesis by (simp add: IsVersionNewer_iff version_parts_def ParseVersionParts_show greater_parts_def)
qed

theorem version_numbers_compare_witness:
  "ParseVersionParts ''v0.10'' = [0, 10] \<and> IsVersionNewer ''v0.10'' ''0.9.9'' \<and> \<not> IsVersionNewer ''0.9.9'' ''v0.10''"
proof -
  have h: "''v'' \<in> {[], ''v'', ''V''}" "[] \<in> {[], ''v'', ''V''}" by simp_all
  have n: "\<forall>n \<in> set [0, 10] \<union> set [0, 9, 9 :: nat]. in_int (int n)" "\<forall>n \<in> set [0, 9, 9 :: nat] \<union> set [0, 10]. in_int (int n)"
    by (simp_all add: int_range_defs)
  have s: "show_version ''v'' [0, 10] = ''v0.10''" "show_version [] [0, 9, 9] = ''0.9.9''" by code_simp+
  have a: "number_at [0, 9, 9 :: nat] 1 < number_at [0, 10] 1 \<and> (\<forall>j < 1. number_at [0, 10 :: nat] j = number_at [0, 9, 9] j)"
    by (simp add: number_at_def)
  have b: "\<not> (\<exists>i. number_at [0, 10 :: nat] i < number_at [0, 9, 9] i \<and> (\<forall>j < i. number_at [0, 9, 9 :: nat] j = number_at [0, 10] j))"
  proof (rule notI, elim exE conjE)
    fix i assume i: "number_at [0, 10 :: nat] i < number_at [0, 9, 9] i"
      and j: "\<forall>j < i. number_at [0, 9, 9 :: nat] j = number_at [0, 10] j"
    show False
    proof (cases "i \<le> 1")
      case True
      with i show False by (auto simp: number_at_def le_Suc_eq)
    next
      case False
      with j [rule_format, of 1] show False by (simp add: number_at_def)
    qed
  qed
  from version_numbers_compare [OF h n(1)] version_numbers_compare [OF h(2,1) n(2)] a b show ?thesis
    unfolding s by (simp del: One_nat_def) blast
qed

subsection \<open>The answer of the release server\<close>

record ReleaseInfo =
  version :: string
  downloadUrl :: string
  releaseNotes :: string
  updateAvailable :: bool

definition default_ReleaseInfo :: ReleaseInfo where
  "default_ReleaseInfo = \<lparr>version = [], downloadUrl = [], releaseNotes = [], updateAvailable = False\<rparr>"

definition quote :: string where "quote = [CHR 0x22]"

definition asset_key :: string where
  "asset_key = quote @ ''browser_download_url'' @ quote @ '':'' @ quote"

text \<open>The text between the end of a key and the next quotation mark.\<close>

definition quoted_at :: "string \<Rightarrow> nat \<Rightarrow> (string \<times> nat) option" where
  "quoted_at json start = (case str_find json quote start of
     None \<Rightarrow> None
   | Some e \<Rightarrow> Some (take (e - start) (drop start json), e))"

function asset_urls :: "string \<Rightarrow> nat \<Rightarrow> string list" where
  "asset_urls json pos = (case str_find json asset_key pos of
     None \<Rightarrow> []
   | Some p \<Rightarrow> (case quoted_at json (p + length asset_key) of
       None \<Rightarrow> []
     | Some (u, e) \<Rightarrow> u # asset_urls json (e + 1)))"
  by pat_completeness auto
termination
proof (relation "measure (\<lambda>(json, pos). length json + 1 - pos)")
  fix json pos p ue u e
  assume "str_find json asset_key pos = Some p" "quoted_at json (p + length asset_key) = Some ue" "(u, e) = ue"
  then have "pos \<le> p" "p + length asset_key \<le> e" "e + length quote \<le> length json"
    by (auto simp: quoted_at_def dest!: str_find_Some split: option.splits)
  then show "((json, e + 1), json, pos) \<in> measure (\<lambda>(json, pos). length json + 1 - pos)"
    by (simp add: quote_def)
qed simp

declare asset_urls.simps [simp del]

definition linux_asset :: "string \<Rightarrow> bool" where
  "linux_asset u \<longleftrightarrow> str_contains u ''linux'' \<and> (str_contains u ''.tar.gz'' \<or> str_contains u ''.tgz'')"

definition PickPreferredAssetUrl :: "string \<Rightarrow> string" where
  "PickPreferredAssetUrl json = (let urls = asset_urls json 0 in
     case List.find linux_asset urls of
       Some u \<Rightarrow> u
     | None \<Rightarrow> (case urls of [] \<Rightarrow> [] | u # _ \<Rightarrow> u))"

definition json_field :: "string \<Rightarrow> string \<Rightarrow> string" where
  "json_field key json = (case str_find json key 0 of
     None \<Rightarrow> []
   | Some p \<Rightarrow> (case quoted_at json (p + length key) of None \<Rightarrow> [] | Some (v, e) \<Rightarrow> v))"

definition tag_key :: string where "tag_key = quote @ ''tag_name'' @ quote @ '':'' @ quote"
definition body_key :: string where "body_key = quote @ ''body'' @ quote @ '':'' @ quote"

definition ParseGitHubResponse :: "string \<Rightarrow> ReleaseInfo" where
  "ParseGitHubResponse json = default_ReleaseInfo\<lparr>version := json_field tag_key json,
     downloadUrl := PickPreferredAssetUrl json, releaseNotes := json_field body_key json\<rparr>"

text \<open>
  The download that is offered: the first asset whose name says Linux and a tar archive if
  there is one, else the first asset, else nothing; in particular it is always one of the
  addresses of the answer or empty.
\<close>

theorem preferred_asset:
  "let urls = asset_urls json 0; u = PickPreferredAssetUrl json in
   (\<exists>x \<in> set urls. linux_asset x) \<and> linux_asset u \<and> u \<in> set urls
     \<or> (\<forall>x \<in> set urls. \<not> linux_asset x) \<and> u = (if urls = [] then [] else hd urls)"
proof (cases "List.find linux_asset (asset_urls json 0)")
  case None
  then have "\<forall>x \<in> set (asset_urls json 0). \<not> linux_asset x" by (simp add: find_None_iff)
  with None show ?thesis by (simp add: PickPreferredAssetUrl_def Let_def split: list.split)
next
  case (Some u)
  then have "linux_asset u" "u \<in> set (asset_urls json 0)" by (auto simp: find_Some_iff)
  with Some show ?thesis by (auto simp: PickPreferredAssetUrl_def Let_def)
qed

subsection \<open>Checking\<close>

definition apiUrl :: string where
  "apiUrl = ''https://api.github.com/repos/alanparesys/MCX/releases/latest''"

text \<open>The state of the callbacks is that of the caller and the console.\<close>

definition check_callback :: "(ReleaseInfo \<Rightarrow> 'c effect) option \<Rightarrow> string \<Rightarrow> HttpResponse \<Rightarrow> ('c \<times> console list) effect" where
  "check_callback callback currentVersion response = (\<lambda>(c, out).
     if success response \<and> statusCode response = 200 then
       let info = ParseGitHubResponse (rs_body response);
           info = info\<lparr>updateAvailable := IsVersionNewer (version info) currentVersion\<rparr>;
           out = out @ [if updateAvailable info
             then log_Info (''Update available: '' @ version info @ '' (current: '' @ currentVersion @ '')'')
             else log_Info (''MCX is up to date ('' @ currentVersion @ '')'')] in
       (case callback of None \<Rightarrow> ((c, out), None) | Some f \<Rightarrow> (case f info c of (c, ex) \<Rightarrow> ((c, out), ex)))
     else ((c, out @ [log_Warn (''Could not check for updates (status: '' @ show_int (statusCode response) @ '')'')]), None))"

definition download_callback :: "string \<Rightarrow> HttpResponse \<Rightarrow> ('c \<times> console list) effect" where
  "download_callback destination response = (\<lambda>(c, out).
     if success response then
       ((c, out @ [log_Info (''Download complete! Save to: '' @ destination),
          log_Info ''Please extract and replace your current mcx executable'']), None)
     else ((c, out @ [log_Error (''Download failed: '' @ show_int (statusCode response))]), None))"

text \<open>
  One request on a fresh client, with the worker's round within the time that the code sleeps;
  then the client is stopped.
\<close>

definition one_request :: "nat \<Rightarrow> 'n Net \<Rightarrow> string \<Rightarrow> (HttpResponse \<Rightarrow> ('c \<times> console list) effect) \<Rightarrow> 'n \<Rightarrow> 'c \<times> console list
    \<Rightarrow> ('n \<times> ('c \<times> console list) \<times> unit result) option" where
  "one_request fuel net url f s c =
     map_option (\<lambda>(cl, s, c, r). (s, c, r)) (WorkerLoop_round fuel net (Get url (Some f) (Start_http fresh_HttpClient)) s c)"

definition CheckForUpdates :: "nat \<Rightarrow> 'n Net \<Rightarrow> (ReleaseInfo \<Rightarrow> 'c effect) option \<Rightarrow> string \<Rightarrow> 'n \<Rightarrow> 'c \<times> console list
    \<Rightarrow> ('n \<times> ('c \<times> console list) \<times> unit result) option" where
  "CheckForUpdates fuel net callback currentVersion s c = one_request fuel net apiUrl (check_callback callback currentVersion) s c"

text \<open>The object keeps the handler; a check hands it on.\<close>

record 'c UpdateChecker =
  on_update_available :: "(ReleaseInfo \<Rightarrow> 'c effect) option"

definition OnUpdateAvailable :: "(ReleaseInfo \<Rightarrow> 'c effect) \<Rightarrow> 'c UpdateChecker \<Rightarrow> 'c UpdateChecker" where
  "OnUpdateAvailable f u = u\<lparr>on_update_available := Some f\<rparr>"

definition checker_CheckForUpdates :: "nat \<Rightarrow> 'n Net \<Rightarrow> 'c UpdateChecker \<Rightarrow> string \<Rightarrow> 'n \<Rightarrow> 'c \<times> console list
    \<Rightarrow> ('n \<times> ('c \<times> console list) \<times> unit result) option" where
  "checker_CheckForUpdates fuel net u currentVersion s c = CheckForUpdates fuel net (on_update_available u) currentVersion s c"

definition DownloadUpdate :: "nat \<Rightarrow> 'n Net \<Rightarrow> string \<Rightarrow> string \<Rightarrow> 'n \<Rightarrow> 'c \<times> console list
    \<Rightarrow> ('n \<times> ('c \<times> console list) \<times> unit result) option" where
  "DownloadUpdate fuel net url destination s c = (case c of (c, out) \<Rightarrow>
     one_request fuel net url (download_callback destination) s (c, out @ [log_Info (''Downloading update from: '' @ url)]))"

subsection \<open>A release from end to end\<close>

text \<open>
  The answer as JSON text: string literals, as they are written (with their escapes), and the other
  characters (numbers, punctuation, white space).
\<close>

datatype token = Quoted string | Other char

definition quoted :: "string \<Rightarrow> string" where
  "quoted v = CHR 0x22 # v @ [CHR 0x22]"

fun token_text :: "token \<Rightarrow> string" where
  "token_text (Quoted s) = quoted s"
| "token_text (Other c) = [c]"

definition json_text :: "token list \<Rightarrow> string" where
  "json_text ts = concat (map token_text ts)"

definition no_quote :: "string \<Rightarrow> bool" where
  "no_quote s \<longleftrightarrow> CHR 0x22 \<notin> set s"

text \<open>A literal holds a quotation mark only behind a backslash, and no lone backslash at its end.\<close>

fun escaped :: "string \<Rightarrow> bool" where
  "escaped [] = True"
| "escaped (c # s) = (if c = CHR 0x5C then (case s of [] \<Rightarrow> False | d # t \<Rightarrow> escaped t) else c \<noteq> CHR 0x22 \<and> escaped s)"

definition separator :: "char \<Rightarrow> bool" where
  "separator c \<longleftrightarrow> c \<in> {CHR '','', CHR '':'', CHR ''}'', CHR '']'', CHR '' '', CHR 0x09, CHR 0x0A, CHR 0x0D}"

text \<open>
  What the grammar of JSON gives: every literal is followed by a separator; a literal directly followed by a
  colon is the name of a member, and the names contain no quotation mark; a value is not followed by a colon.
\<close>

fun well_formed :: "token list \<Rightarrow> bool" where
  "well_formed [] = True"
| "well_formed (Other c # ts) = (c \<noteq> CHR 0x22 \<and> well_formed ts)"
| "well_formed (Quoted s # ts) = (escaped s \<and> well_formed ts \<and> (case ts of
     Other c # us \<Rightarrow> separator c \<and> (c = CHR '':'' \<longrightarrow> no_quote s \<and> (case us of Quoted v # Other d # _ \<Rightarrow> d \<noteq> CHR '':'' | _ \<Rightarrow> True))
   | _ \<Rightarrow> False))"

text \<open>
  The literals that are the values of the members of one name, in the order of the text and at any depth,
  where no space stands around the colon; and the part of a value before its first quotation mark, escaped
  or not.
\<close>

fun texts_of :: "string \<Rightarrow> token list \<Rightarrow> string list" where
  "texts_of k [] = []"
| "texts_of k (Other c # ts) = texts_of k ts"
| "texts_of k (Quoted s # ts) = (case ts of
     Other c # Quoted v # _ \<Rightarrow> if c = CHR '':'' \<and> s = k then [v] else [] | _ \<Rightarrow> []) @ texts_of k ts"

definition before_quote :: "string \<Rightarrow> string" where
  "before_quote v = takeWhile (\<lambda>c. c \<noteq> CHR 0x22) v"

definition first_text :: "string \<Rightarrow> token list \<Rightarrow> string" where
  "first_text k ts = (case texts_of k ts of [] \<Rightarrow> [] | v # _ \<Rightarrow> before_quote v)"

text \<open>The download to offer: the first tar archive for Linux, else the first, else none.\<close>

definition offered :: "string list \<Rightarrow> string" where
  "offered urls = (case filter (\<lambda>u. sublist ''linux'' u \<and> (sublist ''.tar.gz'' u \<or> sublist ''.tgz'' u)) urls of
     u # _ \<Rightarrow> u | [] \<Rightarrow> (case urls of [] \<Rightarrow> [] | u # _ \<Rightarrow> u))"

definition release_info :: "token list \<Rightarrow> string \<Rightarrow> ReleaseInfo" where
  "release_info ts current = \<lparr>version = first_text ''tag_name'' ts,
     downloadUrl = offered (map before_quote (texts_of ''browser_download_url'' ts)), releaseNotes = first_text ''body'' ts,
     updateAvailable = IsVersionNewer (first_text ''tag_name'' ts) current\<rparr>"

definition key_of :: "string \<Rightarrow> string" where
  "key_of k = quoted k @ '':'' @ [CHR 0x22]"

lemma keys: "tag_key = key_of ''tag_name''" "body_key = key_of ''body''" "asset_key = key_of ''browser_download_url''"
  by (simp_all add: tag_key_def body_key_def asset_key_def key_of_def quoted_def quote_def)

text \<open>The names that the code looks for.\<close>

definition plain_name :: "string \<Rightarrow> bool" where
  "plain_name k \<longleftrightarrow> no_quote k \<and> CHR 0x5C \<notin> set k \<and> k \<noteq> [] \<and> \<not> separator (hd k)"

lemma plain_names: "plain_name ''tag_name''" "plain_name ''body''" "plain_name ''browser_download_url''"
  by (simp_all add: plain_name_def no_quote_def separator_def)

lemma before_quote_first_quote: "before_quote (v @ CHR 0x22 # s) = before_quote v"
  by (induction v) (auto simp: before_quote_def)

lemma before_quote_no_quote: "no_quote v \<Longrightarrow> before_quote v = v"
  by (induction v) (auto simp: before_quote_def no_quote_def)

lemma no_quote_before_quote: "no_quote (before_quote v)"
  by (auto simp: before_quote_def no_quote_def dest: set_takeWhileD)

text \<open>A quotation mark inside a literal stands behind a backslash, and the rest is again a literal.\<close>

lemma escaped_quote: "escaped (a @ CHR 0x22 # b) \<Longrightarrow> no_quote a \<Longrightarrow> CHR 0x5C \<in> set a \<and> escaped b"
proof (induction a rule: escaped.induct)
  case (2 c s)
  then show ?case by (cases s) (auto simp: no_quote_def split: if_splits)
qed simp

lemma literal_cases:
  obtains "no_quote v" | b where "v = before_quote v @ CHR 0x22 # b"
proof (cases "no_quote v")
  case False
  then have "dropWhile (\<lambda>c. c \<noteq> CHR 0x22) v \<noteq> []" by (auto simp: no_quote_def)
  then have "dropWhile (\<lambda>c. c \<noteq> CHR 0x22) v = CHR 0x22 # tl (dropWhile (\<lambda>c. c \<noteq> CHR 0x22) v)"
    using hd_dropWhile [of "\<lambda>c. c \<noteq> CHR 0x22" v] by (metis list.collapse)
  then have "v = before_quote v @ CHR 0x22 # tl (dropWhile (\<lambda>c. c \<noteq> CHR 0x22) v)"
    by (metis before_quote_def takeWhile_dropWhile_id)
  then show ?thesis by (rule that(2))
qed (rule that(1))

lemma key_not_prefix:
  assumes "plain_name k" "escaped v" "k \<noteq> v \<or> \<not> prefix [CHR '':'', CHR 0x22] s"
  shows "\<not> prefix (key_of k) (quoted v @ s)"
proof
  assume "prefix (key_of k) (quoted v @ s)"
  then obtain zs where eq: "v @ CHR 0x22 # s = k @ CHR 0x22 # CHR '':'' # CHR 0x22 # zs"
    by (auto simp: prefix_def key_of_def quoted_def)
  then have "before_quote (v @ CHR 0x22 # s) = before_quote (k @ CHR 0x22 # CHR '':'' # CHR 0x22 # zs)" by simp
  with assms(1) have k: "before_quote v = k" by (simp add: before_quote_first_quote before_quote_no_quote plain_name_def)
  show False
  proof (rule literal_cases [of v])
    assume "no_quote v"
    with k have "v = k" by (simp add: before_quote_no_quote)
    with eq assms(3) show False by (simp add: prefix_def)
  next
    fix b assume "v = before_quote v @ CHR 0x22 # b"
    with k have "v = k @ CHR 0x22 # b" by simp
    with escaped_quote [of k b] assms(1,2) show False by (simp add: plain_name_def)
  qed
qed

lemma key_passes_char: "c \<noteq> CHR 0x22 \<Longrightarrow> find_from (key_of k) (c # s) i = find_from (key_of k) s (Suc i)"
  by (intro find_from_step) (simp add: key_of_def quoted_def)

lemma key_passes_no_quote: "no_quote u \<Longrightarrow> find_from (key_of k) (u @ s) i = find_from (key_of k) s (i + length u)"
  by (rule find_from_pass [where a = "CHR 0x22" and q = "tl (key_of k)"]) (auto simp: key_of_def quoted_def no_quote_def)

lemma key_found: "find_from (key_of k) (key_of k @ s) i = Some i"
  by (intro find_from_here) simp

text \<open>Searching passes over the rest of a literal, its closing mark included.\<close>

lemma key_passes_rest:
  assumes "plain_name k" "escaped v" "separator x" "x = CHR '':'' \<longrightarrow> no_quote v"
  shows "find_from (key_of k) (v @ CHR 0x22 # x # s) i = find_from (key_of k) (x # s) (i + length v + 1)"
  using assms(2,4)
proof (induction "length v" arbitrary: v i rule: less_induct)
  case less
  have close: "find_from (key_of k) (CHR 0x22 # x # s) j = find_from (key_of k) (x # s) (Suc j)" for j
    using assms(1,3) by (intro find_from_step) (cases k; auto simp: key_of_def quoted_def plain_name_def)
  show ?case
  proof (rule literal_cases [of v])
    assume "no_quote v"
    then show ?thesis by (simp add: key_passes_no_quote close del: find_from.simps)
  next
    fix b assume v: "v = before_quote v @ CHR 0x22 # b"
    let ?a = "before_quote v"
    have "CHR 0x22 \<in> set v" by (subst v) simp
    then have x: "x \<noteq> CHR '':''" using less.prems(2) by (auto simp: no_quote_def)
    have "escaped (?a @ CHR 0x22 # b)" using less.prems(1) v by simp
    from escaped_quote [OF this no_quote_before_quote] have b: "escaped b" ..
    have len: "length v = length ?a + 1 + length b" by (subst v) simp
    have "find_from (key_of k) (v @ CHR 0x22 # x # s) i = find_from (key_of k) (?a @ quoted b @ x # s) i"
      by (subst v) (simp add: quoted_def del: find_from.simps)
    also have "\<dots> = find_from (key_of k) (quoted b @ x # s) (i + length ?a)"
      by (rule key_passes_no_quote) (rule no_quote_before_quote)
    also have "\<dots> = find_from (key_of k) (b @ CHR 0x22 # x # s) (Suc (i + length ?a))"
      using key_not_prefix [OF assms(1) b, of "x # s"] x by (simp add: quoted_def)
    also have "\<dots> = find_from (key_of k) (x # s) (Suc (i + length ?a) + length b + 1)"
      using less.hyps [of b] b x len by simp
    finally show ?thesis using len by (simp add: ac_simps del: find_from.simps)
  qed
qed

lemma key_passes_quoted:
  assumes "plain_name k" "escaped v" "separator x" "x = CHR '':'' \<longrightarrow> no_quote v" "k \<noteq> v \<or> \<not> prefix [CHR '':'', CHR 0x22] (x # s)"
  shows "find_from (key_of k) (quoted v @ x # s) i = find_from (key_of k) (x # s) (i + length (quoted v))"
proof -
  have "find_from (key_of k) (quoted v @ x # s) i = find_from (key_of k) (v @ CHR 0x22 # x # s) (Suc i)"
    using key_not_prefix [OF assms(1,2,5)] by (simp add: quoted_def)
  with key_passes_rest [OF assms(1-4)] show ?thesis by (simp add: quoted_def del: find_from.simps)
qed

subsection \<open>The search over the tokens\<close>

text \<open>The first member of a name: what stands before it, its text, and what comes after it.\<close>

fun locate :: "string \<Rightarrow> token list \<Rightarrow> (token list \<times> string \<times> token list) option" where
  "locate k [] = None"
| "locate k (Other c # ts) = map_option (\<lambda>(us, vw). (Other c # us, vw)) (locate k ts)"
| "locate k (Quoted s # ts) = (let later = map_option (\<lambda>(us, vw). (Quoted s # us, vw)) (locate k ts) in
     case ts of Other c # Quoted v # ws \<Rightarrow> if c = CHR '':'' \<and> s = k then Some ([], v, ws) else later | _ \<Rightarrow> later)"

lemma json_text_simps [simp]:
  "json_text [] = []" "json_text (Quoted s # ts) = quoted s @ json_text ts" "json_text (Other c # ts) = c # json_text ts"
  "json_text (us @ ts) = json_text us @ json_text ts"
  by (simp_all add: json_text_def)

lemma member_text: "quoted k @ CHR '':'' # quoted v @ s = key_of k @ v @ CHR 0x22 # s"
  by (simp add: key_of_def quoted_def)

lemma starts_with_quote: "well_formed ts \<Longrightarrow> prefix [CHR 0x22] (json_text ts) \<longleftrightarrow> (\<exists>v ws. ts = Quoted v # ws)"
  by (cases ts rule: well_formed.cases) (auto simp: quoted_def)

lemma find_locate:
  assumes "plain_name k"
  shows "well_formed ts \<Longrightarrow> find_from (key_of k) (json_text ts) i = map_option (\<lambda>(us, vw). i + length (json_text us)) (locate k ts)"
proof (induction ts arbitrary: i rule: well_formed.induct)
  case 1
  then show ?case by (simp add: key_of_def quoted_def)
next
  case (2 c ts)
  then show ?case
    by (simp add: key_passes_char option.map_comp comp_def case_prod_beta del: find_from.simps)
next
  case (3 s ts)
  then obtain c us where ts: "ts = Other c # us" by (auto split: list.splits token.splits)
  have wf: "escaped s" "well_formed ts" "separator c" "c = CHR '':'' \<longrightarrow> no_quote s" "well_formed us"
    using 3(2) ts by auto
  have ih: "find_from (key_of k) (json_text ts) j = map_option (\<lambda>(us, vw). j + length (json_text us)) (locate k ts)" for j
    using 3 wf(2) by blast
  show ?case
  proof (cases "c = CHR '':'' \<and> s = k \<and> (\<exists>v ws. us = Quoted v # ws)")
    case True
    then show ?thesis by (auto simp: ts member_text key_found simp del: find_from.simps)
  next
    case False
    then have loc: "locate k (Quoted s # ts) = map_option (\<lambda>(us, vw). (Quoted s # us, vw)) (locate k ts)"
      by (auto simp: ts Let_def split: list.splits token.splits)
    have "k \<noteq> s \<or> \<not> prefix [CHR '':'', CHR 0x22] (c # json_text us)"
      using False starts_with_quote [OF wf(5)] by (auto simp: prefix_def)
    from key_passes_quoted [OF assms wf(1,3,4) this, of i]
    have "find_from (key_of k) (json_text (Quoted s # ts)) i = find_from (key_of k) (json_text ts) (i + length (quoted s))"
      by (simp add: ts del: find_from.simps)
    with ih loc show ?thesis by (cases "locate k ts") (auto simp: ac_simps simp del: find_from.simps locate.simps)
  qed
qed

lemma locate_Quoted:
  "locate k (Quoted s # ts) = (if (\<exists>v ws. ts = Other (CHR '':'') # Quoted v # ws) \<and> s = k
     then (case ts of Other c # Quoted v # ws \<Rightarrow> Some ([], v, ws) | _ \<Rightarrow> None)
     else map_option (\<lambda>(us, vw). (Quoted s # us, vw)) (locate k ts))"
  by (auto simp: Let_def split: list.splits token.splits)

lemma texts_of_Quoted:
  "texts_of k (Quoted s # ts) = (if (\<exists>v ws. ts = Other (CHR '':'') # Quoted v # ws) \<and> s = k
     then (case ts of Other c # Quoted v # ws \<Rightarrow> [v] | _ \<Rightarrow> []) else []) @ texts_of k ts"
  by (auto split: list.splits token.splits)

lemma locate_None: "locate k ts = None \<Longrightarrow> texts_of k ts = []"
proof (induction ts)
  case (Cons t ts)
  then show ?case
  proof (cases t)
    case (Quoted s)
    with Cons show ?thesis unfolding Quoted locate_Quoted texts_of_Quoted by (auto split: if_splits)
  qed simp
qed simp

lemma texts_of_value: "well_formed (Quoted s # Other c # Quoted v # ws) \<Longrightarrow> c = CHR '':'' \<Longrightarrow>
   texts_of k (Quoted v # ws) = texts_of k ws \<and> (\<exists>d xs. ws = Other d # xs \<and> separator d \<and> d \<noteq> CHR '':'')"
  by (cases ws rule: well_formed.cases) (auto split: list.splits token.splits)

lemma locate_Some:
  "locate k ts = Some (us, v, ws) \<Longrightarrow> well_formed ts \<Longrightarrow>
     json_text ts = json_text us @ key_of k @ v @ CHR 0x22 # json_text ws \<and> texts_of k ts = v # texts_of k ws
     \<and> well_formed ws \<and> escaped v \<and> (\<exists>d xs. ws = Other d # xs \<and> separator d \<and> d \<noteq> CHR '':'') \<and> length ws < length ts"
proof (induction ts arbitrary: us)
  case (Cons t ts)
  show ?case
  proof (cases t)
    case (Other c)
    with Cons show ?thesis by fastforce
  next
    case (Quoted s)
    show ?thesis
    proof (cases "(\<exists>v ws. ts = Other (CHR '':'') # Quoted v # ws) \<and> s = k")
      case True
      then have ts: "ts = Other (CHR '':'') # Quoted v # ws" "us = []" "s = k"
        using Cons.prems(1) unfolding Quoted locate_Quoted by auto
      have wf: "well_formed (Quoted k # Other (CHR '':'') # Quoted v # ws)" using Cons.prems(2) Quoted ts by simp
      have "texts_of k (t # ts) = v # texts_of k (Quoted v # ws)" by (simp add: Quoted ts del: texts_of.simps(3)) (simp add: texts_of_Quoted del: texts_of.simps(3))
      with texts_of_value [OF wf refl, of k] have texts: "texts_of k (t # ts) = v # texts_of k ws"
        and sep: "\<exists>d xs. ws = Other d # xs \<and> separator d \<and> d \<noteq> CHR '':''" by auto
      have "well_formed ws" "escaped v" using wf by simp_all
      with texts sep show ?thesis by (simp add: Quoted ts member_text del: texts_of.simps)
    next
      case False
      then obtain us' where us: "us = Quoted s # us'" "locate k ts = Some (us', v, ws)"
        using Cons.prems(1) unfolding Quoted locate_Quoted by auto
      have texts: "texts_of k (t # ts) = texts_of k ts" unfolding Quoted texts_of_Quoted if_not_P [OF False] by simp
      have "well_formed ts" using Cons.prems(2) Quoted by simp
      from Cons.IH [OF us(2) this] us texts Quoted show ?thesis by simp
    qed
  qed
qed simp

text \<open>
  Every text that the code collects: the search goes on behind the first quotation mark of the last one,
  which may be in the middle of it.
\<close>

lemma quoted_at_text:
  "length pre = n \<Longrightarrow> quoted_at (pre @ v @ CHR 0x22 # rest) n = Some (before_quote v, n + length (before_quote v))"
proof -
  assume n: "length pre = n"
  obtain tl where v: "v @ CHR 0x22 # rest = before_quote v @ quote @ tl"
  proof (rule literal_cases [of v])
    assume "no_quote v"
    then show ?thesis using that [of rest] by (simp add: before_quote_no_quote quote_def)
  next
    fix b assume "v = before_quote v @ CHR 0x22 # b"
    then have "v @ CHR 0x22 # rest = before_quote v @ quote @ b @ CHR 0x22 # rest"
      by (metis append.assoc append_Cons append_Nil quote_def)
    then show ?thesis by (rule that)
  qed
  have "CHR 0x22 \<notin> set (before_quote v)" using no_quote_before_quote [of v] by (simp add: no_quote_def)
  from str_find_skip [of quote "CHR 0x22" "[]", OF _ this n, of tl] n show ?thesis
    unfolding v by (simp add: quoted_at_def quote_def)
qed

lemma asset_urls_tokens:
  assumes "well_formed ts" "tail = [] \<or> (\<exists>b d xs. tail = b @ [CHR 0x22] \<and> escaped b \<and> ts = Other d # xs \<and> separator d \<and> d \<noteq> CHR '':'')"
  shows "asset_urls (pre @ tail @ json_text ts) (length pre) = map before_quote (texts_of ''browser_download_url'' ts)"
  using assms
proof (induction "length ts" arbitrary: ts pre tail rule: less_induct)
  case less
  let ?k = "''browser_download_url''"
  let ?j = "pre @ tail @ json_text ts"
  note k = plain_names(3)
  have "find_from (key_of ?k) (tail @ json_text ts) (length pre) = find_from (key_of ?k) (json_text ts) (length pre + length tail)"
    using less.prems(2)
  proof (elim disjE exE conjE)
    fix b d xs assume "tail = b @ [CHR 0x22]" "escaped b" "ts = Other d # xs" "separator d" "d \<noteq> CHR '':''"
    with key_passes_rest [OF k, of b d "json_text xs" "length pre"] show ?thesis by simp
  qed simp
  with find_locate [OF k less.prems(1)] str_find_suffix [of pre "length pre" "tail @ json_text ts" asset_key]
  have found: "str_find ?j asset_key (length pre) = map_option (\<lambda>(us, vw). length pre + length tail + length (json_text us)) (locate ?k ts)"
    by (simp add: keys)
  show ?case
  proof (cases "locate ?k ts")
    case None
    with found locate_None [OF None] show ?thesis by (subst asset_urls.simps) simp
  next
    case (Some x)
    then obtain us v ws where l: "locate ?k ts = Some (us, v, ws)" by (cases x) auto
    note loc = locate_Some [OF l less.prems(1)]
    let ?p = "pre @ tail @ json_text us @ asset_key"
    have j: "?j = ?p @ v @ CHR 0x22 # json_text ws" using loc by (simp add: keys)
    have at: "quoted_at ?j (length ?p) = Some (before_quote v, length ?p + length (before_quote v))"
      unfolding j by (rule quoted_at_text) simp
    obtain tail' where t: "v @ [CHR 0x22] = before_quote v @ [CHR 0x22] @ tail'"
      and ok: "tail' = [] \<or> (\<exists>b d xs. tail' = b @ [CHR 0x22] \<and> escaped b \<and> ws = Other d # xs \<and> separator d \<and> d \<noteq> CHR '':'')"
    proof (rule literal_cases [of v])
      assume "no_quote v"
      then show ?thesis using that [of "[]"] by (simp add: before_quote_no_quote)
    next
      fix b assume v: "v = before_quote v @ CHR 0x22 # b"
      have "escaped (before_quote v @ CHR 0x22 # b)" using loc v by simp
      from escaped_quote [OF this no_quote_before_quote] have "escaped b" ..
      moreover have "v @ [CHR 0x22] = before_quote v @ [CHR 0x22] @ b @ [CHR 0x22]"
        by (subst v) simp
      ultimately show ?thesis using loc that by blast
    qed
    let ?q = "?p @ before_quote v @ [CHR 0x22]"
    have j': "?j = ?q @ tail' @ json_text ws" using j t by (metis append.assoc append_Cons append_Nil)
    have "asset_urls ?j (length pre) = before_quote v # asset_urls ?j (length ?q)"
      using found l at by (subst asset_urls.simps) (simp add: ac_simps)
    also have "asset_urls ?j (length ?q) = map before_quote (texts_of ?k ws)"
      unfolding j' using loc ok by (intro less.hyps) auto
    finally show ?thesis using loc by simp
  qed
qed

lemma json_field_tokens:
  assumes "plain_name k" "well_formed ts"
  shows "json_field (key_of k) (json_text ts) = first_text k ts"
proof (cases "locate k ts")
  case None
  with find_locate [OF assms, of 0] locate_None [OF None] show ?thesis
    by (simp add: json_field_def str_find_def first_text_def)
next
  case (Some x)
  then obtain us v ws where l: "locate k ts = Some (us, v, ws)" by (cases x) auto
  note loc = locate_Some [OF l assms(2)]
  have "str_find (json_text ts) (key_of k) 0 = Some (length (json_text us))"
    using find_locate [OF assms, of 0] l by (simp add: str_find_def)
  moreover have "quoted_at (json_text ts) (length (json_text us @ key_of k)) = Some (before_quote v, length (json_text us @ key_of k) + length (before_quote v))"
    using loc quoted_at_text [of "json_text us @ key_of k" "length (json_text us @ key_of k)" v "json_text ws"] by simp
  ultimately show ?thesis using loc by (simp add: json_field_def first_text_def)
qed

lemma PickPreferredAssetUrl_offered: "PickPreferredAssetUrl json = offered (asset_urls json 0)"
proof -
  have "linux_asset = (\<lambda>u. sublist ''linux'' u \<and> (sublist ''.tar.gz'' u \<or> sublist ''.tgz'' u))"
    by (auto simp: linux_asset_def str_contains_iff)
  moreover have "List.find P us = (case filter P us of u # _ \<Rightarrow> Some u | [] \<Rightarrow> None)" for P :: "string \<Rightarrow> bool" and us
    by (induction us) auto
  ultimately show ?thesis by (simp add: PickPreferredAssetUrl_def offered_def Let_def split: list.split)
qed

lemma release_parsed:
  assumes "well_formed ts"
  shows "ParseGitHubResponse (json_text ts)\<lparr>updateAvailable := IsVersionNewer (version (ParseGitHubResponse (json_text ts))) current\<rparr> = release_info ts current"
  using asset_urls_tokens [OF assms, of "[]" "[]"] json_field_tokens [OF _ assms] plain_names
  by (simp add: ParseGitHubResponse_def PickPreferredAssetUrl_offered release_info_def keys default_ReleaseInfo_def)

lemma release_info_available: "updateAvailable (release_info ts current) \<longleftrightarrow> IsVersionNewer (first_text ''tag_name'' ts) current"
  by (simp add: release_info_def)

lemma release_tag: "well_formed ts \<Longrightarrow> version (ParseGitHubResponse (json_text ts)) = first_text ''tag_name'' ts"
  using json_field_tokens [of "''tag_name''" ts] plain_names by (simp add: ParseGitHubResponse_def keys default_ReleaseInfo_def)

lemma check_for_updates_run:
  assumes "well_formed ts" "CR \<notin> set reason" "header_lines hs" "answer = response_text 200 reason hs (json_text ts)"
    and "CHR 0x00 \<notin> set answer" "length answer < fuel"
    and "f (release_info ts current) c = (c', None)"
  shows "\<exists>s. CheckForUpdates fuel loopback (Some f) current (wire (map byte_of answer)) (c, []) =
    Some (s, (c', [log_Info (if updateAvailable (release_info ts current) then ''Update available: '' @ first_text ''tag_name'' ts @ '' (current: '' @ current @ '')''
       else ''MCX is up to date ('' @ current @ '')'')]), Inr ())"
proof -
  let ?req = "default_HttpRequest\<lparr>rq_method := ''GET'', rq_url := apiUrl\<rparr>"
  have url: "parse_url apiUrl = Some (Inr (''api.github.com'', 80, ''/repos/alanparesys/MCX/releases/latest''))"
    unfolding apiUrl_def by code_simp
  let ?s = "(wire (map byte_of answer))\<lparr>outbox := map byte_of (request_text ?req ''api.github.com'' ''/repos/alanparesys/MCX/releases/latest'')\<rparr>"
  have "receive_all fuel loopback 3 ?s = Some (?s\<lparr>inbox := []\<rparr>, answer)"
    using assms(5,6) by (intro receive_all_loopback) simp_all
  moreover have "parse_response answer = Inr \<lparr>statusCode = 200, rs_body = json_text ts, rs_headers = [], success = True\<rparr>"
    using parse_response_text [of 200 reason hs "json_text ts"] assms(2-4) by (simp add: int_range_defs)
  ultimately have "\<exists>s. PerformRequest fuel loopback ?req (wire (map byte_of answer)) =
      Some (s, Inr \<lparr>statusCode = 200, rs_body = json_text ts, rs_headers = [], success = True\<rparr>)"
    by (simp add: PerformRequest_def url)
  then obtain s where "PerformRequest fuel loopback ?req (wire (map byte_of answer)) =
      Some (s, Inr \<lparr>statusCode = 200, rs_body = json_text ts, rs_headers = [], success = True\<rparr>)" by blast
  moreover have "check_callback (Some f) current \<lparr>statusCode = 200, rs_body = json_text ts, rs_headers = [], success = True\<rparr> (c, []) =
      ((c', [log_Info (if updateAvailable (release_info ts current) then ''Update available: '' @ first_text ''tag_name'' ts @ '' (current: '' @ current @ '')''
       else ''MCX is up to date ('' @ current @ '')'')]), None)"
    using assms(7) release_parsed [OF assms(1), of current] by (simp add: check_callback_def Let_def release_tag [OF assms(1)] release_info_available)
  ultimately show ?thesis
    by (simp add: CheckForUpdates_def one_request_def WorkerLoop_round_def Start_http_def Get_def Request_def
        fresh_HttpClient_def take_request_def default_HttpRequest_def)
qed


text \<open>Two assets, of which the second is offered, a nested object with notes of its own, and notes with an escaped quotation mark.\<close>

definition sample_release :: "token list" where
  "sample_release = [Other CHR ''{'', Quoted ''id'', Other CHR '':'', Other CHR ''7'', Other CHR '','',
     Quoted ''tag_name'', Other CHR '':'', Quoted ''v0.3.0'', Other CHR '','', Quoted ''assets'', Other CHR '':'', Other CHR ''['',
     Other CHR ''{'', Quoted ''browser_download_url'', Other CHR '':'', Quoted ''http://x/win.zip'', Other CHR ''}'', Other CHR '','',
     Other CHR ''{'', Quoted ''browser_download_url'', Other CHR '':'', Quoted ''http://x/linux.tgz'', Other CHR ''}'', Other CHR '']'', Other CHR '','',
     Quoted ''body'', Other CHR '':'', Quoted (''Say '' @ [CHR 0x5C, CHR 0x22] @ ''hi''), Other CHR ''}'']"


end
