(* ===== verification/MCX_UpdateThread.thy ===== *)
theory MCX_UpdateThread
  imports MCX_HttpWorker MCX_Updates
begin

text \<open>
  The update checker over the threads it uses: \<open>CheckForUpdates\<close> starts a client of its own, makes
  one request, sleeps and stops the client, whose worker may do its steps at any time in between. What can
  come of it is compared with the sequential model of \<open>MCX_Updates\<close>, in which the worker makes its round.
\<close>

subsection \<open>One client, one request\<close>

definition get_request :: "string \<Rightarrow> (HttpResponse \<Rightarrow> 'c effect) \<Rightarrow> 'c pending_request" where
  "get_request url f = (default_HttpRequest\<lparr>rq_method := ''GET'', rq_url := url\<rparr>, Some f)"

text \<open>The client after \<open>Start\<close> and \<open>Get\<close>, over the network and the state of the callback.\<close>

definition client_asked :: "string \<Rightarrow> (HttpResponse \<Rightarrow> 'c effect) \<Rightarrow> 'n \<Rightarrow> 'c \<Rightarrow> ('n, 'c) HttpWorker" where
  "client_asked url f n c = submit_request (get_request url f)
     \<lparr>hclient = Start_http fresh_HttpClient, hphase = H_test, hstopping = Not_stopped, hnet = n, hstate = c, requested = [], served = []\<rparr>"

text \<open>The client is local to the call, so nobody else makes a request.\<close>

definition private_step :: "'n Net \<Rightarrow> ('n, 'c) HttpWorker \<Rightarrow> ('n, 'c) HttpWorker \<Rightarrow> bool" where
  "private_step net s t \<longleftrightarrow> http_worker_step net s t \<or> http_stop_step s t \<or> http_spurious s t"

lemma private_step_http: "private_step net s t \<Longrightarrow> http_step net s t"
  by (auto simp: private_step_def intro: http_step.worker http_step.stop http_step.wake)

text \<open>What the sequential model computes, and how the thread shows it.\<close>

definition outcome :: "'n Net \<Rightarrow> string \<Rightarrow> (HttpResponse \<Rightarrow> ('c \<times> console list) effect) \<Rightarrow> 'n \<Rightarrow> 'c \<times> console list
    \<Rightarrow> ('n, 'c \<times> console list) HttpWorker \<Rightarrow> bool" where
  "outcome net url f n c s \<longleftrightarrow>
     (if served s = [] \<and> hphase s \<noteq> H_terminated then hnet s = n \<and> hstate s = c
      else \<exists>fuel r. one_request fuel net url f n c = Some (hnet s, hstate s, r)
        \<and> (isl r \<longleftrightarrow> hphase s = H_terminated))"

definition private_inv :: "'n Net \<Rightarrow> string \<Rightarrow> (HttpResponse \<Rightarrow> ('c \<times> console list) effect) \<Rightarrow> 'n \<Rightarrow> 'c \<times> console list
    \<Rightarrow> ('n, 'c \<times> console list) HttpWorker \<Rightarrow> bool" where
  "private_inv net url f n c s \<longleftrightarrow> http_inv s \<and> requested s = [get_request url f] \<and> outcome net url f n c s"

text \<open>The service of the request is the round of the sequential worker.\<close>

lemma serve_is_round:
  assumes "serve fuel net (get_request url f) s = Some t"
  shows "\<exists>r. one_request fuel net url f (hnet s) (hstate s) = Some (hnet t, hstate t, r)
    \<and> (isl r \<longleftrightarrow> hphase t = H_terminated)"
  using assms
  by (cases "hstate s") (auto simp: serve_def get_request_def one_request_def WorkerLoop_round_def Get_def Request_def Start_http_def
      fresh_HttpClient_def take_request_def split: option.splits sum.splits prod.splits)

lemma private_step_fixed: "private_step net s t \<Longrightarrow> requested t = requested s"
  by (auto simp: private_step_def http_spurious_def elim!: http_worker_stepE http_stop_stepE dest: serve_outcome)

text \<open>Every step but the service leaves the network, the state and what was served as they are.\<close>

lemma quiet_step:
  assumes "private_step net s t"
  shows "(hnet t = hnet s \<and> hstate t = hstate s \<and> served t = served s \<and> (hphase t = H_terminated \<longleftrightarrow> hphase s = H_terminated))
    \<or> (\<exists>p fuel. hphase s = H_serving p \<and> serve fuel net p s = Some t)"
  using assms by (auto simp: private_step_def http_spurious_def elim!: http_worker_stepE http_stop_stepE split: if_splits)

lemma private_step_inv:
  assumes "private_step net s t" "private_inv net url f n c s"
  shows "private_inv net url f n c t"
proof -
  let ?p = "get_request url f"
  have i: "http_inv t" "requested t = [?p]"
    using assms http_step_inv [OF private_step_http [OF assms(1)]] private_step_fixed [OF assms(1)] by (auto simp: private_inv_def)
  from quiet_step [OF assms(1)] have "outcome net url f n c t"
  proof (elim disjE exE conjE)
    assume "hnet t = hnet s" "hstate t = hstate s" "served t = served s" "hphase t = H_terminated \<longleftrightarrow> hphase s = H_terminated"
    with assms(2) show ?thesis by (simp add: private_inv_def outcome_def)
  next
    fix p fuel
    assume ph: "hphase s = H_serving p" and sv: "serve fuel net p s = Some t"
    with assms(2) have "[?p] = served s @ [p] @ http_queue (hclient s)" by (auto simp: private_inv_def http_inv_def)
    then have p: "p = ?p" "served s = []" by (cases "served s"; simp)+
    with assms(2) ph have start: "hnet s = n" "hstate s = c" by (simp_all add: private_inv_def outcome_def)
    from serve_is_round [OF sv [unfolded p(1)]] obtain r where
      r: "one_request fuel net url f n c = Some (hnet t, hstate t, r)"
        "isl r \<longleftrightarrow> hphase t = H_terminated"
      using start by auto
    moreover have "served t \<noteq> [] \<or> hphase t = H_terminated" using serve_outcome [OF sv] by auto
    ultimately show ?thesis by (auto simp: outcome_def)
  qed
  with i show ?thesis by (simp add: private_inv_def)
qed

lemma client_asked_inv: "private_inv net url f n c (client_asked url f n c)"
  by (simp add: private_inv_def outcome_def client_asked_def submit_request_def http_inv_def http_notified_def Request_def
      Start_http_def fresh_HttpClient_def)

interpretation private_client: invariant_steps "\<lambda>s. s = client_asked url f n c" "private_step net" "private_inv net url f n c"
  for net url f n c
  by unfold_locales (auto intro: client_asked_inv private_step_inv)

subsection \<open>The check and the download\<close>

lemma asked_once:
  assumes "(private_step net)\<^sup>*\<^sup>* (client_asked url f n c) s"
  shows "(served s = [] \<and> hphase s \<noteq> H_terminated \<and> hnet s = n \<and> hstate s = c
      \<or> (\<exists>fuel r. one_request fuel net url f n c = Some (hnet s, hstate s, r) \<and> (isl r \<longleftrightarrow> hphase s = H_terminated)))
    \<and> (hstopping s = Stopped \<longrightarrow> hphase s = H_ended)"
  using private_client.reachable_inv [OF refl assms] by (auto simp: private_inv_def outcome_def http_inv_def split: if_splits)

text \<open>
  C11. A check for updates, under any interleaving of the worker with the call and its \<open>Stop\<close> (and with unfounded
  wake-ups): at every moment either nothing has happened, neither on the network nor to the handler and the log, or what
  has happened is exactly what the sequential check does, with an exception of the handler or of the request ending
  the process; and when \<open>Stop\<close> has returned the worker has ended, so nothing happens later.
\<close>

theorem update_check_all_or_nothing:
  assumes "(private_step net)\<^sup>*\<^sup>* (client_asked apiUrl (check_callback callback currentVersion) n c) s"
  shows "(served s = [] \<and> hphase s \<noteq> H_terminated \<and> hnet s = n \<and> hstate s = c
      \<or> (\<exists>fuel r. CheckForUpdates fuel net callback currentVersion n c = Some (hnet s, hstate s, r) \<and> (isl r \<longleftrightarrow> hphase s = H_terminated)))
    \<and> (hstopping s = Stopped \<longrightarrow> hphase s = H_ended)"
  using asked_once [OF assms] by (simp add: CheckForUpdates_def)

text \<open>The download does the same after its first line of the log.\<close>

lemma download_all_or_nothing:
  assumes "(private_step net)\<^sup>*\<^sup>* (client_asked url (download_callback destination) n (c, out @ [log_Info (''Downloading update from: '' @ url)])) s"
  shows "served s = [] \<and> hphase s \<noteq> H_terminated \<and> hnet s = n \<and> hstate s = (c, out @ [log_Info (''Downloading update from: '' @ url)])
      \<or> (\<exists>fuel r. DownloadUpdate fuel net url destination n (c, out) = Some (hnet s, hstate s, r) \<and> (isl r \<longleftrightarrow> hphase s = H_terminated))"
  using asked_once [OF assms] by (auto simp: DownloadUpdate_def)

text \<open>A network without a name service: the request fails at once.\<close>

definition offline :: "Wire Net" where
  "offline = loopback\<lparr>net_resolve := (\<lambda>h s. (s, None))\<rparr>"

lemma offline_request: "PerformRequest (Suc 0) offline (default_HttpRequest\<lparr>rq_method := ''GET'', rq_url := apiUrl\<rparr>) w = Some (w, Inr default_HttpResponse)"
proof -
  have "case parse_url apiUrl of Some (Inr _) \<Rightarrow> True | _ \<Rightarrow> False" by code_simp
  then show ?thesis by (auto simp: PerformRequest_def offline_def split: option.splits sum.splits prod.splits)
qed

definition failed_line :: console where
  "failed_line = log_Warn (''Could not check for updates (status: '' @ show_int 0 @ '')'')"

abbreviation (input) check_run :: "(Wire, unit \<times> console list) HttpWorker" where
  "check_run \<equiv> client_asked apiUrl (check_callback None ''v0.2.0'') (wire []) ((), [])"

theorem update_check_all_or_nothing_witness:
  "\<exists>s fuel. (private_step offline)\<^sup>*\<^sup>* check_run s \<and> hstopping s = Stopped \<and> hstate s = ((), [failed_line])
     \<and> CheckForUpdates fuel offline None ''v0.2.0'' (wire []) ((), []) = Some (wire [], ((), [failed_line]), Inr ())"
proof -
  let ?p = "get_request apiUrl (check_callback None ''v0.2.0'') :: (unit \<times> console list) pending_request"
  let ?st = "\<lambda>q r ph stop c ser. \<lparr>hclient = \<lparr>http_queue = q, http_running = r\<rparr>, hphase = ph, hstopping = stop, hnet = wire [],
      hstate = ((), c), requested = [?p], served = ser\<rparr>"
  let ?l = "[failed_line]"
  have 0: "check_run = ?st [?p] True H_test Not_stopped [] []"
    by (simp add: client_asked_def submit_request_def Request_def Start_http_def fresh_HttpClient_def http_notified_def)
  have w: "http_worker_step offline s t \<Longrightarrow> private_step offline s t" and st: "http_stop_step s t \<Longrightarrow> private_step offline s t"
    for s t :: "(Wire, unit \<times> console list) HttpWorker" by (simp_all add: private_step_def)
  have 1: "private_step offline check_run (?st [?p] True H_predicate Not_stopped [] [])"
    unfolding 0 using w [OF http_worker_step.test [of "?st [?p] True H_test Not_stopped [] []" offline]] by simp
  have 2: "private_step offline (?st [?p] True H_predicate Not_stopped [] []) (?st [?p] True H_second_test Not_stopped [] [])"
    using w [OF http_worker_step.predicate [of "?st [?p] True H_predicate Not_stopped [] []" offline]] by simp
  have 3: "private_step offline (?st [?p] True H_second_test Not_stopped [] []) (?st [?p] True H_take Not_stopped [] [])"
    using w [OF http_worker_step.second_test [of "?st [?p] True H_second_test Not_stopped [] []" offline]] by simp
  have 4: "private_step offline (?st [?p] True H_take Not_stopped [] []) (?st [] True (H_serving ?p) Not_stopped [] [])"
    using w [OF http_worker_step.take_front [of "?st [?p] True H_take Not_stopped [] []" ?p "\<lparr>http_queue = [], http_running = True\<rparr>" offline]]
    by (simp add: take_request_def)
  have "serve 1 offline ?p (?st [] True (H_serving ?p) Not_stopped [] []) = Some (?st [] True H_test Not_stopped ?l [?p])"
    by (simp add: serve_def get_request_def offline_request check_callback_def default_HttpResponse_def failed_line_def)
  then have 5: "private_step offline (?st [] True (H_serving ?p) Not_stopped [] []) (?st [] True H_test Not_stopped ?l [?p])"
    by (intro w http_worker_step.serve) simp_all
  have 6: "private_step offline (?st [] True H_test Not_stopped ?l [?p]) (?st [] False H_test Flag_cleared ?l [?p])"
    using st [OF http_stop_step.clear [of "?st [] True H_test Not_stopped ?l [?p]"]] by (simp add: Stop_http_def)
  have 7: "private_step offline (?st [] False H_test Flag_cleared ?l [?p]) (?st [] False H_ended Flag_cleared ?l [?p])"
    using w [OF http_worker_step.test [of "?st [] False H_test Flag_cleared ?l [?p]" offline]] by simp
  have 8: "private_step offline (?st [] False H_ended Flag_cleared ?l [?p]) (?st [] False H_ended Joining ?l [?p])"
    using st [OF http_stop_step.notify [of "?st [] False H_ended Flag_cleared ?l [?p]"]] by (simp add: http_notified_def)
  have 9: "private_step offline (?st [] False H_ended Joining ?l [?p]) (?st [] False H_ended Stopped ?l [?p])"
    using st [OF http_stop_step.join [of "?st [] False H_ended Joining ?l [?p]"]] by simp
  let ?s = "?st [] False H_ended Stopped ?l [?p]"
  have steps: "(private_step offline)\<^sup>*\<^sup>* check_run ?s"
    by (intro rtranclp_trans [OF three_steps [of "private_step offline", OF 1 2 3]]
        rtranclp_trans [OF three_steps [of "private_step offline", OF 4 5 6]] three_steps [of "private_step offline", OF 7 8 9])
  from update_check_all_or_nothing [OF steps] obtain fuel r where
    r: "CheckForUpdates fuel offline None ''v0.2.0'' (wire []) ((), []) = Some (wire [], ((), ?l), r)" "\<not> isl r" by auto
  then have "r = Inr ()" by (cases r) auto
  with r steps show ?thesis by (intro exI [of _ ?s] exI [of _ fuel]) simp
qed

text \<open>The other case: stopped before its worker has looked, the check is dropped without a line of the log.\<close>

lemma update_check_may_be_dropped:
  "\<exists>s. (private_step offline)\<^sup>*\<^sup>* check_run s \<and> hstopping s = Flag_cleared \<and> hphase s = H_ended \<and> hstate s = ((), [])"
proof -
  let ?s1 = "check_run\<lparr>hclient := Stop_http (hclient check_run), hstopping := Flag_cleared\<rparr>"
  let ?s2 = "?s1\<lparr>hphase := H_ended\<rparr>"
  note d = client_asked_def submit_request_def Request_def Start_http_def fresh_HttpClient_def http_notified_def Stop_http_def
  have "http_stop_step check_run ?s1" using http_stop_step.clear [of check_run] by (simp add: d)
  then have 1: "private_step offline check_run ?s1" by (simp add: private_step_def)
  have "http_worker_step offline ?s1 ?s2" using http_worker_step.test [of ?s1 offline] by (simp add: d)
  then have 2: "private_step offline ?s1 ?s2" by (simp add: private_step_def)
  have "(private_step offline)\<^sup>*\<^sup>* check_run ?s2" by (rule two_steps [of "private_step offline", OF 1 2])
  then show ?thesis by (intro exI [of _ ?s2]) (simp add: d)
qed

end
