(* ===== verification/MCX_Economy.thy ===== *)
theory MCX_Economy
  imports MCX_Strings
begin

text \<open>
  The economy (\<^verbatim>\<open>core/economy_manager.cpp\<close>): accounts with 64-bit balances. An addition
  that leaves the range is undefined behaviour, so the operations return a result.
\<close>

subsection \<open>State and operations\<close>

record Account =
  acc_player :: string
  balance :: int

record EconomyManager =
  accounts :: "(string, Account) umap"
  currencyName :: string
  startingBalance :: int

definition empty_economy :: EconomyManager where
  "empty_economy = \<lparr>accounts = fmempty, currencyName = ''Coins'', startingBalance = 100\<rparr>"

definition CreateAccount :: "string \<Rightarrow> int \<Rightarrow> EconomyManager \<Rightarrow> EconomyManager \<times> console list" where
  "CreateAccount playerId initialBalance m =
     (m\<lparr>accounts := fmupd playerId \<lparr>acc_player = playerId, balance = initialBalance\<rparr> (accounts m)\<rparr>,
      [log_Info (''Created economy account for '' @ playerId)])"

definition DeleteAccount :: "string \<Rightarrow> EconomyManager \<Rightarrow> EconomyManager" where
  "DeleteAccount playerId m = m\<lparr>accounts := fmdrop playerId (accounts m)\<rparr>"

definition GetBalance :: "EconomyManager \<Rightarrow> string \<Rightarrow> int" where
  "GetBalance m playerId = (case fmlookup (accounts m) playerId of Some a \<Rightarrow> balance a | None \<Rightarrow> 0)"

definition Deposit :: "string \<Rightarrow> int \<Rightarrow> EconomyManager \<Rightarrow> (EconomyManager \<times> console list \<times> bool) result" where
  "Deposit playerId amount m =
     (if amount \<le> 0 then Inr (m, [], False)
      else (case fmlookup (accounts m) playerId of
        None \<Rightarrow> (case CreateAccount playerId amount m of (m, out) \<Rightarrow> Inr (m, out, True))
      | Some a \<Rightarrow> rbind (chk64 (balance a + amount)) (\<lambda>b.
          Inr (m\<lparr>accounts := fmupd playerId (a\<lparr>balance := b\<rparr>) (accounts m)\<rparr>, [], True))))"

definition Withdraw :: "string \<Rightarrow> int \<Rightarrow> EconomyManager \<Rightarrow> (EconomyManager \<times> bool) result" where
  "Withdraw playerId amount m =
     (if amount \<le> 0 then Inr (m, False)
      else (case fmlookup (accounts m) playerId of
        None \<Rightarrow> Inr (m, False)
      | Some a \<Rightarrow>
          if balance a < amount then Inr (m, False)
          else rbind (chk64 (balance a - amount)) (\<lambda>b.
            Inr (m\<lparr>accounts := fmupd playerId (a\<lparr>balance := b\<rparr>) (accounts m)\<rparr>, True))))"

definition Transfer :: "string \<Rightarrow> string \<Rightarrow> int \<Rightarrow> EconomyManager \<Rightarrow> (EconomyManager \<times> console list \<times> bool) result" where
  "Transfer fromId toId amount m = rbind (Withdraw fromId amount m) (\<lambda>(m, ok).
     if \<not> ok then Inr (m, [], False)
     else rbind (Deposit toId amount m) (\<lambda>(m, out, _).
       Inr (m, out @ [log_Info (''Transferred '' @ show_int amount @ '' '' @ currencyName m @ '' from '' @ fromId @ '' to '' @ toId)], True)))"

definition SetCurrencyName :: "string \<Rightarrow> EconomyManager \<Rightarrow> EconomyManager" where
  "SetCurrencyName name m = m\<lparr>currencyName := name\<rparr>"

definition SetStartingBalance :: "int \<Rightarrow> EconomyManager \<Rightarrow> EconomyManager" where
  "SetStartingBalance amount m = m\<lparr>startingBalance := amount\<rparr>"

interpretation account_store: keyed_store "\<lambda>m. fmlookup (accounts m)" "\<lambda>i b. \<lparr>acc_player = i, balance = b\<rparr>"
    "\<lambda>i b m. fst (CreateAccount i b m)" DeleteAccount
  by unfold_locales (auto simp: CreateAccount_def DeleteAccount_def fmlookup_fmupd fmlookup_fmdrop)

subsection \<open>Balances\<close>

text \<open>Accounts whose balances are no debts and fit the type.\<close>

definition solvent :: "EconomyManager \<Rightarrow> bool" where
  "solvent m \<longleftrightarrow> (\<forall>i. 0 \<le> GetBalance m i \<and> GetBalance m i \<le> INT64_MAX)"

text \<open>All the money there is.\<close>

definition total :: "EconomyManager \<Rightarrow> int" where
  "total m = sum (GetBalance m) (fset (fmdom (accounts m)))"

lemma total_superset:
  assumes "finite D" "fset (fmdom (accounts m)) \<subseteq> D"
  shows "total m = sum (GetBalance m) D"
  unfolding total_def using assms
  by (intro sum.mono_neutral_left) (auto simp: GetBalance_def fmdom_notD)

lemma sum_fun_upd:
  assumes "finite D" "k \<in> D"
  shows "sum (f(k := v)) D = sum f D - f k + (v :: int)"
proof -
  have "sum (f(k := v)) D = v + sum f (D - {k})"
    using assms by (subst sum.remove [OF assms]) (auto intro: sum.cong)
  also have "sum f (D - {k}) = sum f D - f k"
    using assms by (subst sum.remove [OF assms, of f]) simp
  finally show ?thesis by simp
qed

lemma total_upd:
  assumes "GetBalance m' = (GetBalance m)(k := v)" "fmdom (accounts m') |\<subseteq>| finsert k (fmdom (accounts m))"
  shows "total m' = total m - GetBalance m k + v"
proof -
  let ?D = "insert k (fset (fmdom (accounts m)))"
  have "fset (fmdom (accounts m')) \<subseteq> ?D" using assms(2) by (simp add: less_eq_fset.rep_eq)
  then have "total m' = sum (GetBalance m') ?D" by (intro total_superset) simp_all
  moreover have "total m = sum (GetBalance m) ?D" by (rule total_superset) auto
  moreover have "sum ((GetBalance m)(k := v)) ?D = sum (GetBalance m) ?D - GetBalance m k + v"
    by (intro sum_fun_upd) simp_all
  ultimately show ?thesis unfolding assms(1) by linarith
qed

lemma Deposit_cases:
  assumes "solvent m"
  shows "(amount \<le> 0 \<and> Deposit i amount m = Inr (m, [], False))
    \<or> (0 < amount \<and> \<not> in_int64 (GetBalance m i + amount) \<and> fmlookup (accounts m) i \<noteq> None \<and> Deposit i amount m = Inl Undefined)
    \<or> (0 < amount \<and> (in_int64 (GetBalance m i + amount) \<or> fmlookup (accounts m) i = None)
       \<and> (\<exists>m' out. Deposit i amount m = Inr (m', out, True) \<and> currencyName m' = currencyName m
        \<and> GetBalance m' = (GetBalance m)(i := GetBalance m i + amount)
        \<and> fmdom (accounts m') = finsert i (fmdom (accounts m))))"
proof (cases "fmlookup (accounts m) i")
  case None
  then show ?thesis by (auto simp: Deposit_def CreateAccount_def GetBalance_def fun_eq_iff)
next
  case (Some a)
  then have "i |\<in>| fmdom (accounts m)" by (rule fmdomI)
  with Some show ?thesis
    by (cases "in_int64 (balance a + amount)")
      (auto simp: Deposit_def GetBalance_def fun_eq_iff)
qed

lemma Withdraw_cases:
  assumes "solvent m"
  shows "((amount \<le> 0 \<or> GetBalance m i < amount) \<and> Withdraw i amount m = Inr (m, False))
    \<or> (0 < amount \<and> amount \<le> GetBalance m i \<and> (\<exists>m'. Withdraw i amount m = Inr (m', True) \<and> currencyName m' = currencyName m
        \<and> GetBalance m' = (GetBalance m)(i := GetBalance m i - amount) \<and> fmdom (accounts m') = fmdom (accounts m)
        \<and> fmlookup (accounts m) i \<noteq> None))"
proof (cases "fmlookup (accounts m) i")
  case None
  then show ?thesis by (simp add: Withdraw_def GetBalance_def)
next
  case (Some a)
  then have dom: "i |\<in>| fmdom (accounts m)" by (rule fmdomI)
  have bal: "GetBalance m i = balance a" "0 \<le> balance a" "balance a \<le> INT64_MAX"
    using Some assms by (auto simp: solvent_def GetBalance_def dest: spec [of _ i])
  show ?thesis
  proof (cases "0 < amount \<and> amount \<le> balance a")
    case True
    with bal have "in_int64 (balance a - amount)" by (auto simp: int_range_defs)
    with True Some bal dom show ?thesis
      by (auto simp: Withdraw_def GetBalance_def fun_eq_iff)
  next
    case False
    with Some bal show ?thesis by (auto simp: Withdraw_def)
  qed
qed

lemma Deposit_booked:
  assumes "solvent m" "in_int64 amount" "Deposit i amount m = Inr (m', out, ok)"
  shows "solvent m' \<and> total m' = total m + (if ok then amount else 0)
    \<and> GetBalance m' = (GetBalance m)(i := GetBalance m i + (if ok then amount else 0))"
proof (cases ok)
  case False
  with Deposit_cases [OF assms(1), of amount i] assms show ?thesis by auto
next
  case True
  with Deposit_cases [OF assms(1), of amount i] assms(3)
  have a: "0 < amount" "in_int64 (GetBalance m i + amount) \<or> fmlookup (accounts m) i = None"
    and eff: "GetBalance m' = (GetBalance m)(i := GetBalance m i + amount)" "fmdom (accounts m') = finsert i (fmdom (accounts m))"
    by auto
  have "total m' = total m + amount" using total_upd [OF eff(1)] eff(2) by auto
  moreover have "GetBalance m i + amount \<le> INT64_MAX"
    using a(2) assms(2) by (auto simp: in_int64_def GetBalance_def)
  then have "solvent m'"
    using assms(1) a(1) unfolding solvent_def eff(1) by auto
  ultimately show ?thesis using True eff(1) by simp
qed

lemma Withdraw_booked:
  assumes "solvent m" "Withdraw i amount m = Inr (m', ok)"
  shows "solvent m' \<and> total m' = total m - (if ok then amount else 0)
    \<and> GetBalance m' = (GetBalance m)(i := GetBalance m i - (if ok then amount else 0)) \<and> (ok \<longrightarrow> in_int64 amount)"
proof (cases ok)
  case False
  with Withdraw_cases [OF assms(1), of amount i] assms show ?thesis by auto
next
  case True
  with Withdraw_cases [OF assms(1), of amount i] assms(2)
  have a: "0 < amount" "amount \<le> GetBalance m i"
    and eff: "GetBalance m' = (GetBalance m)(i := GetBalance m i - amount)" "fmdom (accounts m') = fmdom (accounts m)"
    by auto
  have "total m' = total m - amount" using total_upd [OF eff(1)] eff(2) by auto
  moreover have le: "GetBalance m j \<le> INT64_MAX" "0 \<le> GetBalance m j" for j
    using assms(1) by (simp_all add: solvent_def)
  have "solvent m'"
    using le a order_trans [OF _ le(1) [of i], of "GetBalance m i - amount"] unfolding solvent_def eff(1) by auto
  moreover have "in_int64 amount"
    using a le(1) [of i] by (simp add: in_int64_def INT64_MIN_def)
  ultimately show ?thesis using True eff(1) by simp
qed

lemma Transfer_booked:
  assumes "solvent m" "Transfer p q amount m = Inr (m', out, ok)"
  shows "solvent m' \<and> total m' = total m"
proof -
  obtain m1 b where w: "Withdraw p amount m = Inr (m1, b)"
    using assms(2) by (auto simp: Transfer_def rbind_Inr_iff)
  note wb = Withdraw_booked [OF assms(1) w]
  show ?thesis
  proof (cases b)
    case False
    with w wb assms(2) show ?thesis by (simp add: Transfer_def)
  next
    case True
    then obtain out2 ok2 where d: "Deposit q amount m1 = Inr (m', out2, ok2)"
      using assms(2) w by (auto simp: Transfer_def rbind_Inr_iff)
    have "solvent m1" "in_int64 amount" using wb True by simp_all
    from Deposit_booked [OF this d] have "solvent m' \<and> total m' = total m1 + (if ok2 then amount else 0)" by simp
    moreover have "ok2"
    proof -
      have "0 < amount" using Withdraw_cases [OF assms(1), of amount p] w True by auto
      with d show ?thesis by (auto simp: Deposit_def rbind_Inr_iff CreateAccount_def split: option.splits)
    qed
    ultimately show ?thesis using wb True by simp
  qed
qed

subsection \<open>Properties\<close>

text \<open>
  C28. A transfer, between solvent accounts: refused (no account, too little money, an amount
  that is not positive), it changes nothing and writes nothing; accepted, it takes the amount
  from one player and gives it to the other, leaves all other balances and the sum of all money
  as they are; otherwise the receiver's balance would overflow, which is undefined.
\<close>

theorem transfer_conserves_money:
  assumes "solvent m"
  shows "case Transfer p q amount m of
      Inl e \<Rightarrow> e = Undefined \<and> INT64_MAX < GetBalance m q + amount
    | Inr (m', out, False) \<Rightarrow> m' = m \<and> out = [] \<and> (amount \<le> 0 \<or> GetBalance m p < amount)
    | Inr (m', out, True) \<Rightarrow> 0 < amount \<and> amount \<le> GetBalance m p \<and> solvent m' \<and> total m' = total m
        \<and> (\<forall>i. i \<noteq> p \<and> i \<noteq> q \<longrightarrow> GetBalance m' i = GetBalance m i)
        \<and> (p \<noteq> q \<longrightarrow> GetBalance m' p = GetBalance m p - amount \<and> GetBalance m' q = GetBalance m q + amount)
        \<and> (p = q \<longrightarrow> GetBalance m' p = GetBalance m p)"
  using Withdraw_cases [OF assms, of amount p]
proof (elim disjE)
  assume "(amount \<le> 0 \<or> GetBalance m p < amount) \<and> Withdraw p amount m = Inr (m, False)"
  then show ?thesis by (simp add: Transfer_def)
next
  assume "0 < amount \<and> amount \<le> GetBalance m p \<and> (\<exists>m'. Withdraw p amount m = Inr (m', True) \<and> currencyName m' = currencyName m
        \<and> GetBalance m' = (GetBalance m)(p := GetBalance m p - amount) \<and> fmdom (accounts m') = fmdom (accounts m)
        \<and> fmlookup (accounts m) p \<noteq> None)"
  then obtain m1 where pos: "0 < amount" "amount \<le> GetBalance m p" and w: "Withdraw p amount m = Inr (m1, True)"
    and eff: "GetBalance m1 = (GetBalance m)(p := GetBalance m p - amount)" by blast
  have m1: "solvent m1" "in_int64 amount" using Withdraw_booked [OF assms w] by simp_all
  consider "Deposit q amount m1 = Inl Undefined" "\<not> in_int64 (GetBalance m1 q + amount)"
    | m2 out where "Deposit q amount m1 = Inr (m2, out, True)"
    using Deposit_cases [OF m1(1), of amount q] pos(1) by auto
  then show ?thesis
  proof cases
    case 1
    have "0 \<le> GetBalance m1 q" "GetBalance m p \<le> INT64_MAX" using m1(1) assms by (simp_all add: solvent_def)
    with 1(2) pos have "INT64_MAX < GetBalance m1 q + amount"
      by (auto simp: in_int64_def INT64_MIN_def)
    moreover have "GetBalance m1 q \<le> GetBalance m q" using pos(1) by (simp add: eff)
    ultimately show ?thesis using 1(1) w by (simp add: Transfer_def)
  next
    case 2
    then have t: "Transfer p q amount m = Inr (m2, out @ [log_Info (''Transferred '' @ show_int amount @ '' '' @ currencyName m2
        @ '' from '' @ p @ '' to '' @ q)], True)"
      using w by (simp add: Transfer_def)
    have "GetBalance m2 = (GetBalance m1)(q := GetBalance m1 q + amount)"
      using Deposit_booked [OF m1 2] by simp
    with t pos Transfer_booked [OF assms t] show ?thesis by (simp add: eff)
  qed
qed

definition two_accounts :: EconomyManager where
  "two_accounts = empty_economy\<lparr>accounts := fmap_of_list [(''a'', \<lparr>acc_player = ''a'', balance = 70\<rparr>), (''b'', \<lparr>acc_player = ''b'', balance = 5\<rparr>)]\<rparr>"

lemma two_accounts_solvent: "solvent two_accounts"
  by (auto simp: solvent_def two_accounts_def GetBalance_def INT64_MAX_def fmlookup_of_list map_of_Cons_code split: option.splits if_splits)

theorem transfer_conserves_money_witness:
  "case Transfer ''a'' ''b'' 30 two_accounts of Inr (m', out, ok) \<Rightarrow> ok \<and> GetBalance m' ''b'' = 35 \<and> total m' = total two_accounts | Inl e \<Rightarrow> False"
proof -
  have "case Transfer ''a'' ''b'' 30 two_accounts of Inr (m', out, ok) \<Rightarrow> ok | Inl e \<Rightarrow> False" by code_simp
  moreover have "GetBalance two_accounts ''b'' = 5" by code_simp
  ultimately show ?thesis
    using transfer_conserves_money [OF two_accounts_solvent, where p = "''a''" and q = "''b''" and amount = 30]
    by (auto split: sum.splits prod.splits bool.splits)
qed

subsection \<open>Histories\<close>

datatype economy_op = Op_Deposit string int | Op_Withdraw string int | Op_Transfer string string int

text \<open>One operation, with what it books: the amount of an accepted deposit or withdrawal.\<close>

fun economy_exec :: "economy_op \<Rightarrow> EconomyManager \<Rightarrow> (EconomyManager \<times> int) result" where
  "economy_exec (Op_Deposit p a) m = rmap (\<lambda>(m, out, ok). (m, if ok then a else 0)) (Deposit p a m)"
| "economy_exec (Op_Withdraw p a) m = rmap (\<lambda>(m, ok). (m, if ok then - a else 0)) (Withdraw p a m)"
| "economy_exec (Op_Transfer p q a) m = rmap (\<lambda>(m, out, ok). (m, 0)) (Transfer p q a m)"

fun economy_run :: "economy_op list \<Rightarrow> EconomyManager \<Rightarrow> (EconomyManager \<times> int) result" where
  "economy_run [] m = Inr (m, 0)"
| "economy_run (c # cs) m = rbind (economy_exec c m) (\<lambda>(m, x). rmap (\<lambda>(m, y). (m, x + y)) (economy_run cs m))"

fun amount_of :: "economy_op \<Rightarrow> int" where
  "amount_of (Op_Deposit p a) = a"
| "amount_of (Op_Withdraw p a) = a"
| "amount_of (Op_Transfer p q a) = a"

lemma economy_exec_booked:
  assumes "solvent m" "in_int64 (amount_of c)" "economy_exec c m = Inr (m', x)"
  shows "solvent m' \<and> total m' = total m + x"
proof (cases c)
  case (Op_Deposit p a)
  with assms(3) obtain out ok where "Deposit p a m = Inr (m', out, ok)" "x = (if ok then a else 0)"
    by (auto simp: rmap_Inr_iff)
  with Deposit_booked [OF assms(1), of a p m' out ok] assms(2) Op_Deposit show ?thesis by auto
next
  case (Op_Withdraw p a)
  with assms(3) obtain ok where "Withdraw p a m = Inr (m', ok)" "x = (if ok then - a else 0)"
    by (auto simp: rmap_Inr_iff)
  with Withdraw_booked [OF assms(1), of p a m' ok] show ?thesis by auto
next
  case (Op_Transfer p q a)
  with assms(3) obtain out ok where "Transfer p q a m = Inr (m', out, ok)" "x = 0"
    by (auto simp: rmap_Inr_iff)
  with Transfer_booked [OF assms(1), of p q a m' out ok] show ?thesis by auto
qed

text \<open>
  The books balance: after any sequence of deposits, withdrawals and transfers on solvent
  accounts, unless a balance overflowed, the sum of all money has changed by exactly the
  accepted deposits less the accepted withdrawals, and no balance is negative.
\<close>

theorem economy_books_balance:
  assumes "solvent m" "\<forall>c \<in> set cs. in_int64 (amount_of c)" "economy_run cs m = Inr (m', booked)"
  shows "solvent m' \<and> total m' = total m + booked"
  using assms
proof (induction cs arbitrary: m booked)
  case Nil
  then show ?case by simp
next
  case (Cons c cs)
  from Cons.prems(3) obtain m1 x y where 1: "economy_exec c m = Inr (m1, x)" and 2: "economy_run cs m1 = Inr (m', y)"
    and "booked = x + y"
    by (auto simp: rbind_Inr_iff rmap_Inr_iff)
  moreover have "solvent m1 \<and> total m1 = total m + x"
    using Cons.prems by (intro economy_exec_booked [OF _ _ 1]) auto
  ultimately show ?case using Cons.IH [of m1 y] Cons.prems(2) by simp
qed

theorem economy_books_balance_witness:
  "\<exists>m'. economy_run [Op_Deposit ''c'' 10, Op_Withdraw ''a'' 100, Op_Transfer ''a'' ''c'' 20, Op_Withdraw ''b'' 2] two_accounts = Inr (m', 8)
     \<and> total m' = total two_accounts + 8"
proof -
  let ?cs = "[Op_Deposit ''c'' 10, Op_Withdraw ''a'' 100, Op_Transfer ''a'' ''c'' 20, Op_Withdraw ''b'' 2]"
  have b: "case economy_run ?cs two_accounts of Inl e \<Rightarrow> False | Inr r \<Rightarrow> snd r = 8" by code_simp
  then obtain m' where r: "economy_run ?cs two_accounts = Inr (m', 8)"
    by (auto split: sum.splits)
  have "\<forall>c \<in> set ?cs. in_int64 (amount_of c)" by (simp add: int_range_defs)
  from economy_books_balance [OF two_accounts_solvent this r] r show ?thesis by blast
qed

end
