(* ===== verification/MCX_Stats.thy ===== *)
theory MCX_Stats
  imports MCX_Double
begin

text \<open>
  Player statistics (\<^verbatim>\<open>core/stats_manager.cpp\<close>): six 64-bit counters per player, created by
  the first record, and the ranking by kills.
\<close>

subsection \<open>State and operations\<close>

record StatValue =
  kills :: int
  deaths :: int
  blocksMined :: int
  blocksPlaced :: int
  playTimeMinutes :: int
  distanceTraveled :: int

definition zero_StatValue :: StatValue where
  "zero_StatValue = \<lparr>kills = 0, deaths = 0, blocksMined = 0, blocksPlaced = 0, playTimeMinutes = 0, distanceTraveled = 0\<rparr>"

record StatsManager =
  stats :: "(string, StatValue) umap"

definition empty_stats :: StatsManager where
  "empty_stats = \<lparr>stats = fmempty\<rparr>"

definition GetStats :: "StatsManager \<Rightarrow> string \<Rightarrow> StatValue" where
  "GetStats m playerId = (case fmlookup (stats m) playerId of Some v \<Rightarrow> v | None \<Rightarrow> zero_StatValue)"

text \<open>\<^verbatim>\<open>stats_[playerId]\<close> creates a zero entry; the addition to a counter may overflow.\<close>

definition record_stat :: "string \<Rightarrow> (StatValue \<Rightarrow> StatValue result) \<Rightarrow> StatsManager \<Rightarrow> StatsManager result" where
  "record_stat playerId f m = rmap (\<lambda>v. m\<lparr>stats := fmupd playerId v (stats m)\<rparr>) (f (GetStats m playerId))"

definition RecordKill :: "string \<Rightarrow> StatsManager \<Rightarrow> StatsManager result" where
  "RecordKill playerId m = record_stat playerId (\<lambda>v. rmap (\<lambda>n. v\<lparr>kills := n\<rparr>) (chk64 (kills v + 1))) m"

definition RecordDeath :: "string \<Rightarrow> StatsManager \<Rightarrow> StatsManager result" where
  "RecordDeath playerId m = record_stat playerId (\<lambda>v. rmap (\<lambda>n. v\<lparr>deaths := n\<rparr>) (chk64 (deaths v + 1))) m"

definition RecordBlockMined :: "string \<Rightarrow> StatsManager \<Rightarrow> StatsManager result" where
  "RecordBlockMined playerId m = record_stat playerId (\<lambda>v. rmap (\<lambda>n. v\<lparr>blocksMined := n\<rparr>) (chk64 (blocksMined v + 1))) m"

definition RecordBlockPlaced :: "string \<Rightarrow> StatsManager \<Rightarrow> StatsManager result" where
  "RecordBlockPlaced playerId m = record_stat playerId (\<lambda>v. rmap (\<lambda>n. v\<lparr>blocksPlaced := n\<rparr>) (chk64 (blocksPlaced v + 1))) m"

definition RecordPlayTime :: "string \<Rightarrow> int \<Rightarrow> StatsManager \<Rightarrow> StatsManager result" where
  "RecordPlayTime playerId minutes m =
     record_stat playerId (\<lambda>v. rmap (\<lambda>n. v\<lparr>playTimeMinutes := n\<rparr>) (chk64 (playTimeMinutes v + minutes))) m"

definition RecordDistance :: "string \<Rightarrow> int \<Rightarrow> StatsManager \<Rightarrow> StatsManager result" where
  "RecordDistance playerId blocks m =
     record_stat playerId (\<lambda>v. rmap (\<lambda>n. v\<lparr>distanceTraveled := n\<rparr>) (chk64 (distanceTraveled v + blocks))) m"

text \<open>
  The ranking. \<open>ids\<close> is the order in which the hash map is walked; the sort by kills, whose
  order among equal kills is not specified, is stable over that order, and every outcome of an
  unstable sort is the stable outcome of some other order.
\<close>

definition GetTopKills :: "string list \<Rightarrow> StatsManager \<Rightarrow> nat \<Rightarrow> (string \<times> int) list" where
  "GetTopKills ids m limit =
     (let top = sort_key (\<lambda>p. - snd p) (map (\<lambda>(i, v). (i, kills v)) (entries ids (stats m)))
      in if length top > limit then take limit top else top)"

definition GetKDRatio :: "StatsManager \<Rightarrow> string \<Rightarrow> double" where
  "GetKDRatio m playerId = (case fmlookup (stats m) playerId of
     None \<Rightarrow> 0
   | Some v \<Rightarrow> if deaths v = 0 then dbl_of_int (kills v) else dbl_div (dbl_of_int (kills v)) (dbl_of_int (deaths v)))"

definition SaveToFile_stats :: "string \<Rightarrow> console list" where
  "SaveToFile_stats path = [log_Info (''Stats saved to '' @ path)]"

definition LoadFromFile_stats :: "string \<Rightarrow> console list" where
  "LoadFromFile_stats path = [log_Info (''Stats loaded from '' @ path)]"

subsection \<open>Histories\<close>

datatype stat_op = Kill string | Death string | Mined string | Placed string | PlayTime string int | Distance string int

fun stat_exec :: "stat_op \<Rightarrow> StatsManager \<Rightarrow> StatsManager result" where
  "stat_exec (Kill i) m = RecordKill i m"
| "stat_exec (Death i) m = RecordDeath i m"
| "stat_exec (Mined i) m = RecordBlockMined i m"
| "stat_exec (Placed i) m = RecordBlockPlaced i m"
| "stat_exec (PlayTime i n) m = RecordPlayTime i n m"
| "stat_exec (Distance i n) m = RecordDistance i n m"

fun stat_run :: "stat_op list \<Rightarrow> StatsManager \<Rightarrow> StatsManager result" where
  "stat_run [] m = Inr m"
| "stat_run (c # cs) m = rbind (stat_exec c m) (stat_run cs)"

fun op_player :: "stat_op \<Rightarrow> string" where
  "op_player (Kill i) = i" | "op_player (Death i) = i" | "op_player (Mined i) = i"
| "op_player (Placed i) = i" | "op_player (PlayTime i n) = i" | "op_player (Distance i n) = i"

text \<open>What an operation adds to the counters of its player.\<close>

fun op_delta :: "stat_op \<Rightarrow> StatValue \<Rightarrow> StatValue" where
  "op_delta (Kill i) v = v\<lparr>kills := kills v + 1\<rparr>"
| "op_delta (Death i) v = v\<lparr>deaths := deaths v + 1\<rparr>"
| "op_delta (Mined i) v = v\<lparr>blocksMined := blocksMined v + 1\<rparr>"
| "op_delta (Placed i) v = v\<lparr>blocksPlaced := blocksPlaced v + 1\<rparr>"
| "op_delta (PlayTime i n) v = v\<lparr>playTimeMinutes := playTimeMinutes v + n\<rparr>"
| "op_delta (Distance i n) v = v\<lparr>distanceTraveled := distanceTraveled v + n\<rparr>"

lemma GetStats_upd: "GetStats (m\<lparr>stats := fmupd i v (stats m)\<rparr>) = (GetStats m)(i := v)"
  by (auto simp: GetStats_def fun_eq_iff)

lemma stat_exec_effect:
  "stat_exec c m = Inr m' \<Longrightarrow> GetStats m' = (GetStats m)(op_player c := op_delta c (GetStats m (op_player c)))
    \<and> fmdom (stats m') = finsert (op_player c) (fmdom (stats m))"
  by (cases c) (auto simp: RecordKill_def RecordDeath_def RecordBlockMined_def RecordBlockPlaced_def
      RecordPlayTime_def RecordDistance_def record_stat_def rmap_Inr_iff chk64_Inr_iff GetStats_upd)

lemma stat_run_effect:
  "stat_run cs m = Inr m' \<Longrightarrow> GetStats m' i = fold op_delta (filter (\<lambda>c. op_player c = i) cs) (GetStats m i)
    \<and> fset (fmdom (stats m')) = op_player ` set cs \<union> fset (fmdom (stats m))"
proof (induction cs arbitrary: m)
  case Nil
  then show ?case by simp
next
  case (Cons c cs)
  then obtain m1 where 1: "stat_exec c m = Inr m1" "stat_run cs m1 = Inr m'" by (auto simp: rbind_Inr_iff)
  from stat_exec_effect [OF 1(1)] Cons.IH [OF 1(2)] show ?case by auto
qed

text \<open>
  C37. Statistics of different players are independent and exact: after any sequence of records
  in which no counter overflowed, the counters of each player are the sums of what was recorded
  for that player alone, and a player has an entry exactly if something was recorded for it.
\<close>

theorem stats_history:
  assumes "stat_run cs empty_stats = Inr m"
  shows "GetStats m i = fold op_delta (filter (\<lambda>c. op_player c = i) cs) zero_StatValue
    \<and> (fmlookup (stats m) i \<noteq> None \<longleftrightarrow> i \<in> op_player ` set cs)"
proof -
  have "GetStats empty_stats i = zero_StatValue" by (simp add: GetStats_def empty_stats_def)
  moreover have "fset (fmdom (stats empty_stats)) = {}" by (simp add: empty_stats_def)
  ultimately show ?thesis
    using stat_run_effect [OF assms, of i] by (auto simp: fmlookup_dom_iff)
qed

theorem stats_history_witness:
  "\<exists>m. stat_run [Kill ''a'', Death ''b'', Kill ''a'', PlayTime ''a'' 5] empty_stats = Inr m
     \<and> GetStats m ''a'' = zero_StatValue\<lparr>kills := 2, playTimeMinutes := 5\<rparr>"
proof -
  let ?cs = "[Kill ''a'', Death ''b'', Kill ''a'', PlayTime ''a'' 5]"
  have "case stat_run ?cs empty_stats of Inl e \<Rightarrow> False | Inr m \<Rightarrow> True" by code_simp
  then obtain m where r: "stat_run ?cs empty_stats = Inr m" by (auto split: sum.splits)
  from stats_history [OF r, of "''a''"] r show ?thesis by (simp add: zero_StatValue_def)
qed

subsection \<open>The ranking\<close>

lemma sorted_desc_take:
  assumes "sorted (map f xs)" "x \<in> set (take n xs)" "y \<in> set (drop n xs)"
  shows "f x \<le> f y"
proof -
  have "sorted (map f (take n xs @ drop n xs))" using assms(1) by simp
  then have "sorted (map f (take n xs) @ map f (drop n xs))" by (simp only: map_append)
  with assms(2,3) show ?thesis unfolding sorted_append by auto
qed

text \<open>
  The ranking, whatever the order of the hash map: it lists distinct players with their
  exact kills, by falling kills, as many as asked for or all there are, and every player it
  leaves out has at most as many kills as every player it lists.
\<close>

theorem top_kills_ranking:
  assumes "enumerates ids (stats m)"
  shows "let top = GetTopKills ids m n in
    length top = min n (umap_size (stats m)) \<and> distinct (map fst top) \<and> sorted (rev (map snd top))
    \<and> (\<forall>(i, k) \<in> set top. \<exists>v. fmlookup (stats m) i = Some v \<and> k = kills v)
    \<and> (\<forall>j v. fmlookup (stats m) j = Some v \<longrightarrow> j \<notin> fst ` set top \<longrightarrow> (\<forall>(i, k) \<in> set top. kills v \<le> k))"
proof -
  let ?all = "map (\<lambda>(i, v). (i, kills v)) (entries ids (stats m))"
  let ?s = "sort_key (\<lambda>p. - snd p) ?all"
  have top: "GetTopKills ids m n = take n ?s"
    by (simp add: GetTopKills_def Let_def)
  have len: "length ?s = umap_size (stats m)" using length_entries [OF assms] by simp
  have fst_all: "map fst ?all = ids"
    using map_fst_entries_enum [OF assms] by (simp add: comp_def case_prod_unfold)
  have set_s: "(i, k) \<in> set ?s \<longleftrightarrow> (\<exists>v. fmlookup (stats m) i = Some v \<and> k = kills v)" for i k
    using set_entries_enum [OF assms] by force
  have "distinct (map fst ?all)" using fst_all assms by (simp add: enumerates_def)
  have dist: "distinct (map fst ?s)"
  proof -
    have "mset (map fst ?s) = mset (map fst ?all)" by (simp only: mset_map mset_sort)
    then show ?thesis using \<open>distinct (map fst ?all)\<close> mset_eq_imp_distinct_iff by blast
  qed
  have sorted: "sorted (map (\<lambda>p. - snd p) ?s)" by simp
  have desc: "sorted (rev (map snd (take n ?s)))"
  proof -
    have "sorted (map (\<lambda>p. - snd p) (take n ?s))" using sorted by (simp only: take_map [symmetric] sorted_wrt_take)
    then show ?thesis
      by (simp add: sorted_wrt_map sorted_wrt_rev flip: rev_map)
  qed
  have rest: "kills v \<le> k" if "fmlookup (stats m) j = Some v" "j \<notin> fst ` set (take n ?s)" "(i, k) \<in> set (take n ?s)" for j v i k
  proof -
    have "(j, kills v) \<in> set ?s" using that(1) set_s by blast
    moreover have "(j, kills v) \<notin> set (take n ?s)" using that(2) by force
    ultimately have "(j, kills v) \<in> set (drop n ?s)" by (metis Un_iff append_take_drop_id set_append)
    from sorted_desc_take [OF sorted that(3) this] show ?thesis by simp
  qed
  show ?thesis
    unfolding Let_def top using len dist desc set_s rest
    by (auto simp: take_map [symmetric] min.commute dest: in_set_takeD intro: distinct_take)
qed

theorem top_kills_ranking_witness:
  "let top = GetTopKills [''a'', ''b'', ''c''] \<lparr>stats = fmap_of_list [(''a'', zero_StatValue\<lparr>kills := 2\<rparr>),
      (''b'', zero_StatValue\<lparr>kills := 7\<rparr>), (''c'', zero_StatValue)]\<rparr> 2 in length top = 2 \<and> sorted (rev (map snd top))"
proof -
  let ?m = "\<lparr>stats = fmap_of_list [(''a'', zero_StatValue\<lparr>kills := 2\<rparr>), (''b'', zero_StatValue\<lparr>kills := 7\<rparr>), (''c'', zero_StatValue)]\<rparr>"
  have e: "enumerates [''a'', ''b'', ''c''] (stats ?m)" by (auto simp: enumerates_def)
  have "umap_size (stats ?m) = 3" using length_entries [OF e] by (simp add: fmlookup_of_list)
  with top_kills_ranking [OF e, of 2] show ?thesis by (simp add: Let_def)
qed

end
