(* ===== verification/MCX_Kits.thy ===== *)
theory MCX_Kits
  imports MCX_Strings
begin

text \<open>
  Kits and their cooldowns (\<^verbatim>\<open>core/kit_manager.cpp\<close>). The readings of the steady clock, in
  seconds, are arguments.
\<close>

subsection \<open>State and operations\<close>

record KitItem =
  itemId :: string
  item_count :: int
  enchantments :: string

record Kit =
  kit_name :: string
  kit_items :: "KitItem list"
  cooldownSeconds :: int
  kit_permission :: string

definition default_Kit :: Kit where
  "default_Kit = \<lparr>kit_name = [], kit_items = [], cooldownSeconds = 0, kit_permission = []\<rparr>"

record KitManager =
  kits :: "(string, Kit) umap"
  lastReceived :: "(string, (string, int) umap) umap"

definition empty_kits :: KitManager where
  "empty_kits = \<lparr>kits = fmempty, lastReceived = fmempty\<rparr>"

definition DefineKit :: "string \<Rightarrow> Kit \<Rightarrow> KitManager \<Rightarrow> KitManager \<times> console list" where
  "DefineKit name kit m = (m\<lparr>kits := fmupd name kit (kits m)\<rparr>, [log_Info (''Defined kit: '' @ name)])"

definition DeleteKit :: "string \<Rightarrow> KitManager \<Rightarrow> KitManager \<times> console list" where
  "DeleteKit name m = (m\<lparr>kits := fmdrop name (kits m)\<rparr>, [log_Info (''Deleted kit: '' @ name)])"

definition last_time :: "KitManager \<Rightarrow> string \<Rightarrow> string \<Rightarrow> int option" where
  "last_time m playerId kitName = (case fmlookup (lastReceived m) playerId of
     None \<Rightarrow> None | Some received \<Rightarrow> fmlookup received kitName)"

definition CanReceiveKit :: "int \<Rightarrow> KitManager \<Rightarrow> string \<Rightarrow> string \<Rightarrow> bool" where
  "CanReceiveKit now m playerId kitName = (case fmlookup (kits m) kitName of
     None \<Rightarrow> False
   | Some kit \<Rightarrow> (case last_time m playerId kitName of
       None \<Rightarrow> True
     | Some t \<Rightarrow> now - t \<ge> cooldownSeconds kit))"

text \<open>The clock is read once for the check and again (\<open>later\<close>) for the entry.\<close>

definition GiveKit :: "int \<Rightarrow> int \<Rightarrow> string \<Rightarrow> string \<Rightarrow> KitManager \<Rightarrow> KitManager \<times> console list \<times> bool" where
  "GiveKit now later playerId kitName m =
     (if \<not> CanReceiveKit now m playerId kitName then (m, [], False)
      else case fmlookup (kits m) kitName of
        None \<Rightarrow> (m, [], False)
      | Some _ \<Rightarrow>
          let received = (case fmlookup (lastReceived m) playerId of None \<Rightarrow> fmempty | Some ts \<Rightarrow> ts) in
          (m\<lparr>lastReceived := fmupd playerId (fmupd kitName later received) (lastReceived m)\<rparr>,
           [log_Info (''Gave kit '' @ kitName @ '' to player '' @ playerId)], True))"

text \<open>The names, in the order of the hash map.\<close>

definition ListKits :: "string list \<Rightarrow> KitManager \<Rightarrow> string list" where
  "ListKits names m = map fst (entries names (kits m))"

definition GetKit :: "KitManager \<Rightarrow> string \<Rightarrow> Kit" where
  "GetKit m name = (case fmlookup (kits m) name of Some k \<Rightarrow> k | None \<Rightarrow> default_Kit)"

definition LoadKitsFromFile :: "string \<Rightarrow> console list" where
  "LoadKitsFromFile path = [log_Info (''Loading kits from '' @ path)]"

definition SaveKitsToFile :: "string \<Rightarrow> console list" where
  "SaveKitsToFile path = [log_Info (''Saving kits to '' @ path)]"

interpretation kit_store: keyed_store "\<lambda>m. fmlookup (kits m)" "\<lambda>n k. k"
    "\<lambda>n k m. fst (DefineKit n k m)" "\<lambda>n m. fst (DeleteKit n m)"
  by unfold_locales (auto simp: DefineKit_def DeleteKit_def fmlookup_fmupd fmlookup_fmdrop)

lemma ListKits_all: "enumerates names (kits m) \<Longrightarrow> ListKits names m = names"
  by (simp add: ListKits_def map_fst_entries_enum)

subsection \<open>Cooldowns\<close>

lemma GiveKit_refused: "\<not> CanReceiveKit now m p k \<Longrightarrow> GiveKit now later p k m = (m, [], False)"
  by (simp add: GiveKit_def)

lemma GiveKit_given:
  "CanReceiveKit now m p k \<Longrightarrow> \<exists>m'. GiveKit now later p k m = (m', [log_Info (''Gave kit '' @ k @ '' to player '' @ p)], True)
     \<and> kits m' = kits m
     \<and> (\<forall>q j. last_time m' q j = (if q = p \<and> j = k then Some later else last_time m q j))"
  by (auto simp: GiveKit_def CanReceiveKit_def last_time_def Let_def split: option.splits)

text \<open>
  A history: kits defined, redefined and deleted, and attempts of any players at any kits, each with the time
  of its check and the delay to the entry. The second component collects the deliveries of one kit to one
  player, with the cooldown that the kit had when it was delivered.
\<close>

datatype kit_call = Define string Kit | Delete string | Attempt int nat string string

fun kit_exec :: "string \<Rightarrow> string \<Rightarrow> kit_call \<Rightarrow> KitManager \<times> (int \<times> int) list \<Rightarrow> KitManager \<times> (int \<times> int) list" where
  "kit_exec p k (Define name kit) (m, ds) = (fst (DefineKit name kit m), ds)"
| "kit_exec p k (Delete name) (m, ds) = (fst (DeleteKit name m), ds)"
| "kit_exec p k (Attempt now delay q j) (m, ds) = (case GiveKit now (now + int delay) q j m of
     (m', out, given) \<Rightarrow> (m', if given \<and> q = p \<and> j = k then ds @ [(now + int delay, cooldownSeconds (GetKit m k))] else ds))"

definition kit_history :: "string \<Rightarrow> string \<Rightarrow> kit_call list \<Rightarrow> KitManager \<times> (int \<times> int) list" where
  "kit_history p k calls = fold (kit_exec p k) calls (empty_kits, [])"

definition latest :: "(int \<times> int) list \<Rightarrow> int option" where
  "latest ds = (if ds = [] then None else Some (fst (last ds)))"

definition spaced :: "(int \<times> int) list \<Rightarrow> bool" where
  "spaced ds \<longleftrightarrow> successively (\<lambda>(s, _) (t, cooldown). cooldown \<le> t - s) ds"

lemma spaced_append1: "spaced (ds @ [(t, c)]) \<longleftrightarrow> spaced ds \<and> (case latest ds of None \<Rightarrow> True | Some s \<Rightarrow> c \<le> t - s)"
  by (cases ds rule: rev_cases) (auto simp: spaced_def latest_def successively_append_iff split: prod.split)

lemma spaced_single [simp]: "spaced []" "spaced [d]"
  by (simp_all add: spaced_def)

text \<open>The manager remembers the latest delivery, whatever becomes of the definition of the kit.\<close>

lemma kit_exec_inv:
  assumes "last_time m p k = latest ds" "spaced ds" "kit_exec p k c (m, ds) = (m', ds')"
  shows "last_time m' p k = latest ds' \<and> spaced ds'"
proof (cases c)
  case (Attempt now delay q j)
  show ?thesis
  proof (cases "CanReceiveKit now m q j")
    case False
    with assms Attempt show ?thesis by (simp add: GiveKit_refused)
  next
    case True
    from GiveKit_given [OF this, of "now + int delay"] obtain m1 out where give: "GiveKit now (now + int delay) q j m = (m1, out, True)"
      and recorded: "\<forall>r i. last_time m1 r i = (if r = q \<and> i = j then Some (now + int delay) else last_time m r i)" by blast
    from True assms(1) have "q = p \<and> j = k \<longrightarrow> (case latest ds of None \<Rightarrow> True | Some s \<Rightarrow> cooldownSeconds (GetKit m k) \<le> now - s)"
      by (auto simp: CanReceiveKit_def GetKit_def split: option.splits)
    with assms Attempt give recorded show ?thesis
      by (auto simp: spaced_append1 latest_def split: option.splits if_splits)
  qed
qed (use assms in \<open>auto simp: DefineKit_def DeleteKit_def last_time_def\<close>)

lemma kit_fold_inv:
  "last_time m p k = latest ds \<Longrightarrow> spaced ds \<Longrightarrow> fold (kit_exec p k) calls (m, ds) = (m', ds') \<Longrightarrow>
     last_time m' p k = latest ds' \<and> spaced ds'"
proof (induction calls arbitrary: m ds)
  case (Cons c calls)
  obtain m1 ds1 where e: "kit_exec p k c (m, ds) = (m1, ds1)" by fastforce
  from kit_exec_inv [OF Cons.prems(1,2) e] Cons.IH [of m1 ds1] Cons.prems(3) e show ?case by simp
qed simp

lemma GiveKit_granted_iff:
  "snd (snd (GiveKit now later p k m)) \<longleftrightarrow> CanReceiveKit now m p k"
  by (auto simp: GiveKit_def CanReceiveKit_def Let_def split: option.splits)

text \<open>
  C32. Cooldowns hold whatever is defined, redefined, deleted and attempted, in any order and at any times:
  a delivery of a kit to a player comes at least the cooldown that the kit then has after the delivery
  before it, also when the kit was deleted or redefined in between. And the cooldown is the only reason to
  refuse a kit that is defined: an attempt is granted exactly when the latest delivery to this player is that
  long ago, or there was none.
\<close>

theorem kit_cooldown_respected:
  assumes "kit_history p k calls = (m, ds)"
  shows "successively (\<lambda>(s, _) (t, cooldown). cooldown \<le> t - s) ds
    \<and> (snd (snd (GiveKit now later p k m)) \<longleftrightarrow> (case fmlookup (kits m) k of None \<Rightarrow> False
        | Some kit \<Rightarrow> ds = [] \<or> cooldownSeconds kit \<le> now - fst (last ds)))"
proof -
  have "last_time empty_kits p k = latest []" "spaced []" by (simp_all add: empty_kits_def last_time_def latest_def spaced_def)
  from kit_fold_inv [OF this, of calls m ds] assms have "last_time m p k = latest ds" "spaced ds" by (simp_all add: kit_history_def)
  then show ?thesis
    by (auto simp: GiveKit_granted_iff CanReceiveKit_def latest_def spaced_def split: option.splits if_splits)
qed

definition starter :: "int \<Rightarrow> Kit" where
  "starter seconds = default_Kit\<lparr>kit_name := ''starter'', cooldownSeconds := seconds\<rparr>"

text \<open>The kit is deleted and defined again with a shorter cooldown: the delivery at 61 still counts.\<close>

theorem kit_cooldown_respected_witness:
  "let (m, ds) = kit_history ''a'' ''starter'' [Define ''starter'' (starter 60), Attempt 0 0 ''a'' ''starter'',
      Attempt 30 0 ''a'' ''starter'', Attempt 59 1 ''b'' ''starter'', Attempt 60 1 ''a'' ''starter'', Delete ''starter'',
      Attempt 90 0 ''a'' ''starter'', Define ''starter'' (starter 40), Attempt 100 0 ''a'' ''starter'', Attempt 101 0 ''a'' ''starter'']
   in ds = [(0, 60), (61, 60), (101, 40)] \<and> successively (\<lambda>(s, _) (t, cooldown). cooldown \<le> t - s) ds
     \<and> \<not> snd (snd (GiveKit 140 140 ''a'' ''starter'' m)) \<and> snd (snd (GiveKit 141 141 ''a'' ''starter'' m))"
proof -
  let ?h = "kit_history ''a'' ''starter'' [Define ''starter'' (starter 60), Attempt 0 0 ''a'' ''starter'',
      Attempt 30 0 ''a'' ''starter'', Attempt 59 1 ''b'' ''starter'', Attempt 60 1 ''a'' ''starter'', Delete ''starter'',
      Attempt 90 0 ''a'' ''starter'', Define ''starter'' (starter 40), Attempt 100 0 ''a'' ''starter'', Attempt 101 0 ''a'' ''starter'']"
  have ds: "snd ?h = [(0, 60), (61, 60), (101, 40)]" by code_simp
  have kit: "map_option cooldownSeconds (fmlookup (kits (fst ?h)) ''starter'') = Some 40" by code_simp
  have h: "?h = (fst ?h, [(0, 60), (61, 60), (101, 40)])" using ds by (metis prod.collapse)
  note c = kit_cooldown_respected [OF h]
  have "snd (snd (GiveKit now later ''a'' ''starter'' (fst ?h))) \<longleftrightarrow> 40 \<le> now - 101" for now later
    using c [of now later, THEN conjunct2] kit by (auto split: option.splits)
  then show ?thesis using c [THEN conjunct1] ds by (simp add: case_prod_beta)
qed

end
