(* ===== verification/MCX_Bans.thy ===== *)
theory MCX_Bans
  imports MCX_Strings
begin

text \<open>
  The ban list (\<^verbatim>\<open>core/ban_manager.cpp\<close>). Times are readings of the system clock in
  nanoseconds.
\<close>

subsection \<open>State and operations\<close>

record BanEntry =
  ban_player :: string
  ban_reason :: string
  expires :: int
  permanent :: bool

record BanManager =
  bans :: "(string, BanEntry) umap"

definition empty_bans :: BanManager where
  "empty_bans = \<lparr>bans = fmempty\<rparr>"

definition ns_per_hour :: int where "ns_per_hour = 3600000000000"

text \<open>The conversion of the hours to the clock's ticks and the addition may overflow.\<close>

definition Ban :: "int \<Rightarrow> string \<Rightarrow> string \<Rightarrow> int \<Rightarrow> BanManager \<Rightarrow> (BanManager \<times> console list) result" where
  "Ban now playerId reason duration m =
     rbind (chk64 (duration * ns_per_hour)) (\<lambda>d. rbind (chk64 (now + d)) (\<lambda>t.
       Inr (m\<lparr>bans := fmupd playerId \<lparr>ban_player = playerId, ban_reason = reason, expires = t, permanent = False\<rparr> (bans m)\<rparr>,
            [log_Info (''Player banned: '' @ playerId @ '' for '' @ reason)])))"

definition BanPermanent :: "string \<Rightarrow> string \<Rightarrow> BanManager \<Rightarrow> BanManager \<times> console list" where
  "BanPermanent playerId reason m =
     (m\<lparr>bans := fmupd playerId \<lparr>ban_player = playerId, ban_reason = reason, expires = 0, permanent = True\<rparr> (bans m)\<rparr>,
      [log_Info (''Player permanently banned: '' @ playerId)])"

definition Unban :: "string \<Rightarrow> BanManager \<Rightarrow> BanManager \<times> console list" where
  "Unban playerId m = (m\<lparr>bans := fmdrop playerId (bans m)\<rparr>, [log_Info (''Player unbanned: '' @ playerId)])"

definition IsBanned :: "int \<Rightarrow> BanManager \<Rightarrow> string \<Rightarrow> bool" where
  "IsBanned now m playerId = (case fmlookup (bans m) playerId of
     None \<Rightarrow> False
   | Some e \<Rightarrow> if permanent e then True else now < expires e)"

text \<open>The active entries in the order \<open>ids\<close> of the hash map.\<close>

definition GetActiveBans :: "string list \<Rightarrow> int \<Rightarrow> BanManager \<Rightarrow> BanEntry list" where
  "GetActiveBans ids now m = filter (\<lambda>e. permanent e \<or> now < expires e) (map snd (entries ids (bans m)))"

definition LoadFromFile_bans :: "string \<Rightarrow> console list" where
  "LoadFromFile_bans path = [log_Info (''Ban list loaded from '' @ path)]"

definition SaveToFile_bans :: "string \<Rightarrow> console list" where
  "SaveToFile_bans path = [log_Info (''Ban list saved to '' @ path)]"

subsection \<open>Histories\<close>

datatype ban_op = Op_Ban int string string int | Op_BanPermanent string string | Op_Unban string

fun ban_exec :: "ban_op \<Rightarrow> BanManager \<Rightarrow> BanManager" where
  "ban_exec (Op_Ban now p r d) m = (case Ban now p r d m of Inr (m', _) \<Rightarrow> m' | Inl _ \<Rightarrow> m)"
| "ban_exec (Op_BanPermanent p r) m = fst (BanPermanent p r m)"
| "ban_exec (Op_Unban p) m = fst (Unban p m)"

text \<open>The verdict on one player: not banned, until a time, or for ever.\<close>

datatype verdict = Free | Until int | Forever

fun verdict_of :: "BanEntry option \<Rightarrow> verdict" where
  "verdict_of None = Free"
| "verdict_of (Some e) = (if permanent e then Forever else Until (expires e))"

fun verdict_spec :: "string \<Rightarrow> ban_op \<Rightarrow> verdict \<Rightarrow> verdict" where
  "verdict_spec p (Op_Ban now q r d) v = (if q = p \<and> in_int64 (d * ns_per_hour) \<and> in_int64 (now + d * ns_per_hour)
     then Until (now + d * ns_per_hour) else v)"
| "verdict_spec p (Op_BanPermanent q r) v = (if q = p then Forever else v)"
| "verdict_spec p (Op_Unban q) v = (if q = p then Free else v)"

fun in_force :: "int \<Rightarrow> verdict \<Rightarrow> bool" where
  "in_force now Free = False"
| "in_force now (Until t) = (now < t)"
| "in_force now Forever = True"

lemma verdict_simulation: "simulation ban_exec (\<lambda>m. verdict_of (fmlookup (bans m) p)) (verdict_spec p)"
proof
  fix c m
  show "verdict_of (fmlookup (bans (ban_exec c m)) p) = verdict_spec p c (verdict_of (fmlookup (bans m) p))"
    by (cases c) (auto simp: Ban_def BanPermanent_def Unban_def chk64_def)
qed

interpretation verdict: simulation ban_exec "\<lambda>m. verdict_of (fmlookup (bans m) p)" "verdict_spec p" for p
  by (rule verdict_simulation)

lemma IsBanned_verdict: "IsBanned now m p \<longleftrightarrow> in_force now (verdict_of (fmlookup (bans m) p))"
  by (simp add: IsBanned_def split: option.split)

definition bans_wf :: "BanManager \<Rightarrow> bool" where
  "bans_wf m \<longleftrightarrow> (\<forall>p e. fmlookup (bans m) p = Some e \<longrightarrow> ban_player e = p)"

interpretation ban_machine: invariant_machine ban_exec bans_wf
proof
  fix m c
  assume "bans_wf m"
  then show "bans_wf (ban_exec c m)"
    by (cases c) (auto simp: bans_wf_def Ban_def BanPermanent_def Unban_def chk64_def)
qed

text \<open>
  C35. After any history of bans, permanent bans and unbans of any players (those whose time
  overflows aside, which are undefined), a player is banned at a time exactly if the last
  operation on that player was a permanent ban, or a ban whose term has not passed; and the
  list of active bans at that time names, once each, exactly the players that are banned.
\<close>

theorem ban_history:
  assumes "enumerates ids (bans (fold ban_exec ops empty_bans))"
  shows "(IsBanned now (fold ban_exec ops empty_bans) p \<longleftrightarrow> in_force now (fold (verdict_spec p) ops Free))
    \<and> distinct (map ban_player (GetActiveBans ids now (fold ban_exec ops empty_bans)))
    \<and> set (map ban_player (GetActiveBans ids now (fold ban_exec ops empty_bans))) =
      {q. in_force now (fold (verdict_spec q) ops Free)}"
proof -
  let ?m = "fold ban_exec ops empty_bans"
  have eq: "IsBanned now ?m q \<longleftrightarrow> in_force now (fold (verdict_spec q) ops Free)" for q
    by (simp add: IsBanned_verdict verdict.abs_run) (simp add: empty_bans_def)
  have "bans_wf ?m" by (rule ban_machine.run_inv) (simp add: bans_wf_def empty_bans_def)
  then have wf: "ban_player e = q" if "(q, e) \<in> set (entries ids (bans ?m))" for q e
    using that by (auto simp: bans_wf_def set_entries)
  have "map ban_player (map snd (entries ids (bans ?m))) = map fst (entries ids (bans ?m))"
    using wf by auto
  also have "\<dots> = ids" by (rule map_fst_entries_enum [OF assms])
  finally have "distinct (map ban_player (map snd (entries ids (bans ?m))))"
    using assms by (simp add: enumerates_def)
  then have dist: "distinct (map ban_player (GetActiveBans ids now ?m))"
    unfolding GetActiveBans_def by (rule distinct_map_filter)
  have "q \<in> ban_player ` set (GetActiveBans ids now ?m) \<longleftrightarrow> IsBanned now ?m q" for q
    using set_entries_enum [OF assms] \<open>bans_wf ?m\<close>
    by (force simp: GetActiveBans_def IsBanned_def bans_wf_def image_iff split: option.split)
  then have "set (map ban_player (GetActiveBans ids now ?m)) = {q. IsBanned now ?m q}" by auto
  with eq dist show ?thesis by simp
qed

theorem ban_history_witness:
  "IsBanned 5 (fold ban_exec [Op_Ban 0 ''a'' ''spam'' 1, Op_BanPermanent ''b'' ''x'', Op_Unban ''b''] empty_bans) ''a''
   \<and> set (map ban_player (GetActiveBans [''a''] 5
       (fold ban_exec [Op_Ban 0 ''a'' ''spam'' 1, Op_BanPermanent ''b'' ''x'', Op_Unban ''b''] empty_bans))) = {''a''}"
proof -
  let ?ops = "[Op_Ban 0 ''a'' ''spam'' 1, Op_BanPermanent ''b'' ''x'', Op_Unban ''b'']"
  have e: "enumerates [''a''] (bans (fold ban_exec ?ops empty_bans))"
    by (auto simp: enumerates_def Ban_def BanPermanent_def Unban_def empty_bans_def ns_per_hour_def int_range_defs)
  have "{q. in_force 5 (fold (verdict_spec q) ?ops Free)} = {''a''}"
    by (auto simp: ns_per_hour_def int_range_defs)
  with ban_history [OF e, of 5 "''a''"] show ?thesis
    by (simp add: ns_per_hour_def int_range_defs)
qed

end
