(* ===== verification/MCX_Teleport.thy ===== *)
theory MCX_Teleport
  imports MCX_Double MCX_Strings
begin

text \<open>
  Teleport requests (\<^verbatim>\<open>core/teleport_manager.cpp\<close>): at most one pending request per target.
  Times are readings of the steady clock in nanoseconds.
\<close>

subsection \<open>State and operations\<close>

record TeleportRequest =
  requesterId :: string
  targetId :: string
  timestamp :: int

record TeleportManager =
  pendingRequests :: "(string, TeleportRequest) umap"
  spawnPoints :: "(string, double \<times> double \<times> double) umap"

definition empty_teleports :: TeleportManager where
  "empty_teleports = \<lparr>pendingRequests = fmempty, spawnPoints = fmempty\<rparr>"

definition RequestTeleport :: "int \<Rightarrow> string \<Rightarrow> string \<Rightarrow> TeleportManager \<Rightarrow> TeleportManager \<times> console list" where
  "RequestTeleport now requester target m =
     (m\<lparr>pendingRequests := fmupd target \<lparr>requesterId = requester, targetId = target, timestamp = now\<rparr> (pendingRequests m)\<rparr>,
      [log_Info (''Teleport request from '' @ requester @ '' to '' @ target)])"

definition AcceptTeleport :: "string \<Rightarrow> TeleportManager \<Rightarrow> TeleportManager \<times> console list" where
  "AcceptTeleport target m = (case fmlookup (pendingRequests m) target of
     None \<Rightarrow> (m, [])
   | Some _ \<Rightarrow> (m\<lparr>pendingRequests := fmdrop target (pendingRequests m)\<rparr>, [log_Info (''Teleport accepted by '' @ target)]))"

definition DenyTeleport :: "string \<Rightarrow> TeleportManager \<Rightarrow> TeleportManager \<times> console list" where
  "DenyTeleport target m = (case fmlookup (pendingRequests m) target of
     None \<Rightarrow> (m, [])
   | Some _ \<Rightarrow> (m\<lparr>pendingRequests := fmdrop target (pendingRequests m)\<rparr>, [log_Info (''Teleport denied by '' @ target)]))"

text \<open>The first request of the requester in the order \<open>ids\<close> of the hash map is erased.\<close>

definition CancelTeleport :: "string list \<Rightarrow> string \<Rightarrow> TeleportManager \<Rightarrow> TeleportManager \<times> console list" where
  "CancelTeleport ids requester m =
     (case List.find (\<lambda>(t, r). requesterId r = requester) (entries ids (pendingRequests m)) of
        None \<Rightarrow> (m, [])
      | Some (t, _) \<Rightarrow> (m\<lparr>pendingRequests := fmdrop t (pendingRequests m)\<rparr>, [log_Info (''Teleport cancelled by '' @ requester)]))"

definition TeleportToPlayer :: "string \<Rightarrow> string \<Rightarrow> console list" where
  "TeleportToPlayer player target = [log_Info (''Teleporting '' @ player @ '' to player '' @ target)]"

definition TeleportToCoords :: "string \<Rightarrow> double \<Rightarrow> double \<Rightarrow> double \<Rightarrow> console list" where
  "TeleportToCoords player x y z = [log_Info (''Teleporting '' @ player @ '' to coordinates (''
     @ to_string_double x @ '', '' @ to_string_double y @ '', '' @ to_string_double z @ '')'')]"

definition TeleportToSpawn :: "string \<Rightarrow> console list" where
  "TeleportToSpawn player = [log_Info (''Teleporting '' @ player @ '' to spawn'')]"

definition SetSpawnPoint :: "string \<Rightarrow> double \<Rightarrow> double \<Rightarrow> double \<Rightarrow> TeleportManager \<Rightarrow> TeleportManager \<times> console list" where
  "SetSpawnPoint world x y z m = (m\<lparr>spawnPoints := fmupd world (x, y, z) (spawnPoints m)\<rparr>,
     [log_Info (''Spawn point set for world '' @ world)])"

text \<open>The age in whole seconds, rounded toward zero.\<close>

definition age_seconds :: "int \<Rightarrow> int \<Rightarrow> int" where
  "age_seconds now t = (let d = now - t in if 0 \<le> d then d div 1000000000 else - ((- d) div 1000000000))"

definition ClearExpiredRequests :: "int \<Rightarrow> TeleportManager \<Rightarrow> TeleportManager" where
  "ClearExpiredRequests now m = m\<lparr>pendingRequests :=
     fmfilter (\<lambda>t. case fmlookup (pendingRequests m) t of None \<Rightarrow> True | Some r \<Rightarrow> \<not> age_seconds now (timestamp r) > 60)
       (pendingRequests m)\<rparr>"

subsection \<open>One target\<close>

text \<open>What a target sees: who has asked, and when.\<close>

definition pending_for :: "string \<Rightarrow> TeleportManager \<Rightarrow> (string \<times> int) option" where
  "pending_for t m = map_option (\<lambda>r. (requesterId r, timestamp r)) (fmlookup (pendingRequests m) t)"

datatype teleport_op = Op_Request int string string | Op_Accept string | Op_Deny string | Op_Expire int

fun teleport_exec :: "teleport_op \<Rightarrow> TeleportManager \<Rightarrow> TeleportManager" where
  "teleport_exec (Op_Request now r t) m = fst (RequestTeleport now r t m)"
| "teleport_exec (Op_Accept t) m = fst (AcceptTeleport t m)"
| "teleport_exec (Op_Deny t) m = fst (DenyTeleport t m)"
| "teleport_exec (Op_Expire now) m = ClearExpiredRequests now m"

fun pending_spec :: "string \<Rightarrow> teleport_op \<Rightarrow> (string \<times> int) option \<Rightarrow> (string \<times> int) option" where
  "pending_spec i (Op_Request now r t) x = (if t = i then Some (r, now) else x)"
| "pending_spec i (Op_Accept t) x = (if t = i then None else x)"
| "pending_spec i (Op_Deny t) x = (if t = i then None else x)"
| "pending_spec i (Op_Expire now) x = (case x of None \<Rightarrow> None | Some (r, s) \<Rightarrow> if age_seconds now s > 60 then None else x)"

lemma pending_simulation: "simulation teleport_exec (pending_for i) (pending_spec i)"
proof
  fix c m
  show "pending_for i (teleport_exec c m) = pending_spec i c (pending_for i m)"
    by (cases c) (auto simp: pending_for_def RequestTeleport_def AcceptTeleport_def DenyTeleport_def
        ClearExpiredRequests_def split: option.split)
qed

interpretation one_target: simulation teleport_exec "pending_for i" "pending_spec i" for i
  by (rule pending_simulation)

text \<open>
  Teleport requests: after any history, the request pending for a target is the last one
  made to it, unless it has been accepted, denied or found older than 60 seconds since; what
  happens to other targets does not matter, and a new request replaces the pending one.
\<close>

theorem teleport_history:
  "pending_for i (fold teleport_exec ops empty_teleports) = fold (pending_spec i) ops None"
  by (simp add: one_target.abs_run) (simp add: pending_for_def empty_teleports_def)

text \<open>
  Cancelling removes at most one request, whatever the order of the hash map: if the
  requester has a request pending, exactly one of its requests is removed, so with two of them
  one stays pending; the requests of others are never touched.
\<close>

theorem cancel_removes_one:
  assumes "enumerates ids (pendingRequests m)"
  shows "let m' = fst (CancelTeleport ids requester m); mine = (\<lambda>m. {t. \<exists>s. pending_for t m = Some (requester, s)}) in
    (mine m = {} \<longrightarrow> m' = m)
    \<and> (mine m \<noteq> {} \<longrightarrow> (\<exists>t \<in> mine m. mine m' = mine m - {t} \<and> (\<forall>u. u \<noteq> t \<longrightarrow> pending_for u m' = pending_for u m)))"
proof -
  let ?es = "entries ids (pendingRequests m)"
  let ?mine = "{t. \<exists>s. pending_for t m = Some (requester, s)}"
  have mine: "t \<in> ?mine \<longleftrightarrow> (\<exists>r. (t, r) \<in> set ?es \<and> requesterId r = requester)" for t
    using set_entries_enum [OF assms] by (auto simp: pending_for_def)
  show ?thesis
  proof (cases "List.find (\<lambda>(t, r). requesterId r = requester) ?es")
    case None
    then have "?mine = {}" using mine by (auto simp: find_None_iff)
    with None show ?thesis by (simp add: CancelTeleport_def Let_def)
  next
    case (Some e)
    obtain t r where e: "e = (t, r)" by fastforce
    with Some have tr: "(t, r) \<in> set ?es" "requesterId r = requester"
      by (auto simp: find_Some_iff in_set_conv_nth)
    then have t: "t \<in> ?mine" using mine by blast
    have m': "fst (CancelTeleport ids requester m) = m\<lparr>pendingRequests := fmdrop t (pendingRequests m)\<rparr>"
      using Some e by (simp add: CancelTeleport_def)
    have eff: "pending_for u (fst (CancelTeleport ids requester m)) = (if u = t then None else pending_for u m)" for u
      unfolding m' by (simp add: pending_for_def)
    then have "{u. \<exists>s. pending_for u (fst (CancelTeleport ids requester m)) = Some (requester, s)} = ?mine - {t}"
      by auto
    with t eff show ?thesis by (auto simp: Let_def)
  qed
qed

theorem cancel_removes_one_witness:
  "let m = fold teleport_exec [Op_Request 0 ''a'' ''x'', Op_Request 1 ''a'' ''y'', Op_Request 2 ''b'' ''z''] empty_teleports;
       m' = fst (CancelTeleport [''x'', ''y'', ''z''] ''a'' m) in
   \<exists>t. {u. \<exists>s. pending_for u m' = Some (''a'', s)} = {u. \<exists>s. pending_for u m = Some (''a'', s)} - {t}"
proof -
  let ?m = "fold teleport_exec [Op_Request 0 ''a'' ''x'', Op_Request 1 ''a'' ''y'', Op_Request 2 ''b'' ''z''] empty_teleports"
  have e: "enumerates [''x'', ''y'', ''z''] (pendingRequests ?m)"
    by (auto simp: enumerates_def RequestTeleport_def empty_teleports_def)
  have x: "''x'' \<in> {u. \<exists>s. pending_for u ?m = Some (''a'', s)}"
    by (simp add: pending_for_def RequestTeleport_def empty_teleports_def)
  from cancel_removes_one [OF e, of "''a''"] x show ?thesis unfolding Let_def by blast
qed

end
