(* ===== verification/MCX_Chat.thy ===== *)
theory MCX_Chat
  imports MCX_Strings
begin

text \<open>
  The chat filter (\<^verbatim>\<open>core/chat_filter.cpp\<close>). The regular expressions of the standard library
  are a parameter: how a pattern compiles, and what a compiled one finds, matches and replaces.
\<close>

subsection \<open>State and operations\<close>

text \<open>Compiling may throw \<^verbatim>\<open>regex_error\<close>; the flag is \<^verbatim>\<open>icase\<close>.\<close>

record 'r Regex =
  compile :: "string \<Rightarrow> bool \<Rightarrow> 'r result"
  regex_search :: "string \<Rightarrow> 'r \<Rightarrow> bool"
  regex_match :: "string \<Rightarrow> 'r \<Rightarrow> bool"
  regex_replace :: "string \<Rightarrow> 'r \<Rightarrow> string \<Rightarrow> string"

record 'r ChatFilter =
  profanityFilters :: "'r list"
  spamPatterns :: "'r list"
  maxMessageLength :: nat
  playerMessages :: "(string, int list) umap"

definition empty_filter :: "'r ChatFilter" where
  "empty_filter = \<lparr>profanityFilters = [], spamPatterns = [], maxMessageLength = 256, playerMessages = fmempty\<rparr>"

definition AddProfanityFilter :: "'r Regex \<Rightarrow> string \<Rightarrow> 'r ChatFilter \<Rightarrow> 'r ChatFilter result" where
  "AddProfanityFilter re pattern f = rmap (\<lambda>r. f\<lparr>profanityFilters := profanityFilters f @ [r]\<rparr>) (compile re pattern True)"

definition AddSpamPattern :: "'r Regex \<Rightarrow> string \<Rightarrow> 'r ChatFilter \<Rightarrow> 'r ChatFilter result" where
  "AddSpamPattern re pattern f = rmap (\<lambda>r. f\<lparr>spamPatterns := spamPatterns f @ [r]\<rparr>) (compile re pattern False)"

definition SetMaxMessageLength :: "nat \<Rightarrow> 'r ChatFilter \<Rightarrow> 'r ChatFilter" where
  "SetMaxMessageLength maxLen f = f\<lparr>maxMessageLength := maxLen\<rparr>"

definition IsClean :: "'r Regex \<Rightarrow> 'r ChatFilter \<Rightarrow> string \<Rightarrow> bool" where
  "IsClean re f message =
     (if length message > maxMessageLength f then False
      else \<not> list_ex (\<lambda>r. regex_search re message r) (profanityFilters f))"

definition Sanitize :: "'r Regex \<Rightarrow> 'r ChatFilter \<Rightarrow> string \<Rightarrow> string" where
  "Sanitize re f message = foldl (\<lambda>s r. regex_replace re s r ''***'') message (profanityFilters f)"

text \<open>
  Times are nanoseconds of the steady clock, which does not go back; the age in whole seconds
  is cut, so a message leaves the list from six seconds on.
\<close>

definition too_old :: "int \<Rightarrow> int \<Rightarrow> bool" where
  "too_old now ts \<longleftrightarrow> (now - ts) div 1000000000 > 5"

definition IsSpam :: "'r Regex \<Rightarrow> int \<Rightarrow> string \<Rightarrow> string \<Rightarrow> 'r ChatFilter \<Rightarrow> 'r ChatFilter \<times> bool" where
  "IsSpam re now message playerId f =
     (let timestamps = filter (\<lambda>ts. \<not> too_old now ts)
            (case fmlookup (playerMessages f) playerId of None \<Rightarrow> [] | Some ts \<Rightarrow> ts)
      in if length timestamps \<ge> 5 then (f\<lparr>playerMessages := fmupd playerId timestamps (playerMessages f)\<rparr>, True)
         else (f\<lparr>playerMessages := fmupd playerId (timestamps @ [now]) (playerMessages f)\<rparr>,
               list_ex (\<lambda>r. regex_match re message r) (spamPatterns f)))"

subsection \<open>The rate limit\<close>

definition window :: "string \<Rightarrow> 'r ChatFilter \<Rightarrow> int list" where
  "window p f = (case fmlookup (playerMessages f) p of None \<Rightarrow> [] | Some ts \<Rightarrow> ts)"

lemma too_old_iff: "too_old now ts \<longleftrightarrow> ts + 6000000000 \<le> now"
proof -
  have "(5 < (now - ts) div 1000000000) \<longleftrightarrow> 6000000000 \<le> now - ts"
    using div_mult_mod_eq [of "now - ts" 1000000000] pos_mod_bound [of 1000000000 "now - ts"]
      pos_mod_sign [of 1000000000 "now - ts"] by linarith
  then show ?thesis by (simp add: too_old_def algebra_simps)
qed

lemma IsSpam_window:
  "window q (fst (IsSpam re now msg p f)) =
     (if q = p then let ts = filter (\<lambda>t. \<not> too_old now t) (window p f) in if length ts \<ge> 5 then ts else ts @ [now]
      else window q f)"
  by (simp add: IsSpam_def window_def Let_def)

lemma IsSpam_verdict:
  "snd (IsSpam re now msg p f) \<longleftrightarrow>
     length (filter (\<lambda>t. \<not> too_old now t) (window p f)) \<ge> 5 \<or> list_ex (\<lambda>r. regex_match re msg r) (spamPatterns f)"
  by (simp add: IsSpam_def window_def Let_def)

lemma IsSpam_patterns: "spamPatterns (fst (IsSpam re now msg p f)) = spamPatterns f"
  by (simp add: IsSpam_def Let_def)

text \<open>
  A history of calls with the times at which they are made: messages of any players, new spam patterns and
  profanity filters (one that does not compile throws and leaves the filter as it was), other maximal
  lengths. The second component collects the times of the messages of one player that \<open>IsSpam\<close> let
  through.
\<close>

datatype chat_call = Said string string | Spam_pattern string | Profanity string | Max_length nat

fun chat_exec :: "'r Regex \<Rightarrow> string \<Rightarrow> int \<times> chat_call \<Rightarrow> 'r ChatFilter \<times> int list \<Rightarrow> 'r ChatFilter \<times> int list" where
  "chat_exec re q (now, Said p msg) (f, ts) = (case IsSpam re now msg p f of
     (f, spam) \<Rightarrow> (f, if p = q \<and> \<not> spam then ts @ [now] else ts))"
| "chat_exec re q (now, Spam_pattern pat) (f, ts) = (case AddSpamPattern re pat f of Inl e \<Rightarrow> (f, ts) | Inr f \<Rightarrow> (f, ts))"
| "chat_exec re q (now, Profanity pat) (f, ts) = (case AddProfanityFilter re pat f of Inl e \<Rightarrow> (f, ts) | Inr f \<Rightarrow> (f, ts))"
| "chat_exec re q (now, Max_length n) (f, ts) = (SetMaxMessageLength n f, ts)"

definition chat_history :: "'r Regex \<Rightarrow> string \<Rightarrow> (int \<times> chat_call) list \<Rightarrow> 'r ChatFilter \<times> int list" where
  "chat_history re q calls = fold (chat_exec re q) calls (empty_filter, [])"

definition recent :: "int \<Rightarrow> int list \<Rightarrow> int list" where
  "recent now ts = filter (\<lambda>t. now - t < 6000000000) ts"

lemma recent_not_old: "recent now ts = filter (\<lambda>t. \<not> too_old now t) ts"
  unfolding recent_def too_old_iff by (rule filter_cong) auto

lemma recent_append [simp]: "recent now (ts @ us) = recent now ts @ recent now us"
  by (simp add: recent_def)

lemma recent_recent: "n \<le> now \<Longrightarrow> recent now (recent n ts) = recent now ts"
  unfolding recent_def filter_filter by (rule filter_cong) auto

text \<open>What an operation other than a message leaves alone.\<close>

lemma chat_exec_quiet:
  assumes "\<nexists>p msg. c = Said p msg" "chat_exec re q (now, c) (f, ts) = (f', ts')"
  shows "ts' = ts \<and> playerMessages f' = playerMessages f \<and> (spamPatterns f' = [] \<longrightarrow> spamPatterns f = [])"
  using assms by (cases c)
    (auto simp: AddSpamPattern_def AddProfanityFilter_def SetMaxMessageLength_def rmap_def split: sum.splits)

text \<open>
  The invariant: the messages let through are among those of the window, and are these when there is no
  pattern; before each of them fewer than five had been let through within six seconds.
\<close>

definition chat_inv :: "string \<Rightarrow> int \<Rightarrow> 'r ChatFilter \<times> int list \<Rightarrow> bool" where
  "chat_inv q since x \<longleftrightarrow> (case x of (f, ts) \<Rightarrow>
     (\<forall>now \<ge> since. length (recent now ts) \<le> length (recent now (window q f)))
     \<and> (spamPatterns f = [] \<longrightarrow> (\<forall>now \<ge> since. recent now (window q f) = recent now ts))
     \<and> (\<forall>pre t post. ts = pre @ t # post \<longrightarrow> length (recent t pre) < 5))"

lemma chat_exec_inv:
  assumes "chat_inv q since (f, ts)" "since \<le> now"
  shows "chat_inv q now (chat_exec re q (now, c) (f, ts))"
proof (cases "\<exists>p msg. c = Said p msg")
  case False
  obtain f' ts' where e: "chat_exec re q (now, c) (f, ts) = (f', ts')" by fastforce
  from chat_exec_quiet [OF False this] assms show ?thesis by (auto simp: e chat_inv_def window_def)
next
  case True
  then obtain p msg where c: "c = Said p msg" by blast
  let ?f = "fst (IsSpam re now msg p f)"
  let ?w = "recent now (window q f)"
  have few: "length (recent now ts) \<le> length ?w" and same: "spamPatterns f = [] \<Longrightarrow> \<forall>n \<ge> since. recent n (window q f) = recent n ts"
    and old: "\<forall>n \<ge> now. length (recent n ts) \<le> length (recent n (window q f))"
    and split: "\<forall>pre t post. ts = pre @ t # post \<longrightarrow> length (recent t pre) < 5"
    using assms by (auto simp: chat_inv_def)
  have pats: "spamPatterns ?f = spamPatterns f" by (rule IsSpam_patterns)
  have keep: "recent n ?w = recent n (window q f)" if "now \<le> n" for n using that by (rule recent_recent)
  have step: "chat_exec re q (now, c) (f, ts) = (?f, if p = q \<and> \<not> snd (IsSpam re now msg p f) then ts @ [now] else ts)"
    by (simp add: c split: prod.split)
  show ?thesis
  proof (cases "p = q")
    case False
    then have "window q ?f = window q f" by (simp add: IsSpam_window)
    with False pats assms step show ?thesis by (auto simp: chat_inv_def)
  next
    case True
    have verdict: "snd (IsSpam re now msg p f) \<longleftrightarrow> length ?w \<ge> 5 \<or> list_ex (\<lambda>r. regex_match re msg r) (spamPatterns f)"
      by (simp add: IsSpam_verdict True recent_not_old)
    have win: "window q ?f = (if length ?w \<ge> 5 then ?w else ?w @ [now])"
      by (simp add: IsSpam_window True recent_not_old Let_def)
    show ?thesis
    proof (cases "snd (IsSpam re now msg p f)")
      case True
      with step verdict win old same keep pats split assms(2) show ?thesis
        by (auto simp: chat_inv_def le_SucI)
    next
      case False
      with verdict have "length ?w < 5" by simp
      moreover from this few split have "\<forall>pre t post. ts @ [now] = pre @ t # post \<longrightarrow> length (recent t pre) < 5"
        by (auto simp: append_eq_Cons_conv append_eq_append_conv2 Cons_eq_append_conv)
      ultimately show ?thesis using step win old same keep pats False True assms(2) by (auto simp: chat_inv_def)
    qed
  qed
qed

lemma chat_fold_inv:
  "chat_inv q since x \<Longrightarrow> sorted (since # map fst calls) \<Longrightarrow> (\<forall>c \<in> set calls. fst c \<le> now) \<Longrightarrow> since \<le> now \<Longrightarrow>
     chat_inv q now (fold (chat_exec re q) calls x)"
proof (induction calls arbitrary: since x)
  case Nil
  then show ?case by (auto simp: chat_inv_def)
next
  case (Cons c calls)
  have "chat_inv q (fst c) (chat_exec re q c x)" using chat_exec_inv [of q since "fst x" "snd x" "fst c" re "snd c"] Cons.prems by simp
  then show ?case using Cons.IH [of "fst c"] Cons.prems by simp
qed

lemma chat_history_inv:
  assumes "sorted (map fst calls)" "\<forall>c \<in> set calls. fst c \<le> now"
  shows "chat_inv q now (chat_history re q calls)"
proof (cases calls)
  case Nil
  then show ?thesis by (simp add: chat_history_def chat_inv_def window_def empty_filter_def)
next
  case (Cons c cs)
  have "chat_inv q (fst c) (empty_filter, [])" by (simp add: chat_inv_def window_def empty_filter_def)
  from chat_fold_inv [OF this, of calls now re] assms Cons show ?thesis by (simp add: chat_history_def)
qed

text \<open>
  C39. The rate limit of the chat, in any history of messages of any players, with patterns, filters and
  lengths added at any point: before each message of a player that \<open>IsSpam\<close> let through, fewer than
  five of the same player had been let through within six seconds (the code announces five seconds); a
  message that is let through matches no pattern, and while no pattern has been added a message
  is spam if and only if five were let through in the six seconds before it.
\<close>

theorem chat_rate_limit:
  assumes "sorted (map fst calls)" "\<forall>c \<in> set calls. fst c \<le> now" "chat_history re q calls = (f, ts)"
  shows "(\<forall>pre t post. ts = pre @ t # post \<longrightarrow> length (recent t pre) < 5)
    \<and> (\<not> snd (IsSpam re now msg q f) \<longrightarrow> length (recent now ts) < 5 \<and> \<not> list_ex (\<lambda>r. regex_match re msg r) (spamPatterns f))
    \<and> (spamPatterns f = [] \<longrightarrow> (snd (IsSpam re now msg q f) \<longleftrightarrow> length (recent now ts) \<ge> 5))"
  using chat_history_inv [OF assms(1,2), of q re] assms(3)
  by (fastforce simp: chat_inv_def IsSpam_verdict recent_not_old [symmetric])

text \<open>Patterns are compared for equality in the examples.\<close>

definition literal_regex :: "string Regex" where
  "literal_regex = \<lparr>compile = (\<lambda>p i. Inr p), regex_search = (\<lambda>s r. s = r), regex_match = (\<lambda>s r. s = r), regex_replace = (\<lambda>s r t. s)\<rparr>"

theorem chat_rate_limit_witness:
  "snd (IsSpam literal_regex 5900000000 ''hi'' ''a'' (fst (chat_history literal_regex ''a'' [(0, Max_length 10),
       (0, Said ''a'' []), (1, Said ''a'' []), (2, Said ''b'' []), (2, Said ''a'' []), (3, Said ''a'' []), (4, Said ''a'' []), (5, Said ''a'' [])])))
   \<and> snd (chat_history literal_regex ''a'' [(0, Spam_pattern ''x''), (1, Said ''a'' ''x''), (2, Said ''a'' ''y'')]) = [2]
   \<and> \<not> snd (IsSpam literal_regex 3 ''z'' ''a'' (fst (chat_history literal_regex ''a'' [(0, Spam_pattern ''x''), (1, Said ''a'' ''x''), (2, Said ''a'' ''y'')])))
   \<and> \<not> list_ex (\<lambda>r. regex_match literal_regex ''z'' r)
        (spamPatterns (fst (chat_history literal_regex ''a'' [(0, Spam_pattern ''x''), (1, Said ''a'' ''x''), (2, Said ''a'' ''y'')])))"
proof -
  let ?c = "[(0, Max_length 10), (0, Said ''a'' []), (1, Said ''a'' []), (2, Said ''b'' []), (2, Said ''a'' []),
    (3, Said ''a'' []), (4, Said ''a'' []), (5, Said ''a'' [])] :: (int \<times> chat_call) list"
  let ?d = "[(0, Spam_pattern ''x''), (1, Said ''a'' ''x''), (2, Said ''a'' ''y'')] :: (int \<times> chat_call) list"
  let ?f = "fst (chat_history literal_regex ''a'' ?c)"
  let ?g = "fst (chat_history literal_regex ''a'' ?d)"
  have c: "spamPatterns ?f = []" "snd (chat_history literal_regex ''a'' ?c) = [0, 1, 2, 3, 4]" by code_simp+
  have d: "snd (chat_history literal_regex ''a'' ?d) = [2]" "\<not> snd (IsSpam literal_regex 3 ''z'' ''a'' ?g)" by code_simp+
  have ce: "chat_history literal_regex ''a'' ?c = (?f, [0, 1, 2, 3, 4])" using c(2) by (metis prod.collapse)
  have de: "chat_history literal_regex ''a'' ?d = (?g, [2])" using d(1) by (metis prod.collapse)
  have sc: "sorted (map fst ?c)" "\<forall>x \<in> set ?c. fst x \<le> 5900000000" by simp_all
  have sd: "sorted (map fst ?d)" "\<forall>x \<in> set ?d. fst x \<le> 3" by simp_all
  have "length (recent 5900000000 [0, 1, 2, 3, 4]) \<ge> 5" by (simp add: recent_def)
  then have "snd (IsSpam literal_regex 5900000000 ''hi'' ''a'' ?f)"
    using chat_rate_limit [OF sc ce, of "''hi''", THEN conjunct2, THEN conjunct2] c(1) by blast
  moreover have "\<not> list_ex (\<lambda>r. regex_match literal_regex ''z'' r) (spamPatterns ?g)"
    using chat_rate_limit [OF sd de, of "''z''", THEN conjunct2, THEN conjunct1] d(2) by blast
  ultimately show ?thesis using d by blast
qed

text \<open>
  The limit of five messages is per six seconds, not five: after five messages at time 0 a
  sixth is refused up to (but not at) six seconds, although the code announces five.
\<close>

theorem chat_window_is_six_seconds:
  assumes "fmlookup (playerMessages f) p = Some [0, 0, 0, 0, 0]" "spamPatterns f = []" "0 \<le> now"
  shows "snd (IsSpam re now msg p f) \<longleftrightarrow> now < 6000000000"
  using assms by (simp add: IsSpam_verdict window_def too_old_iff)

theorem chat_window_is_six_seconds_witness:
  "snd (IsSpam literal_regex 5999999999 ''hi'' ''a'' (empty_filter\<lparr>playerMessages := fmap_of_list [(''a'', [0, 0, 0, 0, 0])]\<rparr>))"
proof -
  let ?f = "empty_filter\<lparr>playerMessages := fmap_of_list [(''a'', [0, 0, 0, 0, 0])]\<rparr> :: string ChatFilter"
  have h: "fmlookup (playerMessages ?f) ''a'' = Some [0, 0, 0, 0, 0]" "spamPatterns ?f = []" "(0::int) \<le> 5999999999"
    by (simp_all add: empty_filter_def fmlookup_of_list)
  from chat_window_is_six_seconds [OF h, of literal_regex "''hi''"] show ?thesis by simp
qed

end
