(* ===== verification/MCX_Entities.thy ===== *)
theory MCX_Entities
  imports MCX_Strings
begin

text \<open>
  The entity manager (\<^verbatim>\<open>core/entity_manager.cpp\<close>), a table of component pointers by entity
  and type, and the world manager (\<^verbatim>\<open>core/world_manager.cpp\<close>), which only logs.
\<close>

subsection \<open>Entities\<close>

text \<open>A component is seen through its virtual \<^verbatim>\<open>GetType\<close>; \<open>addr\<close> tells the objects apart.\<close>

record Component =
  ctype :: u32
  addr :: nat

record EntityManager =
  entities :: "(size_t, (u32, Component) umap) umap"
  nextId :: size_t

definition empty_entities :: EntityManager where
  "empty_entities = \<lparr>entities = fmempty, nextId = 1\<rparr>"

definition CreateEntity :: "EntityManager \<Rightarrow> EntityManager \<times> size_t" where
  "CreateEntity m = (m\<lparr>nextId := nextId m + 1\<rparr>, nextId m)"

definition DestroyEntity :: "size_t \<Rightarrow> EntityManager \<Rightarrow> EntityManager" where
  "DestroyEntity e m = m\<lparr>entities := fmdrop e (entities m)\<rparr>"

text \<open>A null pointer (\<open>None\<close>) is dereferenced.\<close>

definition AddComponent :: "size_t \<Rightarrow> Component option \<Rightarrow> EntityManager \<Rightarrow> EntityManager result" where
  "AddComponent e component m = (case component of
     None \<Rightarrow> Inl Undefined
   | Some c \<Rightarrow> let comps = (case fmlookup (entities m) e of None \<Rightarrow> fmempty | Some cs \<Rightarrow> cs) in
       Inr (m\<lparr>entities := fmupd e (fmupd (ctype c) c comps) (entities m)\<rparr>))"

definition RemoveComponent :: "size_t \<Rightarrow> u32 \<Rightarrow> EntityManager \<Rightarrow> EntityManager" where
  "RemoveComponent e ty m = (case fmlookup (entities m) e of
     None \<Rightarrow> m
   | Some cs \<Rightarrow> m\<lparr>entities := fmupd e (fmdrop ty cs) (entities m)\<rparr>)"

definition GetComponentRaw :: "EntityManager \<Rightarrow> size_t \<Rightarrow> u32 \<Rightarrow> Component option" where
  "GetComponentRaw m e ty = (case fmlookup (entities m) e of None \<Rightarrow> None | Some cs \<Rightarrow> fmlookup cs ty)"

definition GetEntityCount :: "EntityManager \<Rightarrow> nat" where
  "GetEntityCount m = umap_size (entities m)"

datatype entity_op = Op_Create | Op_Destroy size_t | Op_AddC size_t Component | Op_RemoveC size_t u32

fun entity_exec :: "entity_op \<Rightarrow> EntityManager \<Rightarrow> EntityManager" where
  "entity_exec Op_Create m = fst (CreateEntity m)"
| "entity_exec (Op_Destroy e) m = DestroyEntity e m"
| "entity_exec (Op_AddC e c) m = (case AddComponent e (Some c) m of Inr m' \<Rightarrow> m' | Inl _ \<Rightarrow> m)"
| "entity_exec (Op_RemoveC e ty) m = RemoveComponent e ty m"

text \<open>The table the client sees: a partial function of entity and type.\<close>

definition table :: "EntityManager \<Rightarrow> size_t \<times> u32 \<Rightarrow> Component option" where
  "table m k = GetComponentRaw m (fst k) (snd k)"

fun table_spec :: "entity_op \<Rightarrow> (size_t \<times> u32 \<Rightarrow> Component option) \<Rightarrow> size_t \<times> u32 \<Rightarrow> Component option" where
  "table_spec Op_Create T = T"
| "table_spec (Op_Destroy e) T = (\<lambda>k. if fst k = e then None else T k)"
| "table_spec (Op_AddC e c) T = T((e, ctype c) \<mapsto> c)"
| "table_spec (Op_RemoveC e ty) T = T((e, ty) := None)"

interpretation component_table: simulation entity_exec table table_spec
proof
  fix c m
  show "table (entity_exec c m) = table_spec c (table m)"
    by (cases c) (auto simp: fun_eq_iff table_def CreateEntity_def DestroyEntity_def AddComponent_def
        RemoveComponent_def GetComponentRaw_def Let_def split: option.split)
qed

text \<open>Which entities have been given a component and not been destroyed since.\<close>

fun live_spec :: "entity_op \<Rightarrow> size_t set \<Rightarrow> size_t set" where
  "live_spec (Op_Destroy e) E = E - {e}"
| "live_spec (Op_AddC e c) E = insert e E"
| "live_spec _ E = E"

definition live_ids :: "EntityManager \<Rightarrow> size_t set" where
  "live_ids m = {e. fmlookup (entities m) e \<noteq> None}"

interpretation live: simulation entity_exec live_ids live_spec
proof
  fix c m
  show "live_ids (entity_exec c m) = live_spec c (live_ids m)"
    by (cases c) (auto simp: live_ids_def CreateEntity_def DestroyEntity_def AddComponent_def RemoveComponent_def
        Let_def split: option.splits if_splits)
qed

lemma GetEntityCount_live: "GetEntityCount m = card (live_ids m)"
  by (simp add: GetEntityCount_def umap_size_card live_ids_def dom_def)

fun created :: "entity_op list \<Rightarrow> nat" where
  "created [] = 0"
| "created (Op_Create # cs) = Suc (created cs)"
| "created (_ # cs) = created cs"

lemma nextId_run: "nextId (fold entity_exec cs m) = nextId m + of_nat (created cs)"
  by (induction cs arbitrary: m rule: created.induct)
    (auto simp: CreateEntity_def DestroyEntity_def AddComponent_def RemoveComponent_def Let_def split: option.split)

text \<open>
  The entity manager is a table: after any history a component is found under its entity
  and its type exactly as the last operation on that entry left it; ids are handed out in
  sequence; and the entity count is the number of entities that were given a component and not
  destroyed since (an entity that was only created does not count).
\<close>

theorem entity_history:
  "GetComponentRaw (fold entity_exec cs empty_entities) e ty = fold table_spec cs (\<lambda>k. None) (e, ty)
   \<and> snd (CreateEntity (fold entity_exec cs empty_entities)) = 1 + of_nat (created cs)
   \<and> GetEntityCount (fold entity_exec cs empty_entities) = card (fold live_spec cs {})"
proof -
  have "table empty_entities = (\<lambda>k. None)"
    by (simp add: table_def GetComponentRaw_def empty_entities_def fun_eq_iff)
  then have "table (fold entity_exec cs empty_entities) = fold table_spec cs (\<lambda>k. None)"
    by (simp add: component_table.abs_run)
  from fun_cong [OF this, of "(e, ty)"]
  have "GetComponentRaw (fold entity_exec cs empty_entities) e ty = fold table_spec cs (\<lambda>k. None) (e, ty)"
    by (simp add: table_def)
  moreover have "live_ids empty_entities = {}"
    by (simp add: live_ids_def empty_entities_def)
  then have "live_ids (fold entity_exec cs empty_entities) = fold live_spec cs {}"
    by (simp add: live.abs_run)
  moreover have "nextId (fold entity_exec cs empty_entities) = 1 + of_nat (created cs)"
    unfolding nextId_run by (simp add: empty_entities_def)
  ultimately show ?thesis
    by (simp add: CreateEntity_def GetEntityCount_live)
qed

subsection \<open>Worlds\<close>

record WorldInfo =
  wname :: string
  wtype :: string
  wloaded :: bool
  playerCount :: int

record WorldManager =
  worlds :: "WorldInfo list"

definition empty_worlds :: WorldManager where
  "empty_worlds = \<lparr>worlds = []\<rparr>"

definition LoadWorld :: "string \<Rightarrow> WorldManager \<Rightarrow> WorldManager \<times> console list" where
  "LoadWorld name m = (m, [log_Info (''Loading world: '' @ name)])"

definition UnloadWorld :: "string \<Rightarrow> WorldManager \<Rightarrow> WorldManager \<times> console list" where
  "UnloadWorld name m = (m, [log_Info (''Unloading world: '' @ name)])"

definition TeleportToWorld :: "string \<Rightarrow> string \<Rightarrow> WorldManager \<Rightarrow> WorldManager \<times> console list" where
  "TeleportToWorld playerId worldName m = (m, [log_Info (''Teleporting player '' @ playerId @ '' to world '' @ worldName)])"

definition ListWorlds :: "WorldManager \<Rightarrow> WorldInfo list" where
  "ListWorlds m = worlds m"

definition WorldExists :: "WorldManager \<Rightarrow> string \<Rightarrow> bool" where
  "WorldExists m name = list_ex (\<lambda>w. wname w = name) (worlds m)"

definition GetCurrentWorld :: "WorldManager \<Rightarrow> string \<Rightarrow> string" where
  "GetCurrentWorld m playerId = ''world''"

datatype world_op = Op_LoadWorld string | Op_UnloadWorld string | Op_ToWorld string string

fun world_exec :: "world_op \<Rightarrow> WorldManager \<Rightarrow> WorldManager" where
  "world_exec (Op_LoadWorld n) m = fst (LoadWorld n m)"
| "world_exec (Op_UnloadWorld n) m = fst (UnloadWorld n m)"
| "world_exec (Op_ToWorld p n) m = fst (TeleportToWorld p n m)"

interpretation no_worlds: invariant_machine world_exec "\<lambda>m :: WorldManager. worlds m = []"
proof
  fix m :: WorldManager and c
  assume "worlds m = []"
  then show "worlds (world_exec c m) = []"
    by (cases c) (simp_all add: LoadWorld_def UnloadWorld_def TeleportToWorld_def)
qed

text \<open>No world ever exists, also after it has been loaded, and everybody is in the default one.\<close>

lemma world_never_exists:
  "\<not> WorldExists (fold world_exec ops empty_worlds) n \<and> GetCurrentWorld (fold world_exec ops empty_worlds) p = ''world''"
  using no_worlds.run_inv [of empty_worlds ops]
  by (simp add: WorldExists_def GetCurrentWorld_def empty_worlds_def)

end
