(* ===== verification/MCX_Commands.thy ===== *)
theory MCX_Commands
  imports MCX_Strings
begin

text \<open>
  Commands: the parser (\<^verbatim>\<open>core/command_parser.cpp\<close>), the registry
  (\<^verbatim>\<open>core/command_registry.cpp\<close>) and the console that reads lines
  (\<^verbatim>\<open>core/console.cpp\<close>).
\<close>

subsection \<open>Parsing\<close>

record ParsedCommand =
  cmd_name :: string
  cmd_args :: "string list"

definition ParseCommand :: "string \<Rightarrow> ParsedCommand" where
  "ParseCommand input = (case words_of input of
     [] \<Rightarrow> \<lparr>cmd_name = [], cmd_args = []\<rparr>
   | token # rest \<Rightarrow> \<lparr>cmd_name = token, cmd_args = rest\<rparr>)"

text \<open>Words written with any white space between, before and after them.\<close>

fun spaced :: "(string \<times> string) list \<Rightarrow> string" where
  "spaced [] = []"
| "spaced ((ws, w) # rest) = ws @ w @ spaced rest"

definition white :: "string \<Rightarrow> bool" where
  "white s \<longleftrightarrow> (\<forall>c \<in> set s. is_space c)"

definition word :: "string \<Rightarrow> bool" where
  "word w \<longleftrightarrow> w \<noteq> [] \<and> no_space w"

lemma words_of_white: "white ws \<Longrightarrow> words_of (ws @ s) = words_of s"
  by (induction ws) (auto simp: white_def words_of_space)

lemma words_of_spaced:
  assumes "list_all (\<lambda>(ws, w). white ws \<and> ws \<noteq> [] \<and> word w) ps" "white tail"
  shows "words_of (spaced ps @ tail) = map snd ps"
  using assms(1)
proof (induction ps)
  case Nil
  then show ?case using assms(2) by (simp add: words_of_all_space white_def)
next
  case (Cons p ps)
  obtain ws w where p: "p = (ws, w)" by fastforce
  with Cons.prems have w: "white ws" "word w" by simp_all
  have next_space: "spaced ps @ tail = [] \<or> is_space (hd (spaced ps @ tail))"
  proof (cases ps)
    case Nil
    then show ?thesis using assms(2) by (cases tail) (auto simp: white_def)
  next
    case (Cons q qs)
    obtain v u where q: "q = (v, u)" by fastforce
    then have "white v" "v \<noteq> []" using Cons.prems Cons by auto
    with Cons q show ?thesis by (cases v) (auto simp: white_def)
  qed
  have "words_of (spaced (p # ps) @ tail) = words_of (w @ (spaced ps @ tail))"
    using words_of_white [OF w(1)] p by simp
  also have "\<dots> = w # words_of (spaced ps @ tail)"
    using w(2) next_space by (intro words_of_word) (simp_all add: word_def)
  finally show ?case using Cons p by simp
qed

text \<open>
  Command lines are read back: a name and arguments without white space, written with any
  white space around and between them, parse to exactly that name and those arguments.
\<close>

theorem parse_command_roundtrip:
  assumes "white start" "word name" "list_all (\<lambda>(ws, w). white ws \<and> ws \<noteq> [] \<and> word w) args" "white tail"
  shows "ParseCommand (start @ name @ spaced args @ tail) = \<lparr>cmd_name = name, cmd_args = map snd args\<rparr>"
proof -
  have next_space: "spaced args @ tail = [] \<or> is_space (hd (spaced args @ tail))"
  proof (cases args)
    case Nil
    then show ?thesis using assms(4) by (cases tail) (auto simp: white_def)
  next
    case (Cons q qs)
    obtain v u where q: "q = (v, u)" by fastforce
    with assms(3) Cons have "white v" "v \<noteq> []" by auto
    with Cons q show ?thesis by (cases v) (auto simp: white_def)
  qed
  have "words_of (start @ name @ spaced args @ tail) = words_of (name @ spaced args @ tail)"
    by (rule words_of_white [OF assms(1)])
  also have "\<dots> = name # words_of (spaced args @ tail)"
    using assms(2) next_space by (intro words_of_word) (simp_all add: word_def)
  finally show ?thesis
    using words_of_spaced [OF assms(3,4)] by (simp add: ParseCommand_def)
qed

theorem parse_command_roundtrip_witness:
  "ParseCommand ''  kick Bob  spam '' = \<lparr>cmd_name = ''kick'', cmd_args = [''Bob'', ''spam'']\<rparr>"
proof -
  have h: "white ''  ''" "word ''kick''" "list_all (\<lambda>(ws, w). white ws \<and> ws \<noteq> [] \<and> word w) [('' '', ''Bob''), (''  '', ''spam'')]" "white '' ''"
    by (simp_all add: white_def word_def no_space_def is_space_def)
  from parse_command_roundtrip [OF h] show ?thesis by simp
qed

subsection \<open>The registry\<close>

record CommandInfo =
  ci_name :: string
  ci_description :: string
  ci_permission :: string

text \<open>An empty handler (\<open>None\<close>) throws \<^verbatim>\<open>bad_function_call\<close> when it is called.\<close>

type_synonym 'c command_handler = "(string list \<Rightarrow> 'c effect) option"

record 'c CommandRegistry =
  commands :: "(string, CommandInfo \<times> 'c command_handler) umap"

definition empty_commands :: "'c CommandRegistry" where
  "empty_commands = \<lparr>commands = fmempty\<rparr>"

definition Register :: "string \<Rightarrow> CommandInfo \<Rightarrow> 'c command_handler \<Rightarrow> 'c CommandRegistry \<Rightarrow> 'c CommandRegistry" where
  "Register name info handler m = m\<lparr>commands := fmupd name (info, handler) (commands m)\<rparr>"

definition Unregister :: "string \<Rightarrow> 'c CommandRegistry \<Rightarrow> 'c CommandRegistry" where
  "Unregister name m = m\<lparr>commands := fmdrop name (commands m)\<rparr>"

definition call_handler :: "'c command_handler \<Rightarrow> string list \<Rightarrow> 'c effect" where
  "call_handler h args = (case h of None \<Rightarrow> (\<lambda>c. (c, Some (Std_exception ''bad_function_call''))) | Some f \<Rightarrow> f args)"

definition Execute :: "string \<Rightarrow> string list \<Rightarrow> 'c CommandRegistry \<Rightarrow> 'c \<Rightarrow> 'c \<times> console list \<times> bool" where
  "Execute name args m c = (case fmlookup (commands m) name of
     None \<Rightarrow> (c, [], False)
   | Some (info, h) \<Rightarrow> (case call_handler h args c of
       (c, None) \<Rightarrow> (c, [], True)
     | (c, Some e) \<Rightarrow> (c, [log_Error (''Command '' @ name @ '' failed: '' @ exn_text e)], False)))"

definition GetCommands :: "string list \<Rightarrow> 'c CommandRegistry \<Rightarrow> CommandInfo list" where
  "GetCommands names m = map (\<lambda>(n, i, h). i) (entries names (commands m))"

interpretation command_store: keyed_store "\<lambda>m. fmlookup (commands m)" "\<lambda>n ih. ih"
    "\<lambda>n ih m. Register n (fst ih) (snd ih) m" Unregister
  by unfold_locales (auto simp: Register_def Unregister_def fmlookup_fmupd fmlookup_fmdrop)

text \<open>
  Executing a command never throws: it is refused without effect if the name is not
  registered (in particular after it was unregistered); otherwise the handler registered last
  under that name runs once with the arguments, and the answer says whether it returned, a
  throw being logged. The permission of the command does not matter.
\<close>

theorem execute_command:
  "Execute n args (Unregister n m) c = (c, [], False)
   \<and> Execute n args (Register n info h m) c =
      (fst (call_handler h args c),
       case snd (call_handler h args c) of None \<Rightarrow> [] | Some e \<Rightarrow> [log_Error (''Command '' @ n @ '' failed: '' @ exn_text e)],
       snd (call_handler h args c) = None)"
proof -
  have "fmlookup (commands (Unregister n m)) n = None" by (rule command_store.look_del_same)
  moreover have "fmlookup (commands (Register n info h m)) n = Some (info, h)"
    using command_store.look_put_same [of n "(info, h)" m] by simp
  ultimately show ?thesis by (simp add: Execute_def split: prod.split option.split)
qed

subsection \<open>The console\<close>

record 'c Console =
  console_handler :: "(ParsedCommand \<Rightarrow> 'c effect) option"
  console_running :: bool

definition Start_console :: "'c Console \<Rightarrow> 'c Console" where
  "Start_console k = k\<lparr>console_running := True\<rparr>"

definition Stop_console :: "'c Console \<Rightarrow> 'c Console" where
  "Stop_console k = k\<lparr>console_running := False\<rparr>"

definition OnCommand_console :: "(ParsedCommand \<Rightarrow> 'c effect) \<Rightarrow> 'c Console \<Rightarrow> 'c Console" where
  "OnCommand_console h k = k\<lparr>console_handler := Some h\<rparr>"

text \<open>
  The loop over the lines of the input; it ends with the input. Nothing in the thread catches
  an exception of the handler.
\<close>

fun ReadLoop :: "string list \<Rightarrow> 'c Console \<Rightarrow> 'c effect" where
  "ReadLoop [] k c = (c, None)"
| "ReadLoop (line # lines) k c =
     (if \<not> console_running k then (c, None)
      else if line = [] then ReadLoop lines k c
      else (case console_handler k of
        None \<Rightarrow> ReadLoop lines k c
      | Some h \<Rightarrow> (case h (ParseCommand line) c of
          (c, Some e) \<Rightarrow> (c, Some e)
        | (c, None) \<Rightarrow> ReadLoop lines k c)))"

text \<open>A running console calls its handler once for each line that is not empty, in order.\<close>

lemma console_reads_lines:
  assumes "console_running k" "console_handler k = Some h"
  shows "ReadLoop lines k c = run_effects (map (\<lambda>l. h (ParseCommand l)) (filter (\<lambda>l. l \<noteq> []) lines)) c"
  using assms by (induction lines arbitrary: c) (auto split: prod.split option.split)

end
