(* ===== verification/MCX_ConsoleThread.thy ===== *)
theory MCX_ConsoleThread
  imports MCX_Commands MCX_Stopping
begin

text \<open>
  The thread of the console (\<^verbatim>\<open>core/console.cpp\<close>) beside \<open>Stop\<close>: it tests the flag and waits in \<^verbatim>\<open>getline\<close>
  for a line or the end of the input, which come from outside. A call of the handler is one step.
\<close>

subsection \<open>Steps\<close>

datatype console_phase = K_test | K_reading | K_ended | K_terminated

text \<open>A ghost field counts the lines that were read.\<close>

record 'c ConsoleThread =
  kconsole :: "'c Console"
  kphase :: console_phase
  kstopping :: stopping
  kstate :: 'c
  klines :: nat

text \<open>What the loop does with a line; an exception of the handler ends the process.\<close>

definition read_line_step :: "string \<Rightarrow> 'c ConsoleThread \<Rightarrow> 'c ConsoleThread" where
  "read_line_step line s = (let s = s\<lparr>klines := klines s + 1\<rparr> in
     if line = [] then s\<lparr>kphase := K_test\<rparr>
     else (case console_handler (kconsole s) of
       None \<Rightarrow> s\<lparr>kphase := K_test\<rparr>
     | Some h \<Rightarrow> (case h (ParseCommand line) (kstate s) of (c, ex) \<Rightarrow>
         s\<lparr>kstate := c, kphase := (if ex = None then K_test else K_terminated)\<rparr>)))"

text \<open>Without input the thread only tests its flag; \<open>Stop\<close> clears it and joins.\<close>

inductive console_alone :: "'c ConsoleThread \<Rightarrow> 'c ConsoleThread \<Rightarrow> bool" where
  test: "kphase s = K_test \<Longrightarrow> console_alone s (s\<lparr>kphase := (if console_running (kconsole s) then K_reading else K_ended)\<rparr>)"
| clear: "kstopping s = Not_stopped \<Longrightarrow> console_alone s (s\<lparr>kconsole := Stop_console (kconsole s), kstopping := Joining\<rparr>)"
| join: "kstopping s = Joining \<Longrightarrow> kphase s = K_ended \<Longrightarrow> console_alone s (s\<lparr>kstopping := Stopped\<rparr>)"

inductive console_input :: "'c ConsoleThread \<Rightarrow> 'c ConsoleThread \<Rightarrow> bool" where
  line: "kphase s = K_reading \<Longrightarrow> console_input s (read_line_step l s)"
| eof: "kphase s = K_reading \<Longrightarrow> console_input s (s\<lparr>kphase := K_ended\<rparr>)"

definition console_step :: "'c ConsoleThread \<Rightarrow> 'c ConsoleThread \<Rightarrow> bool" where
  "console_step s t \<longleftrightarrow> console_alone s t \<or> console_input s t"

inductive_cases console_aloneE: "console_alone s t"
inductive_cases console_inputE: "console_input s t"

text \<open>The thread that \<open>Start\<close> creates.\<close>

definition console_thread :: "'c Console \<Rightarrow> 'c \<Rightarrow> 'c ConsoleThread" where
  "console_thread k c = \<lparr>kconsole = Start_console k, kphase = K_test, kstopping = Not_stopped, kstate = c, klines = 0\<rparr>"

subsection \<open>The thread implements the loop\<close>

lemma read_line_step_fixed [simp]:
  "kconsole (read_line_step l s) = kconsole s" "kstopping (read_line_step l s) = kstopping s" "klines (read_line_step l s) = klines s + 1"
  by (simp_all add: read_line_step_def Let_def split: option.split prod.split)

lemma read_line_step_phase: "kphase (read_line_step l s) = K_test \<or> kphase (read_line_step l s) = K_terminated"
  by (simp add: read_line_step_def Let_def split: option.split prod.split)

lemma console_runs_lines:
  assumes "kphase s = K_test" "console_running (kconsole s)" "ReadLoop lines (kconsole s) (kstate s) = (c, ex)"
  shows "\<exists>t. console_step\<^sup>*\<^sup>* s t \<and> kstate t = c \<and> kphase t = (if ex = None then K_ended else K_terminated) \<and> kconsole t = kconsole s"
  using assms
proof (induction lines arbitrary: s)
  let ?r = "\<lambda>s. s\<lparr>kphase := K_reading\<rparr>"
  case Nil
  have 1: "console_step s (?r s)" using console_alone.test [OF Nil(1)] Nil(2) by (simp add: console_step_def)
  have 2: "console_step (?r s) (s\<lparr>kphase := K_ended\<rparr>)" using console_input.eof [of "?r s"] by (simp add: console_step_def)
  from two_steps [of console_step, OF 1 2] Nil(3) show ?case by (intro exI [of _ "s\<lparr>kphase := K_ended\<rparr>"]) auto
next
  let ?r = "\<lambda>s. s\<lparr>kphase := K_reading\<rparr>"
  case (Cons line lines)
  let ?t = "read_line_step line (?r s)"
  have 1: "console_step s (?r s)" using console_alone.test [OF Cons.prems(1)] Cons.prems(2) by (simp add: console_step_def)
  have 2: "console_step (?r s) ?t" using console_input.line [of "?r s" line] by (simp add: console_step_def)
  note steps = two_steps [of console_step, OF 1 2]
  show ?case
  proof (cases "kphase ?t = K_test")
    case True
    with Cons.prems have "ReadLoop lines (kconsole ?t) (kstate ?t) = (c, ex)"
      by (auto simp: read_line_step_def Let_def split: if_splits option.splits prod.splits)
    with Cons.IH [of ?t] True Cons.prems(2) obtain t where
      "console_step\<^sup>*\<^sup>* ?t t" "kstate t = c" "kphase t = (if ex = None then K_ended else K_terminated)" "kconsole t = kconsole s" by auto
    with rtranclp_trans [OF steps] show ?thesis by blast
  next
    case False
    with Cons.prems have "kstate ?t = c \<and> kphase ?t = K_terminated \<and> ex \<noteq> None"
      by (auto simp: read_line_step_def Let_def split: if_splits option.splits prod.splits)
    with steps show ?thesis by (intro exI [of _ ?t]) auto
  qed
qed

text \<open>
  The thread of a started console reaches, step by step, what the loop computes for any lines: the
  state of the handlers, and its end, or that of the process when a handler throws.
\<close>

theorem console_thread_implements_loop:
  assumes "ReadLoop lines (Start_console k) c = (c', ex)"
  shows "\<exists>t. console_step\<^sup>*\<^sup>* (console_thread k c) t \<and> kstate t = c' \<and> kphase t = (if ex = None then K_ended else K_terminated)"
  using console_runs_lines [of "console_thread k c" lines c' ex] assms by (auto simp: console_thread_def Start_console_def)

theorem console_thread_implements_loop_witness:
  "\<exists>t. console_step\<^sup>*\<^sup>* (console_thread \<lparr>console_handler = Some (\<lambda>p ns. (ns @ [cmd_name p], None)), console_running = False\<rparr> []) t
     \<and> kstate t = [''list'', ''stop''] \<and> kphase t = K_ended"
proof -
  let ?k = "\<lparr>console_handler = Some (\<lambda>p ns. (ns @ [cmd_name p], None)), console_running = False\<rparr>"
  have "ReadLoop [''list'', [], ''stop now''] (Start_console ?k) [] = ([''list'', ''stop''], None)" by code_simp
  from console_thread_implements_loop [OF this] show ?thesis by simp
qed

subsection \<open>Stopping\<close>

definition may_read :: "console_phase \<Rightarrow> nat" where
  "may_read p = (if p = K_reading then 1 else 0)"

lemma may_read_simps [simp]: "may_read K_reading = 1" "may_read K_test = 0" "may_read K_ended = 0" "may_read K_terminated = 0"
  by (simp_all add: may_read_def)

interpretation console_end: winding_down console_step "\<lambda>s. \<not> console_running (kconsole s)" klines "\<lambda>s. may_read (kphase s)"
proof unfold_locales
  fix s t :: "'a ConsoleThread"
  assume st: "console_step s t" and off: "\<not> console_running (kconsole s)"
  have ph: "may_read (kphase (read_line_step l s)) = 0" for l using read_line_step_phase [of l s] by auto
  show "\<not> console_running (kconsole t)" using st off
    by (auto simp: console_step_def Stop_console_def elim!: console_aloneE console_inputE)
  show "klines t + may_read (kphase t) \<le> klines s + may_read (kphase s)" using st off ph
    by (auto simp: console_step_def elim!: console_aloneE console_inputE)
qed

text \<open>
  \<open>Stop\<close> of the console waits for the user: when the thread is in \<^verbatim>\<open>getline\<close> neither it nor \<open>Stop\<close> has a
  step; at most one line more is read, also if it comes after \<open>Stop\<close> was called, and its handler runs.
\<close>

theorem console_stop_waits_for_line:
  assumes "kstopping s = Joining" "kphase s = K_reading" "\<not> console_running (kconsole s)" "console_step\<^sup>*\<^sup>* s t"
  shows "{u. console_alone s u} = {} \<and> klines t \<le> klines s + 1"
  using console_end.started_bound [OF assms(4,3)] assms(1,2) by (auto elim: console_aloneE)

theorem console_stop_waits_for_line_witness:
  "\<exists>s t :: nat ConsoleThread. console_step\<^sup>*\<^sup>* (console_thread \<lparr>console_handler = Some (\<lambda>p n. (n + 1, None)), console_running = False\<rparr> 0) s
     \<and> kstopping s = Joining \<and> {u. console_alone s u} = {} \<and> console_step\<^sup>*\<^sup>* s t \<and> kstate t = 1 \<and> klines t \<le> klines s + 1"
proof -
  let ?k = "\<lparr>console_handler = Some (\<lambda>p n. (n + 1, None)), console_running = False\<rparr> :: nat Console"
  let ?a = "console_thread ?k 0"
  let ?s1 = "?a\<lparr>kphase := K_reading\<rparr>"
  let ?s = "?s1\<lparr>kconsole := Stop_console (kconsole ?s1), kstopping := Joining\<rparr>"
  let ?t = "read_line_step ''list'' ?s"
  note d = console_thread_def Start_console_def Stop_console_def console_step_def
  have 1: "console_step ?a ?s1" using console_alone.test [of ?a] by (simp add: d)
  have 2: "console_step ?s1 ?s" using console_alone.clear [of ?s1] by (simp add: d)
  have 3: "console_step ?s ?t" using console_input.line [of ?s "''list''"] by (simp add: d)
  then have t: "console_step\<^sup>*\<^sup>* ?s ?t" by blast
  have f: "kstopping ?s = Joining" "kphase ?s = K_reading" "\<not> console_running (kconsole ?s)" "kstate ?t = 1"
    by (simp_all add: d read_line_step_def)
  from two_steps [of console_step, OF 1 2] console_stop_waits_for_line [OF f(1-3) t] f(1,4) t show ?thesis by blast
qed

end
