(* ===== verification/MCX_Config.thy ===== *)
theory MCX_Config
  imports MCX_Server MCX_Double
begin

text \<open>
  Configuration: the checks of \<^verbatim>\<open>core/config_validator.cpp\<close>, the JSON loader of
  \<^verbatim>\<open>core/config_loader.cpp\<close>, the interactive set-up of \<^verbatim>\<open>core/setup_wizard.cpp\<close>,
  the file watcher of \<^verbatim>\<open>core/config_watcher.cpp\<close> and the log file of
  \<^verbatim>\<open>core/file_logger.cpp\<close>.
\<close>

subsection \<open>Validation\<close>

definition ValidateConfig :: "Config \<Rightarrow> string option" where
  "ValidateConfig cfg =
     (if maxPlayers cfg < 0 then Some ''maxPlayers cannot be negative''
      else if scriptRoot cfg = [] then Some ''scriptRoot cannot be empty''
      else None)"

subsection \<open>The JSON values of the loader\<close>

text \<open>
  The values of the vendored \<^verbatim>\<open>nlohmann::json\<close> that the loader looks at. The parser is a
  parameter of the loader: it gives the text of its \<^verbatim>\<open>parse_error\<close> or a value. An object
  is a list of members with distinct names.
\<close>

datatype json = JNull | JBoolean bool | JInteger int | JUnsigned nat | JFloat double | JString string
  | JArray "json list" | JObject "(string \<times> json) list"

type_synonym json_parser = "string \<Rightarrow> string + json"

fun type_name :: "json \<Rightarrow> string" where
  "type_name JNull = ''null''"
| "type_name (JBoolean _) = ''boolean''"
| "type_name (JInteger _) = ''number''"
| "type_name (JUnsigned _) = ''number''"
| "type_name (JFloat _) = ''number''"
| "type_name (JString _) = ''string''"
| "type_name (JArray _) = ''array''"
| "type_name (JObject _) = ''object''"

definition type_error :: "string \<Rightarrow> json \<Rightarrow> fault" where
  "type_error expected j = Exception (Std_exception
     (''[json.exception.type_error.302] type must be '' @ expected @ '', but is '' @ type_name j))"

text \<open>\<^verbatim>\<open>contains\<close> followed by \<^verbatim>\<open>operator[]\<close>: only an object contains a name.\<close>

fun member :: "json \<Rightarrow> string \<Rightarrow> json option" where
  "member (JObject ms) key = map_of ms key"
| "member _ key = None"

fun get_string :: "json \<Rightarrow> string result" where
  "get_string (JString s) = Inr s"
| "get_string j = Inl (type_error ''string'' j)"

fun get_bool :: "json \<Rightarrow> bool result" where
  "get_bool (JBoolean b) = Inr b"
| "get_bool j = Inl (type_error ''boolean'' j)"

text \<open>
  \<^verbatim>\<open>get<int>\<close> converts every number and also a boolean by \<^verbatim>\<open>static_cast<int>\<close>: a wider
  integer wraps, a floating value is truncated and must fit.
\<close>

definition wrap_int :: "int \<Rightarrow> int" where
  "wrap_int n = (n + 2147483648) mod 4294967296 - 2147483648"

definition truncate_double :: "double \<Rightarrow> int result" where
  "truncate_double d =
     (let m = (if 0 \<le> dbl_pow d then dbl_mant d * 2 ^ nat (dbl_pow d) else dbl_mant d div 2 ^ nat (- dbl_pow d));
          v = (if dbl_neg d then - int m else int m)
      in if dbl_exp d = 2047 \<or> \<not> in_int v then Inl Undefined else Inr v)"

fun get_int :: "json \<Rightarrow> int result" where
  "get_int (JInteger n) = Inr (wrap_int n)"
| "get_int (JUnsigned n) = Inr (wrap_int (int n))"
| "get_int (JFloat d) = truncate_double d"
| "get_int (JBoolean b) = Inr (if b then 1 else 0)"
| "get_int j = Inl (type_error ''number'' j)"

lemma wrap_int_in [simp]: "in_int n \<Longrightarrow> wrap_int n = n"
  by (simp add: wrap_int_def in_int_def INT_MIN_def INT_MAX_def)

lemma in_int_wrap_int: "in_int (wrap_int n)"
  using pos_mod_bound [of 4294967296 "n + 2147483648"] pos_mod_sign [of 4294967296 "n + 2147483648"]
  by (simp add: wrap_int_def in_int_def INT_MIN_def INT_MAX_def)

lemma get_int_in_range: "get_int j = Inr n \<Longrightarrow> in_int n"
  by (cases j) (auto simp: in_int_wrap_int truncate_double_def Let_def split: if_splits, auto simp: int_range_defs)

subsection \<open>The loader\<close>

definition read_member :: "(json \<Rightarrow> 'a result) \<Rightarrow> string \<Rightarrow> ('a \<Rightarrow> Config \<Rightarrow> Config) \<Rightarrow> json \<Rightarrow> Config \<Rightarrow> Config result" where
  "read_member get key set_field j cfg = (case member j key of
     None \<Rightarrow> Inr cfg
   | Some v \<Rightarrow> rbind (get v) (\<lambda>x. Inr (set_field x cfg)))"

definition config_of_json :: "json \<Rightarrow> Config result" where
  "config_of_json j =
     rbind (read_member get_string ''backendEndpoint'' (\<lambda>x c. c\<lparr>backendEndpoint := x\<rparr>) j default_Config) (\<lambda>cfg.
     rbind (read_member get_string ''scriptRoot'' (\<lambda>x c. c\<lparr>scriptRoot := x\<rparr>) j cfg) (\<lambda>cfg.
     rbind (read_member get_int ''maxPlayers'' (\<lambda>x c. c\<lparr>maxPlayers := x\<rparr>) j cfg) (\<lambda>cfg.
     read_member get_bool ''demoMode'' (\<lambda>x c. c\<lparr>demoMode := x\<rparr>) j cfg)))"

text \<open>\<open>files\<close> gives the contents of the files that can be opened.\<close>

definition LoadConfigFromFile ::
    "json_parser \<Rightarrow> (string \<Rightarrow> string option) \<Rightarrow> string \<Rightarrow> (console list \<times> Config option) result" where
  "LoadConfigFromFile parse files path = (case files path of
     None \<Rightarrow> Inr ([log_Warn (''Cannot open config file: '' @ path)], None)
   | Some text \<Rightarrow>
       (case rbind (case parse text of Inl e \<Rightarrow> Inl (Exception (Std_exception e)) | Inr j \<Rightarrow> Inr j) config_of_json of
          Inr cfg \<Rightarrow> Inr ([log_Info (''Loaded config from: '' @ path)], Some cfg)
        | Inl (Exception e) \<Rightarrow> Inr ([log_Error (''Failed to parse config: '' @ exn_text e)], None)
        | Inl Undefined \<Rightarrow> Inl Undefined))"

text \<open>What the loader expects of a member: absent, or of the right type.\<close>

definition typed_member :: "(json \<Rightarrow> 'a result) \<Rightarrow> string \<Rightarrow> json \<Rightarrow> bool" where
  "typed_member get key j = (case member j key of None \<Rightarrow> True | Some v \<Rightarrow> (\<exists>x. get v = Inr x))"

definition member_or :: "(json \<Rightarrow> 'a result) \<Rightarrow> string \<Rightarrow> json \<Rightarrow> 'a \<Rightarrow> 'a" where
  "member_or get key j d = (case member j key of None \<Rightarrow> d | Some v \<Rightarrow> (case get v of Inr x \<Rightarrow> x | Inl _ \<Rightarrow> d))"

definition well_typed :: "json \<Rightarrow> bool" where
  "well_typed j \<longleftrightarrow> typed_member get_string ''backendEndpoint'' j \<and> typed_member get_string ''scriptRoot'' j
     \<and> typed_member get_int ''maxPlayers'' j \<and> typed_member get_bool ''demoMode'' j"

lemma read_member_typed:
  "typed_member get key j \<Longrightarrow> f d cfg = cfg \<Longrightarrow> read_member get key f j cfg = Inr (f (member_or get key j d) cfg)"
  by (auto simp: read_member_def typed_member_def member_or_def split: option.splits)

lemma read_member_Inr: "read_member get key f j cfg = Inr c \<Longrightarrow> typed_member get key j"
  by (auto simp: read_member_def typed_member_def rbind_Inr_iff split: option.splits)

lemma read_member_Inl:
  "read_member get key f j cfg = Inl e \<Longrightarrow> \<exists>v. member j key = Some v \<and> get v = Inl e"
  by (auto simp: read_member_def rbind_def split: option.splits sum.splits)

lemma config_of_json_typed:
  assumes "well_typed j"
  shows "config_of_json j = Inr \<lparr>backendEndpoint = member_or get_string ''backendEndpoint'' j [],
     scriptRoot = member_or get_string ''scriptRoot'' j ''scripts'', modulesPath = ''modules'',
     maxPlayers = member_or get_int ''maxPlayers'' j 0, demoMode = member_or get_bool ''demoMode'' j True\<rparr>"
proof -
  note t = assms [unfolded well_typed_def]
  show ?thesis
    unfolding config_of_json_def default_Config_def
    using read_member_typed [where get = get_string and d = "[]" and key = "''backendEndpoint''" and j = j]
      read_member_typed [where get = get_string and d = "''scripts''" and key = "''scriptRoot''" and j = j]
      read_member_typed [where get = get_int and d = 0 and key = "''maxPlayers''" and j = j]
      read_member_typed [where get = get_bool and d = True and key = "''demoMode''" and j = j] t
    by simp
qed

lemma config_of_json_Inr: "config_of_json j = Inr cfg \<Longrightarrow> well_typed j"
  unfolding config_of_json_def rbind_Inr_iff
  by (auto simp: well_typed_def dest: read_member_Inr)

lemma get_fault:
  "get_string v \<noteq> Inl Undefined" "get_bool v \<noteq> Inl Undefined"
  "\<forall>d. v \<noteq> JFloat d \<Longrightarrow> get_int v \<noteq> Inl Undefined"
  by (cases v; simp add: type_error_def)+

lemma rbind_Undefined:
  "rbind r f = Inl Undefined \<Longrightarrow> r = Inl Undefined \<or> (\<exists>x. r = Inr x \<and> f x = Inl Undefined)"
  by (cases r) auto

lemma config_of_json_defined:
  assumes "\<forall>d. member j ''maxPlayers'' \<noteq> Some (JFloat d)"
  shows "config_of_json j \<noteq> Inl Undefined"
proof
  assume "config_of_json j = Inl Undefined"
  then obtain key v where "(get_string v = Inl Undefined) \<or> (member j ''maxPlayers'' = Some v \<and> get_int v = Inl Undefined)
      \<or> get_bool v = Inl Undefined"
    unfolding config_of_json_def by (blast dest: rbind_Undefined read_member_Inl)
  then show False
    using assms get_fault by metis
qed

text \<open>
  Loading a configuration that parses: when every known member that is present has the right
  type, each field is that member's value or the default, the module directory always the
  default one, and one information line is logged; when one of them has the wrong type nothing
  is loaded and one error line is logged. Never is part of a file applied.
\<close>

theorem load_config:
  assumes "files path = Some text" "parse text = Inr j"
    and "\<forall>d. member j ''maxPlayers'' \<noteq> Some (JFloat d)"
  shows "if well_typed j
    then LoadConfigFromFile parse files path = Inr ([log_Info (''Loaded config from: '' @ path)],
      Some \<lparr>backendEndpoint = member_or get_string ''backendEndpoint'' j [],
        scriptRoot = member_or get_string ''scriptRoot'' j ''scripts'', modulesPath = ''modules'',
        maxPlayers = member_or get_int ''maxPlayers'' j 0, demoMode = member_or get_bool ''demoMode'' j True\<rparr>)
    else (\<exists>msg. LoadConfigFromFile parse files path = Inr ([log_Error (''Failed to parse config: '' @ msg)], None))"
proof (cases "config_of_json j")
  case (Inr cfg)
  then show ?thesis
    using assms config_of_json_Inr [OF Inr] config_of_json_typed [of j] by (simp add: LoadConfigFromFile_def)
next
  case (Inl e)
  then obtain x where "e = Exception x"
    using config_of_json_defined [OF assms(3)] by (cases e) auto
  moreover have "\<not> well_typed j"
    using config_of_json_typed [of j] Inl by auto
  ultimately show ?thesis
    using assms Inl by (auto simp: LoadConfigFromFile_def)
qed

definition sample_json :: json where
  "sample_json = JObject [(''backendEndpoint'', JString ''db''), (''modulesPath'', JString ''plugins''),
     (''maxPlayers'', JUnsigned 10)]"

theorem load_config_witness:
  "LoadConfigFromFile (\<lambda>_. Inr sample_json) (\<lambda>_. Some ''...'') ''config.json'' =
     Inr ([log_Info ''Loaded config from: config.json''],
       Some \<lparr>backendEndpoint = ''db'', scriptRoot = ''scripts'', modulesPath = ''modules'', maxPlayers = 10, demoMode = True\<rparr>)"
proof -
  have "\<forall>d. member sample_json ''maxPlayers'' \<noteq> Some (JFloat d)"
    by (simp add: sample_json_def)
  from load_config [where parse = "\<lambda>_. Inr sample_json" and files = "\<lambda>_. Some ''...''" and path = "''config.json''",
      OF refl refl this]
  show ?thesis
    by (simp add: well_typed_def typed_member_def member_or_def sample_json_def in_int_def INT_MIN_def INT_MAX_def)
qed

subsection \<open>The set-up wizard\<close>

text \<open>
  The dialogue reads lines from the standard input; after the last one every read gives the
  empty string. One \<open>Stdout\<close> is one output statement.
\<close>

record ServerConfig =
  sc_name :: string
  bindIp :: string
  sc_port :: "16 word"
  sc_maxPlayers :: int
  termsAccepted :: bool

definition default_ServerConfig :: ServerConfig where
  "default_ServerConfig = \<lparr>sc_name = ''MCX Server'', bindIp = ''0.0.0.0'', sc_port = 25565, sc_maxPlayers = 20,
     termsAccepted = False\<rparr>"

fun read_line :: "string list \<Rightarrow> string \<times> string list" where
  "read_line [] = ([], [])"
| "read_line (l # ls) = (l, ls)"

definition PromptTerms :: "ServerConfig \<Rightarrow> string list \<Rightarrow> bool \<times> ServerConfig \<times> string list \<times> console list" where
  "PromptTerms cfg inp = (let (response, inp) = read_line inp; ok = (map to_lower response = ''yes'') in
     (ok, cfg\<lparr>termsAccepted := ok\<rparr>, inp,
      [Stdout (''Terms of Service:'' @ nl),
       Stdout (''By running this server, you agree to the MCX license terms.'' @ nl @ nl),
       Stdout ''Accept terms? (yes/no): '']))"

definition PromptString :: "string \<Rightarrow> string \<Rightarrow> string list \<Rightarrow> string \<times> string list \<times> console list" where
  "PromptString label defaultVal inp = (let (response, inp) = read_line inp in
     (if response = [] then defaultVal else response, inp, [Stdout (label @ '' ['' @ defaultVal @ '']: '')]))"

text \<open>
  The two loops end only when an accepted number comes; \<open>None\<close> is not returning. An exception
  of \<^verbatim>\<open>stoi\<close> is caught and asks again.
\<close>

definition accepted :: "int \<Rightarrow> int \<Rightarrow> string \<Rightarrow> int option" where
  "accepted lo hi response = (case stoi response of
     Inr val \<Rightarrow> if lo \<le> val \<and> val \<le> hi then Some val else None
   | Inl _ \<Rightarrow> None)"

partial_function (option) PromptPort ::
    "string \<Rightarrow> 16 word \<Rightarrow> string list \<Rightarrow> (16 word \<times> string list \<times> console list) option" where
  "PromptPort label defaultVal inp =
     (let (response, inp, out) = PromptString label (show_nat (unat defaultVal)) inp in
      case accepted 1 65535 response of
        Some port \<Rightarrow> Some (word_of_int port, inp, out)
      | None \<Rightarrow> Option.bind (PromptPort label defaultVal inp) (\<lambda>(v, inp, out').
          Some (v, inp, out @ Stdout (''Invalid port. Use 1-65535.'' @ nl) # out')))"

partial_function (option) PromptInt ::
    "string \<Rightarrow> int \<Rightarrow> int \<Rightarrow> int \<Rightarrow> string list \<Rightarrow> (int \<times> string list \<times> console list) option" where
  "PromptInt label lo hi defaultVal inp =
     (let (response, inp, out) = PromptString label (show_int defaultVal) inp in
      case accepted lo hi response of
        Some val \<Rightarrow> Some (val, inp, out)
      | None \<Rightarrow> Option.bind (PromptInt label lo hi defaultVal inp) (\<lambda>(v, inp, out').
          Some (v, inp, out @ Stdout (''Invalid value. Use '' @ show_int lo @ ''-'' @ show_int hi @ ''.'' @ nl) # out')))"

text \<open>
  The regular expression \<^verbatim>\<open>^(\d{1,3})\.(\d{1,3})\.(\d{1,3})\.(\d{1,3})$\<close> matches exactly
  the texts of \<open>n = 4\<close> groups of one to three digits with a dot between them; the matcher gives
  the groups.
\<close>

fun match_groups :: "nat \<Rightarrow> string \<Rightarrow> string list option" where
  "match_groups 0 s = None"
| "match_groups (Suc n) s = (let d = takeWhile is_digit s; r = dropWhile is_digit s in
     if d = [] \<or> 3 < length d then None
     else if n = 0 then (if r = [] then Some [d] else None)
     else (case r of [] \<Rightarrow> None
       | c # r \<Rightarrow> if c = CHR ''.'' then map_option (Cons d) (match_groups n r) else None))"

definition ValidateIp :: "string \<Rightarrow> bool" where
  "ValidateIp ip = (case match_groups 4 ip of
     None \<Rightarrow> ip = ''localhost'' \<or> ip = ''*''
   | Some groups \<Rightarrow> list_all (\<lambda>g. case stoi g of Inr octet \<Rightarrow> 0 \<le> octet \<and> octet \<le> 255 | Inl _ \<Rightarrow> False) groups)"

partial_function (option) prompt_ip :: "string \<Rightarrow> string list \<Rightarrow> (string \<times> string list \<times> console list) option" where
  "prompt_ip ip inp =
     (if ValidateIp ip then Some (ip, inp, [])
      else let (ip, inp, out) = PromptString ''Bind IP'' ''0.0.0.0'' inp in
        Option.bind (prompt_ip ip inp) (\<lambda>(ip, inp, out').
          Some (ip, inp, Stdout (''Invalid IP address.'' @ nl) # out @ out')))"

definition config_file_text :: "ServerConfig \<Rightarrow> string" where
  "config_file_text cfg = (let q = [CHR 0x22] in
     ''{'' @ nl @
     ''  '' @ q @ ''name'' @ q @ '': '' @ q @ sc_name cfg @ q @ '','' @ nl @
     ''  '' @ q @ ''bindIp'' @ q @ '': '' @ q @ bindIp cfg @ q @ '','' @ nl @
     ''  '' @ q @ ''port'' @ q @ '': '' @ show_nat (unat (sc_port cfg)) @ '','' @ nl @
     ''  '' @ q @ ''maxPlayers'' @ q @ '': '' @ show_int (sc_maxPlayers cfg) @ '','' @ nl @
     ''  '' @ q @ ''termsAccepted'' @ q @ '': true'' @ nl @
     ''}'' @ nl)"

text \<open>
  \<open>GenerateConfigFile\<close> gives the text that is written to \<^verbatim>\<open>server.json\<close>, none when the stream does
  not open (\<open>opens\<close> is an argument): the code does not look, and says in both cases that it is saved.
\<close>

definition GenerateConfigFile :: "bool \<Rightarrow> ServerConfig \<Rightarrow> string option \<times> console list" where
  "GenerateConfigFile opens cfg = (if opens then Some (config_file_text cfg) else None, [log_Info ''Config saved to server.json''])"

record wizard_result =
  wr_ok :: bool
  wr_config :: ServerConfig
  wr_input :: "string list"
  wr_output :: "console list"
  wr_file :: "string option"

definition summary_lines :: "ServerConfig \<Rightarrow> console list" where
  "summary_lines cfg =
     [Stdout (nl @ ''=== Configuration Summary ==='' @ nl),
      Stdout (''Server: '' @ sc_name cfg @ nl),
      Stdout (''Bind: '' @ bindIp cfg @ '':'' @ show_nat (unat (sc_port cfg)) @ nl),
      Stdout (''Max players: '' @ show_int (sc_maxPlayers cfg) @ nl @ nl)]"

definition wizard_confirm :: "bool \<Rightarrow> ServerConfig \<Rightarrow> string list \<Rightarrow> console list \<Rightarrow> wizard_result" where
  "wizard_confirm opens cfg inp out =
     (let (confirm, inp, o1) = PromptString ''Create server? (yes/no)'' ''yes'' inp;
          out = out @ summary_lines cfg @ o1
      in if confirm \<noteq> ''yes''
         then \<lparr>wr_ok = False, wr_config = cfg, wr_input = inp, wr_output = out @ [Stdout (''Setup cancelled.'' @ nl)], wr_file = None\<rparr>
         else let (file, o2) = GenerateConfigFile opens cfg in
           \<lparr>wr_ok = True, wr_config = cfg, wr_input = inp, wr_output = out @ o2, wr_file = file\<rparr>)"

definition wizard_questions :: "bool \<Rightarrow> ServerConfig \<Rightarrow> string list \<Rightarrow> console list \<Rightarrow> wizard_result option" where
  "wizard_questions opens cfg inp out =
     (let (name, inp, o2) = PromptString ''Server name'' (sc_name cfg) inp;
          cfg = cfg\<lparr>sc_name := name\<rparr>;
          (ip, inp, o3) = PromptString ''Bind IP'' (bindIp cfg) inp
      in Option.bind (prompt_ip ip inp) (\<lambda>(ip, inp, o4).
         let cfg = cfg\<lparr>bindIp := ip\<rparr> in
         Option.bind (PromptPort ''Port'' (sc_port cfg) inp) (\<lambda>(port, inp, o5).
         let cfg = cfg\<lparr>sc_port := port\<rparr> in
         Option.bind (PromptInt ''Max players'' 1 1000 (sc_maxPlayers cfg) inp) (\<lambda>(n, inp, o6).
         Some (wizard_confirm opens (cfg\<lparr>sc_maxPlayers := n\<rparr>) inp (out @ o2 @ o3 @ o4 @ o5 @ o6))))))"

definition wizard_Run :: "bool \<Rightarrow> ServerConfig \<Rightarrow> string list \<Rightarrow> wizard_result option" where
  "wizard_Run opens cfg inp =
     (let (accepted, cfg, inp, o1) = PromptTerms cfg inp;
          out = Stdout (nl @ ''=== MCX Server Setup ==='' @ nl @ nl) # o1
      in if \<not> accepted
         then Some \<lparr>wr_ok = False, wr_config = cfg, wr_input = inp,
           wr_output = out @ [Stdout (''Setup cancelled. Terms must be accepted to continue.'' @ nl)], wr_file = None\<rparr>
         else wizard_questions opens cfg inp out)"

text \<open>\<^verbatim>\<open>GetConfig\<close> after \<^verbatim>\<open>Run\<close>.\<close>

definition GetConfig :: "wizard_result \<Rightarrow> ServerConfig" where
  "GetConfig r = wr_config r"

text \<open>
  What the numeric prompts promise: the value of the first line that is empty (the default) or
  accepted, and the default once the input is over.
\<close>

fun first_accepted :: "int \<Rightarrow> int \<Rightarrow> int \<Rightarrow> string list \<Rightarrow> int \<times> string list" where
  "first_accepted lo hi d [] = (d, [])"
| "first_accepted lo hi d (l # ls) = (if l = [] then (d, ls) else case accepted lo hi l of
     Some v \<Rightarrow> (v, ls) | None \<Rightarrow> first_accepted lo hi d ls)"

lemma accepted_Some: "accepted lo hi s = Some v \<Longrightarrow> lo \<le> v \<and> v \<le> hi"
  by (auto simp: accepted_def split: sum.splits if_splits)

lemma first_accepted_range:
  "lo \<le> d \<Longrightarrow> d \<le> hi \<Longrightarrow> lo \<le> fst (first_accepted lo hi d inp) \<and> fst (first_accepted lo hi d inp) \<le> hi"
  by (induction inp) (auto dest: accepted_Some split: option.splits)

lemma accepted_default:
  assumes "lo \<le> d" "d \<le> hi" "in_int d"
  shows "accepted lo hi (show_int d) = Some d"
  using assms by (simp add: accepted_def)

lemma PromptInt_first:
  assumes "lo \<le> d" "d \<le> hi" "in_int d"
  shows "\<exists>out. PromptInt label lo hi d inp = Some (fst (first_accepted lo hi d inp), snd (first_accepted lo hi d inp), out)"
proof (induction inp)
  case Nil
  show ?case
    by (subst PromptInt.simps) (simp add: PromptString_def accepted_default [OF assms])
next
  case (Cons l ls)
  then obtain out where "PromptInt label lo hi d ls = Some (fst (first_accepted lo hi d ls), snd (first_accepted lo hi d ls), out)"
    by blast
  then show ?case
    by (subst PromptInt.simps) (auto simp: PromptString_def accepted_default [OF assms] split: option.split)
qed

lemma port_bounds:
  assumes "d \<noteq> (0 :: 16 word)"
  shows "1 \<le> uint d \<and> uint d \<le> 65535"
proof -
  have "uint d < 65536" using unsigned_less [of d, where ?'a = int] by simp
  moreover have "0 < uint d" using assms by (metis unsigned_eq_0_iff unsigned_greater_eq order_le_less)
  ultimately show ?thesis by simp
qed

lemma accepted_port:
  assumes "(d :: 16 word) \<noteq> 0"
  shows "accepted 1 65535 (show_nat (unat d)) = Some (uint d)"
proof -
  have "in_int (uint d)" using port_bounds [OF assms] by (simp add: int_range_defs)
  moreover have "int (unat d) = uint d" by simp
  ultimately show ?thesis
    using port_bounds [OF assms] stoi_show_nat [of "unat d"] by (simp add: accepted_def)
qed

lemma PromptPort_first:
  assumes "d \<noteq> 0"
  shows "\<exists>out. PromptPort label d inp =
    Some (word_of_int (fst (first_accepted 1 65535 (uint d) inp)), snd (first_accepted 1 65535 (uint d) inp), out)"
proof (induction inp)
  case Nil
  show ?case
    by (subst PromptPort.simps) (simp add: PromptString_def accepted_port [OF assms])
next
  case (Cons l ls)
  then obtain out where "PromptPort label d ls =
      Some (word_of_int (fst (first_accepted 1 65535 (uint d) ls)), snd (first_accepted 1 65535 (uint d) ls), out)"
    by blast
  then show ?case
    by (subst PromptPort.simps) (auto simp: PromptString_def accepted_port [OF assms] split: option.split)
qed

lemma word_port_nonzero: "1 \<le> v \<Longrightarrow> v \<le> 65535 \<Longrightarrow> (word_of_int v :: 16 word) \<noteq> 0"
  by (simp add: word_of_int_eq_0_iff dvd_eq_mod_eq_0)

lemma ValidateIp_default: "ValidateIp ''0.0.0.0''"
  by code_simp

lemma prompt_ip_valid: "\<exists>ip' inp' out. prompt_ip ip inp = Some (ip', inp', out) \<and> ValidateIp ip'"
proof (induction inp arbitrary: ip)
  case Nil
  show ?case
    by (subst prompt_ip.simps, subst prompt_ip.simps) (simp add: PromptString_def ValidateIp_default)
next
  case (Cons l ls)
  obtain ip' inp' out where "prompt_ip (if l = [] then ''0.0.0.0'' else l) ls = Some (ip', inp', out)" "ValidateIp ip'"
    using Cons by blast
  then show ?case
    by (subst prompt_ip.simps) (auto simp: PromptString_def)
qed

lemma wizard_questions_run:
  assumes "PromptString ''Server name'' (sc_name cfg) inp = (name, inp2, o2)"
    and "PromptString ''Bind IP'' (bindIp cfg) inp2 = (ip3, inp3, o3)"
    and "prompt_ip ip3 inp3 = Some (ip, inp4, o4)"
    and "PromptPort ''Port'' (sc_port cfg) inp4 = Some (port, inp5, o5)"
    and "PromptInt ''Max players'' 1 1000 (sc_maxPlayers cfg) inp5 = Some (n, inp6, o6)"
  shows "wizard_questions opens cfg inp out = Some (wizard_confirm opens
    \<lparr>sc_name = name, bindIp = ip, sc_port = port, sc_maxPlayers = n, termsAccepted = termsAccepted cfg\<rparr>
    inp6 (out @ o2 @ o3 @ o4 @ o5 @ o6))"
  using assms by (cases cfg) (simp add: wizard_questions_def)

lemma wizard_Run_accepted:
  "map to_lower (fst (read_line inp)) = ''yes'' \<Longrightarrow>
   \<exists>out. wizard_Run opens cfg inp = wizard_questions opens (cfg\<lparr>termsAccepted := True\<rparr>) (snd (read_line inp)) out"
  by (cases "read_line inp") (auto simp: wizard_Run_def PromptTerms_def)

lemma wizard_Run_declined:
  "map to_lower (fst (read_line inp)) \<noteq> ''yes'' \<Longrightarrow> \<exists>r. wizard_Run opens cfg inp = Some r \<and> \<not> wr_ok r \<and> wr_file r = None"
  by (cases "read_line inp") (simp add: wizard_Run_def PromptTerms_def)

text \<open>What a wizard says and writes when it comes to the confirmation.\<close>

definition saved :: "bool \<Rightarrow> ServerConfig \<Rightarrow> wizard_result \<Rightarrow> bool" where
  "saved opens cfg r \<longleftrightarrow> wr_file r = (if opens then Some (config_file_text cfg) else None)
     \<and> log_Info ''Config saved to server.json'' \<in> set (wr_output r)"

lemma wizard_confirm_result:
  "(if wr_ok (wizard_confirm opens cfg inp out) then saved opens cfg (wizard_confirm opens cfg inp out)
    else wr_file (wizard_confirm opens cfg inp out) = None) \<and> wr_config (wizard_confirm opens cfg inp out) = cfg"
  by (simp add: wizard_confirm_def GenerateConfigFile_def saved_def Let_def split: prod.split)

lemma wizard_questions_finish:
  assumes "sc_port cfg \<noteq> 0" "1 \<le> sc_maxPlayers cfg" "sc_maxPlayers cfg \<le> 1000"
  shows "\<exists>cfg' inp' out'. wizard_questions opens cfg inp out = Some (wizard_confirm opens cfg' inp' out')
    \<and> termsAccepted cfg' = termsAccepted cfg \<and> ValidateIp (bindIp cfg') \<and> sc_port cfg' \<noteq> 0
    \<and> 1 \<le> sc_maxPlayers cfg' \<and> sc_maxPlayers cfg' \<le> 1000"
proof -
  obtain name inp2 o2 where name: "PromptString ''Server name'' (sc_name cfg) inp = (name, inp2, o2)"
    by (rule prod_cases3)
  obtain ip3 inp3 o3 where ip3: "PromptString ''Bind IP'' (bindIp cfg) inp2 = (ip3, inp3, o3)"
    by (rule prod_cases3)
  obtain ip inp4 o4 where ip: "prompt_ip ip3 inp3 = Some (ip, inp4, o4)" "ValidateIp ip"
    using prompt_ip_valid by blast
  let ?p = "fst (first_accepted 1 65535 (uint (sc_port cfg)) inp4)"
  obtain inp5 o5 where port: "PromptPort ''Port'' (sc_port cfg) inp4 = Some (word_of_int ?p, inp5, o5)"
    using PromptPort_first [OF assms(1)] by blast
  have p: "(word_of_int ?p :: 16 word) \<noteq> 0"
    using first_accepted_range [of 1 "uint (sc_port cfg)" 65535 inp4] port_bounds [OF assms(1)] word_port_nonzero by blast
  let ?n = "fst (first_accepted 1 1000 (sc_maxPlayers cfg) inp5)"
  have "in_int (sc_maxPlayers cfg)" using assms by (simp add: int_range_defs)
  then obtain inp6 o6 where int: "PromptInt ''Max players'' 1 1000 (sc_maxPlayers cfg) inp5 = Some (?n, inp6, o6)"
    using PromptInt_first [OF assms(2,3)] by blast
  have n: "1 \<le> ?n" "?n \<le> 1000"
    using first_accepted_range [OF assms(2,3), of inp5] by simp_all
  show ?thesis
    unfolding wizard_questions_run [OF name ip3 ip(1) port int]
    by (intro exI conjI, rule refl) (use ip(2) p n in simp_all)
qed

lemma wizard_questions_confirm:
  "wizard_questions opens cfg inp out = Some r \<Longrightarrow> \<exists>c i x. r = wizard_confirm opens c i x"
  by (auto simp: wizard_questions_def Let_def bind_eq_Some_conv split: prod.splits)

text \<open>A wizard that says yes has written its configuration if the file opens, whatever the defaults were.\<close>

lemma wizard_files:
  assumes "wizard_Run opens cfg inp = Some r" "wr_ok r"
  shows "saved opens (wr_config r) r"
proof (cases "map to_lower (fst (read_line inp)) = ''yes''")
  case True
  then obtain c i x where "r = wizard_confirm opens c i x"
    using wizard_Run_accepted [OF True, of opens cfg] assms(1) wizard_questions_confirm by metis
  then show ?thesis using wizard_confirm_result [of opens c i x] assms(2) by simp
next
  case False
  then show ?thesis using wizard_Run_declined [OF False, of opens cfg] assms by auto
qed

lemma ValidateIp_default_kept: "prompt_ip ''0.0.0.0'' inp = Some (''0.0.0.0'', inp, [])"
  by (subst prompt_ip.simps) (simp add: ValidateIp_default)

text \<open>With the terms accepted and nothing else typed the wizard says yes.\<close>

lemma silent_wizard: "\<exists>r. wizard_Run opens default_ServerConfig [''yes''] = Some r \<and> wr_ok r"
proof -
  have yes: "map to_lower (fst (read_line [''yes''])) = ''yes''" by code_simp
  obtain o1 where o1: "PromptPort ''Port'' 25565 [] = Some (25565, [], o1)"
    using PromptPort_first [of 25565 "''Port''" "[]"] by auto
  obtain o2 where o2: "PromptInt ''Max players'' 1 1000 20 [] = Some (20, [], o2)"
    using PromptInt_first [of 1 20 1000 "''Max players''" "[]"] by (auto simp: int_range_defs)
  obtain out where "wizard_Run opens default_ServerConfig [''yes''] = wizard_questions opens (default_ServerConfig\<lparr>termsAccepted := True\<rparr>) [] out"
    using wizard_Run_accepted [OF yes, of opens default_ServerConfig] by auto
  with o1 o2 have "\<exists>c x. wizard_Run opens default_ServerConfig [''yes''] = Some (wizard_confirm opens c [] x)"
    by (simp add: wizard_questions_def default_ServerConfig_def PromptString_def ValidateIp_default_kept) blast
  then show ?thesis
    by (auto simp: wizard_confirm_def PromptString_def GenerateConfigFile_def Let_def)
qed

text \<open>
  C25. The wizard always finishes, whatever is typed and wherever the input ends (every prompt has
  an acceptable default). When it says yes the terms are accepted, the address is valid and the port and the
  player limit are in range; \<^verbatim>\<open>server.json\<close> then holds exactly this configuration if it could be opened
  and is left alone if not, and the log says in both cases that it was saved. When it says no, nothing
  has been written.
\<close>

theorem wizard_always_finishes:
  assumes "sc_port cfg \<noteq> 0" "1 \<le> sc_maxPlayers cfg" "sc_maxPlayers cfg \<le> 1000"
  shows "\<exists>r. wizard_Run opens cfg inp = Some r \<and>
    (if wr_ok r then termsAccepted (wr_config r) \<and> ValidateIp (bindIp (wr_config r)) \<and> sc_port (wr_config r) \<noteq> 0
       \<and> 1 \<le> sc_maxPlayers (wr_config r) \<and> sc_maxPlayers (wr_config r) \<le> 1000
       \<and> wr_file r = (if opens then Some (config_file_text (wr_config r)) else None)
       \<and> log_Info ''Config saved to server.json'' \<in> set (wr_output r)
     else wr_file r = None)"
proof (cases "map to_lower (fst (read_line inp)) = ''yes''")
  case False
  from wizard_Run_declined [OF this, of opens cfg] obtain r where "wizard_Run opens cfg inp = Some r" "\<not> wr_ok r" "wr_file r = None"
    by blast
  then show ?thesis by simp
next
  case True
  obtain inp1 out1 where "wizard_Run opens cfg inp = wizard_questions opens (cfg\<lparr>termsAccepted := True\<rparr>) inp1 out1"
    using wizard_Run_accepted [OF True] by blast
  moreover obtain cfg' inp' out' where
    "wizard_questions opens (cfg\<lparr>termsAccepted := True\<rparr>) inp1 out1 = Some (wizard_confirm opens cfg' inp' out')"
    "termsAccepted cfg'" "ValidateIp (bindIp cfg')" "sc_port cfg' \<noteq> 0" "1 \<le> sc_maxPlayers cfg'" "sc_maxPlayers cfg' \<le> 1000"
    using wizard_questions_finish [of "cfg\<lparr>termsAccepted := True\<rparr>" opens inp1 out1] assms by auto
  ultimately show ?thesis
    using wizard_confirm_result [of opens cfg' inp' out'] unfolding saved_def by (cases "wr_ok (wizard_confirm opens cfg' inp' out')"; cases opens) simp_all
qed

text \<open>In a directory that cannot be written the wizard says that it has saved the file.\<close>

theorem wizard_always_finishes_witness:
  "\<exists>r. wizard_Run False default_ServerConfig [''yes''] = Some r \<and> wr_ok r \<and> wr_file r = None
     \<and> log_Info ''Config saved to server.json'' \<in> set (wr_output r) \<and> termsAccepted (wr_config r)"
proof -
  have d: "sc_port default_ServerConfig \<noteq> 0" "1 \<le> sc_maxPlayers default_ServerConfig" "sc_maxPlayers default_ServerConfig \<le> 1000"
    by (simp_all add: default_ServerConfig_def)
  obtain r where "wizard_Run False default_ServerConfig [''yes''] = Some r" "wr_ok r" using silent_wizard by blast
  with wizard_always_finishes [OF d, of False "[''yes'']"] show ?thesis by auto
qed

text \<open>
  Answering every question with a valid value gives exactly the configuration of the answers, written if the file opens.
\<close>

theorem wizard_answers:
  assumes "map to_lower yes = ''yes''" "name \<noteq> []" "ValidateIp ip" "port \<noteq> 0" "1 \<le> n" "n \<le> 1000"
  shows "map_option (\<lambda>r. (wr_ok r, GetConfig r, wr_file r))
     (wizard_Run opens cfg [yes, name, ip, show_nat (unat port), show_int n, ''yes'']) =
     (let answers = \<lparr>sc_name = name, bindIp = ip, sc_port = port, sc_maxPlayers = n, termsAccepted = True\<rparr>
      in Some (True, answers, if opens then Some (config_file_text answers) else None))"
proof -
  let ?answers = "\<lparr>sc_name = name, bindIp = ip, sc_port = port, sc_maxPlayers = n, termsAccepted = True\<rparr>"
  let ?in = "[name, ip, show_nat (unat port), show_int n, ''yes'']"
  have "ip \<noteq> []"
    using assms(3) by (auto simp: ValidateIp_def numeral_eq_Suc)
  have answer: "PromptString label d (l # ls) = (l, ls, [Stdout (label @ '' ['' @ d @ '']: '')])" if "l \<noteq> []" for label d l ls
    using that by (simp add: PromptString_def)
  have ip: "prompt_ip ip ls = Some (ip, ls, [])" for ls
    using assms(3) by (subst prompt_ip.simps) simp
  have port: "\<exists>o5. PromptPort ''Port'' d (show_nat (unat port) # ls) = Some (port, ls, o5)" for d ls
    using assms(4) by (subst PromptPort.simps) (simp add: answer accepted_port)
  have "show_int n \<noteq> []" by (simp add: show_int_def)
  moreover have "accepted 1 1000 (show_int n) = Some n"
    using assms(5,6) by (simp add: accepted_def int_range_defs)
  ultimately have int: "\<exists>o6. PromptInt ''Max players'' 1 1000 d (show_int n # ls) = Some (n, ls, o6)" for d ls
    by (subst PromptInt.simps) (simp add: answer)
  obtain out1 where run: "wizard_Run opens cfg (yes # ?in) = wizard_questions opens (cfg\<lparr>termsAccepted := True\<rparr>) ?in out1"
    using wizard_Run_accepted [of "yes # ?in" opens cfg] assms(1) by auto
  obtain o5 where o5: "PromptPort ''Port'' (sc_port cfg) (show_nat (unat port) # [show_int n, ''yes'']) = Some (port, [show_int n, ''yes''], o5)"
    using port by blast
  obtain o6 where o6: "PromptInt ''Max players'' 1 1000 (sc_maxPlayers cfg) (show_int n # [''yes'']) = Some (n, [''yes''], o6)"
    using int by blast
  have "\<exists>out'. wizard_questions opens (cfg\<lparr>termsAccepted := True\<rparr>) ?in out1 = Some (wizard_confirm opens ?answers [''yes''] out')"
    using o5 o6
    by (intro exI) (rule wizard_questions_run [where cfg = "cfg\<lparr>termsAccepted := True\<rparr>", simplified,
        OF answer [OF assms(2)] answer [OF \<open>ip \<noteq> []\<close>] ip])
  then show ?thesis
    by (auto simp: run wizard_confirm_def answer GenerateConfigFile_def GetConfig_def Let_def)
qed

theorem wizard_answers_witness:
  "map_option (\<lambda>r. (wr_ok r, GetConfig r, wr_file r))
     (wizard_Run True default_ServerConfig [''Yes'', ''Lobby'', ''127.0.0.1'', ''25570'', ''64'', ''yes'']) =
     (let answers = \<lparr>sc_name = ''Lobby'', bindIp = ''127.0.0.1'', sc_port = 25570, sc_maxPlayers = 64, termsAccepted = True\<rparr>
      in Some (True, answers, Some (config_file_text answers)))"
proof -
  have "map to_lower ''Yes'' = ''yes''" "ValidateIp ''127.0.0.1''" "show_nat (unat (25570 :: 16 word)) = ''25570''"
    "show_int 64 = ''64''"
    by code_simp+
  then show ?thesis
    using wizard_answers [of "''Yes''" "''Lobby''" "''127.0.0.1''" 25570 64 True default_ServerConfig] by simp
qed

text \<open>
  An address is accepted exactly when it is \<^verbatim>\<open>localhost\<close>, \<^verbatim>\<open>*\<close>, or four groups of one
  to three digits with dots between them, each group at most 255.
\<close>

definition dotted :: "string list \<Rightarrow> string" where
  "dotted gs = (case gs of [] \<Rightarrow> [] | g # gs \<Rightarrow> g @ concat (map (\<lambda>g. CHR ''.'' # g) gs))"

definition digit_group :: "string \<Rightarrow> bool" where
  "digit_group g \<longleftrightarrow> list_all is_digit g \<and> g \<noteq> [] \<and> length g \<le> 3"

lemma is_digit_dot: "\<not> is_digit (CHR ''.'')"
  by code_simp

lemma dotted_Cons: "dotted (g # h # gs) = g @ CHR ''.'' # dotted (h # gs)"
  by (simp add: dotted_def)

lemma takeWhile_group:
  "list_all is_digit g \<Longrightarrow> r = [] \<or> \<not> is_digit (hd r) \<Longrightarrow> takeWhile is_digit (g @ r) = g \<and> dropWhile is_digit (g @ r) = r"
  by (induction g) (cases r; auto)+

lemma match_groups_dotted:
  "length gs = Suc n \<Longrightarrow> list_all digit_group gs \<Longrightarrow> match_groups (Suc n) (dotted gs) = Some gs"
proof (induction n arbitrary: gs)
  case 0
  then obtain g where g: "gs = [g]" "digit_group g" by (cases gs) auto
  then have split: "takeWhile is_digit g = g" "dropWhile is_digit g = []"
    using takeWhile_group [of g "[]"] by (simp_all add: digit_group_def)
  have "match_groups (Suc 0) g = Some [g]"
    using g(2) by (simp only: match_groups.simps Let_def split) (simp add: digit_group_def)
  then show ?case by (simp add: g(1) dotted_def)
next
  case (Suc n)
  then obtain g h gs' where gs: "gs = g # h # gs'" by (cases gs; cases "tl gs") auto
  with Suc have "digit_group g" "match_groups (Suc n) (dotted (h # gs')) = Some (h # gs')" by simp_all
  then show ?case
    using takeWhile_group [of g "CHR ''.'' # dotted (h # gs')"] is_digit_dot
    by (simp add: gs dotted_Cons digit_group_def Let_def del: match_groups.simps(2) add: match_groups.simps(2) [of "Suc n"])
qed

lemma match_groups_Some:
  "match_groups n s = Some gs \<Longrightarrow> s = dotted gs \<and> length gs = n \<and> list_all digit_group gs"
proof (induction n s arbitrary: gs rule: match_groups.induct)
  case (1 s)
  then show ?case by simp
next
  case (2 n s)
  let ?d = "takeWhile is_digit s" and ?r = "dropWhile is_digit s"
  have d: "list_all is_digit ?d" by (auto simp: list_all_iff dest: set_takeWhileD)
  have len: "\<not> (?d = [] \<or> 3 < length ?d)"
    using 2(2) by (auto simp: Let_def split: if_splits)
  then have g: "digit_group ?d" using d by (simp add: digit_group_def)
  have s: "s = ?d @ ?r" by simp
  show ?case
  proof (cases "n = 0")
    case True
    with 2(2) len have "gs = [?d]" "?r = []" by (auto simp: Let_def split: if_splits)
    then have "s = hd gs" using s by (metis append_Nil2 list.sel(1))
    then show ?thesis using \<open>gs = [?d]\<close> g True by (simp add: dotted_def)
  next
    case False
    with 2(2) len obtain r' gs' where r: "?r = CHR ''.'' # r'" "match_groups n r' = Some gs'" "gs = ?d # gs'"
      by (auto simp: Let_def split: list.splits if_splits)
    then have ih: "r' = dotted gs' \<and> length gs' = n \<and> list_all digit_group gs'"
      using 2(1) [OF refl refl len False r(1) refl] by blast
    moreover obtain h hs where "gs' = h # hs"
      using ih False by (cases gs') auto
    moreover have "s = ?d @ CHR ''.'' # r'" using s r(1) by metis
    ultimately show ?thesis using r(3) g by (simp add: dotted_Cons)
  qed
qed

lemma match_groups_iff:
  "match_groups (Suc n) s = Some gs \<longleftrightarrow> s = dotted gs \<and> length gs = Suc n \<and> list_all digit_group gs"
  using match_groups_Some match_groups_dotted by blast

lemma read_digits_less: "list_all is_digit g \<Longrightarrow> read_digits g < 10 ^ length g"
proof (induction g rule: rev_induct)
  case Nil
  then show ?case by (simp add: read_digits_def)
next
  case (snoc c g)
  then have "read_digits g < 10 ^ length g" "digit_value c < 10" by (simp_all add: digit_value_less)
  then show ?case by simp
qed

lemma stoi_group:
  assumes "digit_group g"
  shows "stoi g = Inr (int (read_digits g))"
proof -
  obtain c cs where g: "g = c # cs" using assms by (cases g) (auto simp: digit_group_def)
  then have "is_digit c" using assms by (simp add: digit_group_def)
  then have "\<not> is_space c" "c \<noteq> CHR ''-''" "c \<noteq> CHR ''+''" by (auto simp: is_digit_def is_space_def)
  then have sign: "stoi_sign (dropWhile is_space g) = (False, g)" by (simp add: g stoi_sign_def)
  have tw: "takeWhile is_digit g = g"
    using takeWhile_group [of g "[]"] assms by (simp add: digit_group_def)
  have "read_digits g < 10 ^ length g" "length g \<le> 3"
    using read_digits_less assms by (simp_all add: digit_group_def)
  then have "read_digits g < 10 ^ 3"
    by (meson less_le_trans one_le_numeral power_increasing)
  then have "in_int (int (read_digits g))" by (simp add: int_range_defs)
  moreover have "g \<noteq> []" by (simp add: g)
  ultimately show ?thesis
    by (simp only: stoi_def sign Let_def prod.case tw if_False if_True)
qed

text \<open>
  C40. The set-up accepts exactly the addresses \<^verbatim>\<open>localhost\<close>, \<^verbatim>\<open>*\<close> and four dotted groups
  of one to three digits with a value of at most 255.
\<close>

theorem ValidateIp_iff:
  "ValidateIp ip \<longleftrightarrow> ip = ''localhost'' \<or> ip = ''*'' \<or>
     (\<exists>gs. ip = dotted gs \<and> length gs = 4 \<and> list_all (\<lambda>g. digit_group g \<and> read_digits g \<le> 255) gs)"
proof (cases "match_groups 4 ip")
  case None
  then have "\<not> (\<exists>gs. ip = dotted gs \<and> length gs = 4 \<and> list_all digit_group gs)"
    using match_groups_iff [of 3 ip] by simp
  then have "\<not> (\<exists>gs. ip = dotted gs \<and> length gs = 4 \<and> list_all (\<lambda>g. digit_group g \<and> read_digits g \<le> 255) gs)"
    by (auto simp: list_all_iff)
  then show ?thesis by (simp only: ValidateIp_def None option.case) blast
next
  case (Some gs)
  then have gs: "ip = dotted gs" "length gs = 4" "list_all digit_group gs"
    using match_groups_iff [of 3 ip gs] by simp_all
  have "match_groups 4 ''localhost'' = None" "match_groups 4 ''*'' = None" by code_simp+
  then have "ip \<noteq> ''localhost''" "ip \<noteq> ''*''" using Some by auto
  moreover have "(\<exists>gs'. ip = dotted gs' \<and> length gs' = 4 \<and> list_all (\<lambda>g. digit_group g \<and> read_digits g \<le> 255) gs')
      \<longleftrightarrow> list_all (\<lambda>g. read_digits g \<le> 255) gs"
  proof
    assume "\<exists>gs'. ip = dotted gs' \<and> length gs' = 4 \<and> list_all (\<lambda>g. digit_group g \<and> read_digits g \<le> 255) gs'"
    then obtain gs' where "ip = dotted gs'" "length gs' = 4" "list_all digit_group gs'" "list_all (\<lambda>g. read_digits g \<le> 255) gs'"
      by (auto simp: list_all_iff)
    with match_groups_iff [of 3 ip gs'] Some show "list_all (\<lambda>g. read_digits g \<le> 255) gs" by simp
  next
    assume "list_all (\<lambda>g. read_digits g \<le> 255) gs"
    with gs show "\<exists>gs'. ip = dotted gs' \<and> length gs' = 4 \<and> list_all (\<lambda>g. digit_group g \<and> read_digits g \<le> 255) gs'"
      by (intro exI [of _ gs]) (simp add: list_all_iff)
  qed
  moreover have "ValidateIp ip \<longleftrightarrow> list_all (\<lambda>g. read_digits g \<le> 255) gs"
    using gs(3) by (auto simp: ValidateIp_def Some list_all_iff stoi_group)
  ultimately show ?thesis by simp
qed

text \<open>The generated file does not escape what was typed: a name with a quotation mark breaks it.\<close>

lemma config_file_unescaped:
  "take 16 (config_file_text (default_ServerConfig\<lparr>sc_name := [CHR 0x22]\<rparr>)) =
     ''{'' @ nl @ ''  '' @ [CHR 0x22] @ ''name'' @ [CHR 0x22] @ '': '' @ [CHR 0x22, CHR 0x22, CHR 0x22, CHR '','']"
  by code_simp

subsection \<open>The file watcher\<close>

text \<open>
  One tick is one turn of the loop: whether \<^verbatim>\<open>running_\<close> is still set when it is tested, and
  whether \<^verbatim>\<open>select\<close> (on Linux, within its second) or \<^verbatim>\<open>ReadDirectoryChangesW\<close> (on Windows)
  reports a change. An exception of the callback leaves the thread and ends the process, and so
  does a second start while the first thread has not been joined (\<open>None\<close>).
\<close>

record 'c ConfigWatcher =
  filepath :: string
  watcher_running :: bool
  watcher_joinable :: bool
  watcher_callback :: "'c effect option"

definition ConfigWatcher_new :: "string \<Rightarrow> 'c ConfigWatcher" where
  "ConfigWatcher_new path = \<lparr>filepath = path, watcher_running = False, watcher_joinable = False, watcher_callback = None\<rparr>"

definition OnChange :: "'c effect option \<Rightarrow> 'c ConfigWatcher \<Rightarrow> 'c ConfigWatcher" where
  "OnChange cb w = w\<lparr>watcher_callback := cb\<rparr>"

definition Start_watcher :: "'c ConfigWatcher \<Rightarrow> 'c ConfigWatcher option" where
  "Start_watcher w = (if watcher_joinable w then None else Some (w\<lparr>watcher_running := True, watcher_joinable := True\<rparr>))"

definition Stop_watcher :: "'c ConfigWatcher \<Rightarrow> 'c ConfigWatcher" where
  "Stop_watcher w = w\<lparr>watcher_running := False, watcher_joinable := False\<rparr>"

datatype watch_tick = Tick (still_running: bool) (changed: bool)

definition call_watcher :: "'c effect option \<Rightarrow> 'c effect" where
  "call_watcher cb c = (case cb of None \<Rightarrow> (c, None) | Some f \<Rightarrow> f c)"

fun watch_ticks :: "'c effect option \<Rightarrow> watch_tick list \<Rightarrow> 'c \<Rightarrow> 'c \<times> exn option" where
  "watch_ticks cb [] c = (c, None)"
| "watch_ticks cb (t # ts) c =
     (if \<not> still_running t then (c, None)
      else if \<not> changed t then watch_ticks cb ts c
      else (case call_watcher cb c of (c, None) \<Rightarrow> watch_ticks cb ts c | (c, Some e) \<Rightarrow> (c, Some e)))"

text \<open>\<open>fd\<close> and \<open>wd\<close> are the results of \<^verbatim>\<open>inotify_init\<close> and \<^verbatim>\<open>inotify_add_watch\<close>.\<close>

definition WatchLoop :: "int \<Rightarrow> (string \<Rightarrow> int) \<Rightarrow> 'c ConfigWatcher \<Rightarrow> watch_tick list \<Rightarrow> 'c \<Rightarrow> 'c \<times> exn option \<times> console list" where
  "WatchLoop fd wd w ticks c =
     (if fd < 0 then (c, None, [log_Error ''Failed to init inotify''])
      else if wd (filepath w) < 0 then (c, None, [log_Error ''Failed to watch config file''])
      else let (c, e) = watch_ticks (watcher_callback w) ticks c in (c, e, []))"

text \<open>
  The branch for Windows: \<open>handle\<close> says whether \<^verbatim>\<open>CreateFileA\<close> opened the path. The turns are
  those of the other branch, with a second of sleep after each.
\<close>

definition WatchLoop_windows :: "(string \<Rightarrow> bool) \<Rightarrow> 'c ConfigWatcher \<Rightarrow> watch_tick list \<Rightarrow> 'c \<Rightarrow> 'c \<times> exn option \<times> console list" where
  "WatchLoop_windows handle w ticks c =
     (if \<not> handle (filepath w) then (c, None, [log_Error ''Failed to watch config file''])
      else let (c, e) = watch_ticks (watcher_callback w) ticks c in (c, e, []))"

definition changes_seen :: "watch_tick list \<Rightarrow> nat" where
  "changes_seen ts = length (filter changed (takeWhile still_running ts))"

text \<open>The callback runs once for every change that is seen before the stop.\<close>

lemma watch_ticks_run: "watch_ticks (Some f) ts c = run_effects (replicate (changes_seen ts) f) c"
  by (induction "Some f" ts c rule: watch_ticks.induct)
    (auto simp: changes_seen_def call_watcher_def split: prod.split option.split)

lemma WatchLoop_run:
  assumes "0 \<le> fd" "0 \<le> wd (filepath w)" "watcher_callback w = Some f" "run_effects (replicate (changes_seen ts) f) c = (c', e)"
  shows "WatchLoop fd wd w ts c = (c', e, [])"
  using assms by (simp add: WatchLoop_def watch_ticks_run)

lemma WatchLoop_branches_agree:
  "0 \<le> fd \<Longrightarrow> WatchLoop_windows (\<lambda>path. 0 \<le> wd path) w ts c = WatchLoop fd wd w ts c"
  by (simp add: WatchLoop_def WatchLoop_windows_def)

lemma watcher_starts_after_stop: "\<exists>w'. Start_watcher (Stop_watcher w) = Some w' \<and> Start_watcher w' = None"
  by (simp add: Start_watcher_def Stop_watcher_def)

subsection \<open>The log file\<close>

text \<open>\<open>None\<close> is a file that could not be opened; \<open>time\<close> is the text of \<^verbatim>\<open>put_time\<close>.\<close>

record FileLogger =
  log_contents :: "string option"

definition FileLogger_new :: "string option \<Rightarrow> FileLogger" where
  "FileLogger_new opened = \<lparr>log_contents = opened\<rparr>"

definition IsOpen :: "FileLogger \<Rightarrow> bool" where
  "IsOpen l \<longleftrightarrow> log_contents l \<noteq> None"

definition Write :: "string \<Rightarrow> string \<Rightarrow> FileLogger \<Rightarrow> FileLogger" where
  "Write time message l = (case log_contents l of None \<Rightarrow> l
     | Some text \<Rightarrow> l\<lparr>log_contents := Some (text @ time @ '' '' @ message @ nl)\<rparr>)"

interpretation log_lines: simulation "\<lambda>(time, message). Write time message" log_contents
    "\<lambda>(time, message). map_option (\<lambda>text. text @ time @ '' '' @ message @ nl)"
  by unfold_locales (auto simp: Write_def split: option.split)

lemma log_appends:
  "log_contents (fold (\<lambda>(time, message). Write time message) ms (FileLogger_new (Some old))) =
     Some (old @ concat (map (\<lambda>(time, message). time @ '' '' @ message @ nl) ms))"
  unfolding log_lines.abs_run
  by (induction ms arbitrary: old) (auto simp: FileLogger_new_def)

end
