(* ===== verification/MCX_Backup.thy ===== *)
theory MCX_Backup
  imports MCX_Strings "HOL-Library.Char_ord" "HOL-Library.List_Lexorder"
begin

text \<open>
  The backup manager (\<^verbatim>\<open>core/backup_manager.cpp\<close>): copying the world directory under a
  time-stamped name, keeping the newest copies, restoring one, and the automatic loop. The
  disk is a map from paths to directory trees; trees at different paths do not overlap (the
  world is not inside the backup directory, nor the other way round).
\<close>

subsection \<open>The disk\<close>

text \<open>
  A tree is a map from the relative path of a file to its contents. Iterations over a directory
  come in an order that the system chooses: \<open>files_of\<close> for the files of a tree, \<open>listing\<close>
  for the entries of the backup directory.
\<close>

type_synonym tree = "(string, string) umap"

record Disk =
  backups_exist :: bool
  trees :: "(string, tree) umap"

record Iteration =
  files_of :: "tree \<Rightarrow> string list"
  listing :: "(string, tree) umap \<Rightarrow> string list"

definition in_backups :: "string \<Rightarrow> bool" where
  "in_backups p \<longleftrightarrow> prefix ''backups/'' p"

definition entries_of :: "(string, tree) umap \<Rightarrow> string set" where
  "entries_of ts = {p. in_backups p \<and> fmlookup ts p \<noteq> None}"

definition iterates :: "Iteration \<Rightarrow> bool" where
  "iterates it \<longleftrightarrow> (\<forall>t. enumerates (files_of it t) t)
     \<and> (\<forall>ts. distinct (listing it ts) \<and> set (listing it ts) = entries_of ts)"

definition copy_error :: "string \<Rightarrow> exn" where
  "copy_error why = Std_exception (''filesystem error: cannot copy: '' @ why)"

text \<open>
  \<^verbatim>\<open>copy\<close> with \<^verbatim>\<open>recursive\<close> adds the files one by one and throws at the first that exists
  already; a missing source throws at once.
\<close>

fun copy_files :: "tree \<Rightarrow> string list \<Rightarrow> tree \<Rightarrow> tree \<times> exn option" where
  "copy_files src [] dst = (dst, None)"
| "copy_files src (f # fs) dst = (case fmlookup dst f of
     Some _ \<Rightarrow> (dst, Some (copy_error ''File exists''))
   | None \<Rightarrow> (case fmlookup src f of
       None \<Rightarrow> copy_files src fs dst
     | Some contents \<Rightarrow> copy_files src fs (fmupd f contents dst)))"

definition fs_copy :: "Iteration \<Rightarrow> string \<Rightarrow> string \<Rightarrow> Disk \<Rightarrow> Disk \<times> exn option" where
  "fs_copy it src dst d = (case fmlookup (trees d) src of
     None \<Rightarrow> (d, Some (copy_error ''No such file or directory''))
   | Some t \<Rightarrow> let old = (case fmlookup (trees d) dst of None \<Rightarrow> fmempty | Some u \<Rightarrow> u);
                 (new, e) = copy_files t (files_of it t) old
       in (d\<lparr>trees := fmupd dst new (trees d)\<rparr>, e))"

definition remove_all :: "string \<Rightarrow> Disk \<Rightarrow> Disk" where
  "remove_all p d = d\<lparr>trees := fmdrop p (trees d)\<rparr>"

subsection \<open>The manager\<close>

record BackupManager =
  worldPath :: string
  backupPath :: string
  interval :: int
  maxBackups :: size_t
  backup_running :: bool

definition default_BackupManager :: BackupManager where
  "default_BackupManager = \<lparr>worldPath = [], backupPath = ''backups/'', interval = 30, maxBackups = 10, backup_running = False\<rparr>"

definition SetWorldPath :: "string \<Rightarrow> BackupManager \<Rightarrow> BackupManager" where
  "SetWorldPath path m = m\<lparr>worldPath := path\<rparr>"

definition SetBackupInterval :: "int \<Rightarrow> BackupManager \<Rightarrow> BackupManager" where
  "SetBackupInterval i m = m\<lparr>interval := i\<rparr>"

definition SetMaxBackups :: "size_t \<Rightarrow> BackupManager \<Rightarrow> BackupManager" where
  "SetMaxBackups n m = m\<lparr>maxBackups := n\<rparr>"

text \<open>\<open>stamp\<close> is the local time in the format \<^verbatim>\<open>%Y%m%d_%H%M%S\<close>.\<close>

definition GenerateBackupName :: "string \<Rightarrow> string" where
  "GenerateBackupName stamp = ''backup_'' @ stamp"

definition ListBackups :: "Iteration \<Rightarrow> Disk \<Rightarrow> string list" where
  "ListBackups it d = (if backups_exist d then listing it (trees d) else [])"

fun remove_each :: "string list \<Rightarrow> Disk \<Rightarrow> Disk \<times> console list" where
  "remove_each [] d = (d, [])"
| "remove_each (b # bs) d = (let (d, out) = remove_each bs (remove_all b d) in (d, log_Info (''Old backup removed: '' @ b) # out))"

definition CleanupOldBackups :: "Iteration \<Rightarrow> BackupManager \<Rightarrow> Disk \<Rightarrow> Disk \<times> console list" where
  "CleanupOldBackups it m d = (let backups = ListBackups it d in
     if length backups \<le> unat (maxBackups m) then (d, [])
     else remove_each (take (length backups - unat (maxBackups m)) (sort backups)) d)"

type_synonym 'c backup_callback = "(bool \<Rightarrow> string \<Rightarrow> 'c effect) option"

definition call_backup :: "'c backup_callback \<Rightarrow> bool \<Rightarrow> string \<Rightarrow> 'c effect" where
  "call_backup cb ok path c = (case cb of None \<Rightarrow> (c, None) | Some f \<Rightarrow> f ok path c)"

text \<open>The body of the \<^verbatim>\<open>try\<close>, with the exception that ends it early.\<close>

definition backup_try :: "Iteration \<Rightarrow> string \<Rightarrow> BackupManager \<Rightarrow> 'c backup_callback \<Rightarrow> Disk \<Rightarrow> 'c
    \<Rightarrow> Disk \<times> 'c \<times> console list \<times> exn option" where
  "backup_try it stamp m cb d c =
     (let d = d\<lparr>backups_exist := True\<rparr>; dest = backupPath m @ GenerateBackupName stamp in
      case fs_copy it (worldPath m) dest d of
        (d, Some e) \<Rightarrow> (d, c, [], Some e)
      | (d, None) \<Rightarrow>
          let (d, out) = CleanupOldBackups it m d; (c, e) = call_backup cb True dest c
          in (d, c, out @ [log_Info (''Backup created: '' @ dest)], e))"

text \<open>An exception of the second call of the callback leaves \<open>BackupNow\<close>.\<close>

definition BackupNow :: "Iteration \<Rightarrow> string \<Rightarrow> BackupManager \<Rightarrow> 'c backup_callback \<Rightarrow> Disk \<Rightarrow> 'c
    \<Rightarrow> Disk \<times> 'c \<times> console list \<times> exn option" where
  "BackupNow it stamp m cb d c = (case backup_try it stamp m cb d c of
     (d, c, out, None) \<Rightarrow> (d, c, out, None)
   | (d, c, out, Some e) \<Rightarrow>
       let (c, e') = call_backup cb False [] c in (d, c, out @ [log_Error (''Backup failed: '' @ exn_text e)], e'))"

definition RestoreBackup :: "Iteration \<Rightarrow> string \<Rightarrow> BackupManager \<Rightarrow> Disk \<Rightarrow> Disk \<times> console list" where
  "RestoreBackup it path m d = (case fs_copy it path (worldPath m) (remove_all (worldPath m) d) of
     (d, None) \<Rightarrow> (d, [log_Info (''Backup restored: '' @ path)])
   | (d, Some e) \<Rightarrow> (d, [log_Error (''Restore failed: '' @ exn_text e)]))"

text \<open>
  One turn of the automatic loop: whether \<^verbatim>\<open>running_\<close> is set before and after the sleep, and
  the time stamp after it. A callback is never given.
\<close>

datatype backup_turn = Turn (before: bool) (after: bool) (stamp_of: string)

fun BackupLoop :: "Iteration \<Rightarrow> BackupManager \<Rightarrow> backup_turn list \<Rightarrow> Disk \<Rightarrow> Disk \<times> console list" where
  "BackupLoop it m [] d = (d, [])"
| "BackupLoop it m (t # ts) d =
     (if \<not> before t then (d, [])
      else if \<not> after t then BackupLoop it m ts d
      else let (d, _, out, _) = BackupNow it (stamp_of t) m None d ();
               (d, out') = BackupLoop it m ts d in (d, out @ out'))"

definition StartAutoBackup :: "BackupManager \<Rightarrow> BackupManager \<times> console list" where
  "StartAutoBackup m = (m\<lparr>backup_running := True\<rparr>, [log_Info ''Auto-backup started''])"

definition StopAutoBackup :: "BackupManager \<Rightarrow> BackupManager" where
  "StopAutoBackup m = m\<lparr>backup_running := False\<rparr>"

subsection \<open>Copying and removing\<close>

lemma copy_files_fresh:
  "distinct fs \<Longrightarrow> (\<forall>f \<in> set fs. fmlookup dst f = None \<and> fmlookup src f \<noteq> None) \<Longrightarrow>
   \<exists>new. copy_files src fs dst = (new, None) \<and>
     (\<forall>f. fmlookup new f = (if f \<in> set fs then fmlookup src f else fmlookup dst f))"
proof (induction fs arbitrary: dst)
  case Nil
  then show ?case by simp
next
  case (Cons f fs)
  then obtain contents where c: "fmlookup src f = Some contents" by auto
  have "\<exists>new. copy_files src fs (fmupd f contents dst) = (new, None) \<and>
      (\<forall>g. fmlookup new g = (if g \<in> set fs then fmlookup src g else fmlookup (fmupd f contents dst) g))"
    using Cons by (intro Cons.IH) auto
  then show ?case
    using Cons.prems c by auto
qed

lemma copy_files_all:
  assumes "enumerates fs src"
  shows "copy_files src fs fmempty = (src, None)"
proof -
  obtain new where new: "copy_files src fs fmempty = (new, None)"
    "\<forall>f. fmlookup new f = (if f \<in> set fs then fmlookup src f else fmlookup fmempty f)"
    using copy_files_fresh [of fs fmempty src] assms enumerates_set [OF assms]
    by (auto simp: enumerates_def fmlookup_dom'_iff)
  have "fmlookup new f = fmlookup src f" for f
    using new(2) enumerates_set [OF assms] fmlookup_dom'_iff [of f src] by (cases "fmlookup src f") auto
  then have "new = src" by (simp add: fmap_ext)
  with new(1) show ?thesis by simp
qed

lemma fs_copy_fresh:
  assumes "iterates it" "fmlookup (trees d) src = Some t" "fmlookup (trees d) dst = None"
  shows "fs_copy it src dst d = (d\<lparr>trees := fmupd dst t (trees d)\<rparr>, None)"
  using assms copy_files_all [of "files_of it t" t] by (simp add: fs_copy_def iterates_def)

lemma remove_each_trees:
  "fmlookup (trees (fst (remove_each bs d))) p = (if p \<in> set bs then None else fmlookup (trees d) p)
   \<and> backups_exist (fst (remove_each bs d)) = backups_exist d"
  by (induction bs arbitrary: d) (simp_all add: remove_all_def case_prod_beta)

subsection \<open>The newest backups stay\<close>

text \<open>In a strictly sorted list the last \<open>k\<close> elements are those with fewer than \<open>k\<close> greater ones.\<close>

lemma strict_sorted_above:
  fixes xs :: "'a :: linorder list"
  assumes "sorted_wrt (<) xs" "i < length xs"
  shows "{q \<in> set xs. xs ! i < q} = set (drop (Suc i) xs)"
proof -
  have "xs ! i < q" if "q \<in> set (drop (Suc i) xs)" for q
    using that assms by (auto simp: in_set_conv_nth sorted_wrt_nth_less)
  moreover have "q \<in> set (drop (Suc i) xs)" if q: "q \<in> set xs" "xs ! i < q" for q
  proof -
    obtain j where j: "j < length xs" "q = xs ! j" using q(1) by (auto simp: in_set_conv_nth)
    have "i < j"
    proof (rule ccontr)
      assume "\<not> i < j"
      then consider "j = i" | "j < i" by linarith
      then show False
        using q(2) j sorted_wrt_nth_less [OF assms(1) _ assms(2), of j] by cases auto
    qed
    then have "drop (Suc i) xs ! (j - Suc i) = q" "j - Suc i < length (drop (Suc i) xs)" using j by auto
    then show ?thesis by (metis nth_mem)
  qed
  ultimately show ?thesis by (auto dest: in_set_dropD)
qed

lemma last_of_sorted:
  fixes xs :: "'a :: linorder list"
  assumes "sorted_wrt (<) xs"
  shows "p \<in> set (drop (length xs - k) xs) \<longleftrightarrow> p \<in> set xs \<and> card {q \<in> set xs. p < q} < k"
proof (cases "p \<in> set xs")
  case True
  then obtain i where i: "i < length xs" "p = xs ! i" by (auto simp: in_set_conv_nth)
  have d: "distinct xs" using assms by (simp add: strict_sorted_iff)
  have "card {q \<in> set xs. p < q} = length xs - Suc i"
    using strict_sorted_above [OF assms i(1)] d by (simp add: i(2) distinct_card)
  moreover have "p \<in> set (drop (length xs - k) xs) \<longleftrightarrow> length xs - k \<le> i"
  proof
    assume "p \<in> set (drop (length xs - k) xs)"
    then obtain j where "j < k \<and> j < length xs \<or> j < length xs" "p = xs ! (length xs - k + j)" "length xs - k + j < length xs"
      by (auto simp: in_set_conv_nth)
    with i d show "length xs - k \<le> i" by (simp add: nth_eq_iff_index_eq)
  next
    assume "length xs - k \<le> i"
    then have "drop (length xs - k) xs ! (i - (length xs - k)) = p" "i - (length xs - k) < length (drop (length xs - k) xs)"
      using i by auto
    then show "p \<in> set (drop (length xs - k) xs)" by (metis nth_mem)
  qed
  ultimately show ?thesis using True i(1) by auto
qed (auto dest: in_set_dropD)

lemma last_of_sort:
  fixes xs :: "'a :: linorder list"
  assumes "distinct xs"
  shows "p \<in> set (take (length xs - k) (sort xs)) \<longleftrightarrow> p \<in> set xs \<and> k \<le> card {q \<in> set xs. p < q}"
proof -
  have s: "sorted_wrt (<) (sort xs)" using assms by (simp add: strict_sorted_iff)
  have "distinct (take (length xs - k) (sort xs) @ drop (length xs - k) (sort xs))" using assms by simp
  then have "set (take (length xs - k) (sort xs)) \<inter> set (drop (length xs - k) (sort xs)) = {}"
    by (simp only: distinct_append)
  moreover have "set (take (length xs - k) (sort xs)) \<union> set (drop (length xs - k) (sort xs)) = set xs"
    by (metis append_take_drop_id set_append set_sort)
  ultimately show ?thesis
    using last_of_sorted [OF s, of p k] by auto
qed

lemma CleanupOldBackups_trees:
  assumes "iterates it" "backups_exist d"
  shows "fmlookup (trees (fst (CleanupOldBackups it m d))) p =
    (if p \<in> entries_of (trees d) \<and> unat (maxBackups m) \<le> card {q \<in> entries_of (trees d). p < q} then None
     else fmlookup (trees d) p)"
proof -
  let ?bs = "listing it (trees d)" and ?k = "unat (maxBackups m)"
  have bs: "distinct ?bs" "set ?bs = entries_of (trees d)" using assms(1) by (simp_all add: iterates_def)
  show ?thesis
  proof (cases "length ?bs \<le> ?k")
    case True
    have "\<not> ?k \<le> card {q \<in> set ?bs. p < q}" if "p \<in> set ?bs"
    proof -
      have "card {q \<in> set ?bs. p < q} < card (set ?bs)"
        using that by (intro psubset_card_mono) auto
      then show ?thesis using True bs(1) by (simp add: distinct_card)
    qed
    then show ?thesis
      using True assms(2) by (auto simp: CleanupOldBackups_def ListBackups_def bs(2))
  next
    case False
    then show ?thesis
      using assms(2) last_of_sort [OF bs(1), of p ?k]
      by (simp add: CleanupOldBackups_def ListBackups_def Let_def remove_each_trees bs(2))
  qed
qed

lemma entries_of_upd: "in_backups p \<Longrightarrow> entries_of (fmupd p t ts) = insert p (entries_of ts)"
  by (auto simp: entries_of_def)

lemma CleanupOldBackups_backups_exist: "backups_exist (fst (CleanupOldBackups it m d)) = backups_exist d"
  by (simp add: CleanupOldBackups_def Let_def remove_each_trees)

text \<open>What a backup with a fresh name leaves on the disk.\<close>

lemma backup_try_disk:
  assumes "iterates it" "fmlookup (trees d) (worldPath m) = Some t"
    and "dest = backupPath m @ GenerateBackupName stamp" "fmlookup (trees d) dest = None"
  shows "\<exists>out. backup_try it stamp m cb d c =
    (fst (CleanupOldBackups it m (d\<lparr>backups_exist := True, trees := fmupd dest t (trees d)\<rparr>)),
     fst (call_backup cb True dest c), out @ [log_Info (''Backup created: '' @ dest)], snd (call_backup cb True dest c))"
  using assms
  by (simp add: backup_try_def fs_copy_fresh [where t = t] Let_def case_prod_beta)

text \<open>
  C27. A backup under a fresh name succeeds and keeps the newest: afterwards an entry of the backup
  directory is there exactly when it was there before or is the new copy, and fewer than the
  maximum have greater names (time stamps order by name); the new copy is the world's tree,
  the other kept entries, the world and everything outside the backup directory are unchanged,
  and the callback has been told of the new path, once.
\<close>

theorem backup_keeps_newest:
  assumes "iterates it" "backupPath m = ''backups/''" "\<not> in_backups (worldPath m)"
    and "fmlookup (trees d) (worldPath m) = Some t"
    and "dest = ''backups/'' @ GenerateBackupName stamp" "fmlookup (trees d) dest = None"
    and "\<forall>f path c. cb = Some f \<longrightarrow> snd (f True path c) = None"
  shows "\<exists>d' out. BackupNow it stamp m cb d c = (d', fst (call_backup cb True dest c), out, None) \<and>
    (\<forall>p. fmlookup (trees d') p =
       (if p \<in> insert dest (entries_of (trees d))
          \<and> unat (maxBackups m) \<le> card {q \<in> insert dest (entries_of (trees d)). p < q} then None
        else if p = dest then Some t else fmlookup (trees d) p))"
proof -
  let ?d1 = "d\<lparr>backups_exist := True, trees := fmupd dest t (trees d)\<rparr>"
  have dest: "dest = backupPath m @ GenerateBackupName stamp" using assms by simp
  have "in_backups dest" using assms(5) by (simp add: in_backups_def)
  then have entries: "entries_of (trees ?d1) = insert dest (entries_of (trees d))"
    by (simp add: entries_of_upd)
  obtain out where body: "backup_try it stamp m cb d c = (fst (CleanupOldBackups it m ?d1),
      fst (call_backup cb True dest c), out @ [log_Info (''Backup created: '' @ dest)], snd (call_backup cb True dest c))"
    by (rule exE [OF backup_try_disk [OF assms(1,4) dest assms(6), of cb c]])
  have "snd (call_backup cb True dest c) = None"
    using assms(7) by (cases cb) (auto simp: call_backup_def)
  with body have run: "BackupNow it stamp m cb d c = (fst (CleanupOldBackups it m ?d1),
      fst (call_backup cb True dest c), out @ [log_Info (''Backup created: '' @ dest)], None)"
    by (simp add: BackupNow_def)
  have disk: "fmlookup (trees (fst (CleanupOldBackups it m ?d1))) p =
      (if p \<in> insert dest (entries_of (trees d))
         \<and> unat (maxBackups m) \<le> card {q \<in> insert dest (entries_of (trees d)). p < q} then None
       else if p = dest then Some t else fmlookup (trees d) p)" for p
    using CleanupOldBackups_trees [OF assms(1), of ?d1 m p] unfolding entries by simp
  show ?thesis
    by (intro exI conjI allI) (rule run, rule disk)
qed

definition sorted_iteration :: Iteration where
  "sorted_iteration = \<lparr>files_of = (\<lambda>t. sorted_list_of_fset (fmdom t)),
     listing = (\<lambda>ts. filter in_backups (sorted_list_of_fset (fmdom ts)))\<rparr>"

lemma sorted_iteration_iterates: "iterates sorted_iteration"
  by (auto simp: iterates_def sorted_iteration_def enumerates_def entries_of_def fset_of_list.rep_eq
      sorted_list_of_fset.rep_eq fset_inject [symmetric] fmdom'_alt_def [symmetric] fmlookup_dom'_iff)

definition sample_disk :: Disk where
  "sample_disk = \<lparr>backups_exist = True, trees = fmupd ''world'' (fmupd ''level.dat'' ''2'' fmempty)
     (fmupd ''backups/backup_1'' (fmupd ''level.dat'' ''1'' fmempty) fmempty)\<rparr>"

definition sample_manager :: BackupManager where
  "sample_manager = SetMaxBackups 1 (SetWorldPath ''world'' default_BackupManager)"

theorem backup_keeps_newest_witness:
  "\<exists>d' out. BackupNow sorted_iteration ''2'' sample_manager (Some (\<lambda>ok path n. (Suc n, None))) sample_disk 0 = (d', Suc 0, out, None)
     \<and> fmlookup (trees d') ''backups/backup_1'' = None
     \<and> fmlookup (trees d') ''backups/backup_2'' = fmlookup (trees sample_disk) ''world''"
proof -
  let ?dest = "''backups/'' @ GenerateBackupName ''2''"
  have e: "entries_of (trees sample_disk) = {''backups/backup_1''}"
    by (auto simp: entries_of_def sample_disk_def in_backups_def split: if_splits)
  have dest: "?dest = ''backups/backup_2''" by (simp add: GenerateBackupName_def)
  have less: "''backups/backup_1'' < ''backups/backup_2''" by code_simp
  then have sets: "{q \<in> {''backups/backup_2'', ''backups/backup_1''}. ''backups/backup_1'' < q} = {''backups/backup_2''}"
    "{q \<in> {''backups/backup_2'', ''backups/backup_1''}. ''backups/backup_2'' < q} = {}"
    by auto
  have k: "unat (maxBackups sample_manager) = 1" by code_simp
  note rule = backup_keeps_newest [where it = sorted_iteration and m = sample_manager and d = sample_disk
      and t = "fmupd ''level.dat'' ''2'' fmempty" and dest = ?dest and stamp = "''2''" and c = "0::nat"
      and cb = "Some (\<lambda>ok path n. (Suc n, None))"]
  have "\<exists>d' out. BackupNow sorted_iteration ''2'' sample_manager (Some (\<lambda>ok path n. (Suc n, None))) sample_disk 0 =
      (d', fst (call_backup (Some (\<lambda>ok path n. (Suc n, None))) True ?dest 0), out, None) \<and>
    (\<forall>p. fmlookup (trees d') p =
       (if p \<in> insert ?dest (entries_of (trees sample_disk))
          \<and> unat (maxBackups sample_manager) \<le> card {q \<in> insert ?dest (entries_of (trees sample_disk)). p < q} then None
        else if p = ?dest then Some (fmupd ''level.dat'' ''2'' fmempty) else fmlookup (trees sample_disk) p))"
    by (rule rule [OF sorted_iteration_iterates])
      (simp_all add: sample_manager_def SetMaxBackups_def SetWorldPath_def default_BackupManager_def in_backups_def
        sample_disk_def GenerateBackupName_def)
  then obtain d' out where "BackupNow sorted_iteration ''2'' sample_manager (Some (\<lambda>ok path n. (Suc n, None))) sample_disk 0 =
      (d', Suc 0, out, None)"
    and d': "\<And>p. fmlookup (trees d') p =
       (if p \<in> insert ''backups/backup_2'' {''backups/backup_1''}
          \<and> 1 \<le> card {q \<in> insert ''backups/backup_2'' {''backups/backup_1''}. p < q} then None
        else if p = ''backups/backup_2'' then Some (fmupd ''level.dat'' ''2'' fmempty) else fmlookup (trees sample_disk) p)"
    unfolding e dest k by (auto simp: call_backup_def)
  moreover have "fmlookup (trees d') ''backups/backup_1'' = None"
    using d' [of "''backups/backup_1''", unfolded sets] by simp
  moreover have "fmlookup (trees d') ''backups/backup_2'' = fmlookup (trees sample_disk) ''world''"
    using d' [of "''backups/backup_2''", unfolded sets] by (simp add: sample_disk_def)
  ultimately show ?thesis by blast
qed

text \<open>
  Restoring puts the backup's tree in the place of the world and touches nothing else; when the
  backup does not exist (or is the world itself), the world is gone: it is removed before the
  copy is tried, and the only trace is an error line.
\<close>

theorem restore_replaces_world:
  assumes "iterates it"
  shows "RestoreBackup it path m d =
    (case (if path = worldPath m then None else fmlookup (trees d) path) of
       Some t \<Rightarrow> (d\<lparr>trees := fmupd (worldPath m) t (trees d)\<rparr>, [log_Info (''Backup restored: '' @ path)])
     | None \<Rightarrow> (d\<lparr>trees := fmdrop (worldPath m) (trees d)\<rparr>,
         [log_Error (''Restore failed: filesystem error: cannot copy: No such file or directory'')]))"
proof (cases "if path = worldPath m then None else fmlookup (trees d) path")
  case None
  then have "fmlookup (trees (remove_all (worldPath m) d)) path = None"
    by (auto simp: remove_all_def split: if_splits)
  then show ?thesis
    unfolding None by (simp add: RestoreBackup_def fs_copy_def copy_error_def exn_text_def) (simp add: remove_all_def)
next
  case (Some t)
  then have "fmlookup (trees (remove_all (worldPath m) d)) path = Some t"
    by (auto simp: remove_all_def split: if_splits)
  moreover have "fmlookup (trees (remove_all (worldPath m) d)) (worldPath m) = None"
    by (simp add: remove_all_def)
  ultimately have "RestoreBackup it path m d = ((remove_all (worldPath m) d)\<lparr>trees := fmupd (worldPath m) t (trees (remove_all (worldPath m) d))\<rparr>,
      [log_Info (''Backup restored: '' @ path)])"
    by (simp add: RestoreBackup_def fs_copy_fresh [OF assms])
  moreover have "fmupd (worldPath m) t (fmdrop (worldPath m) (trees d)) = fmupd (worldPath m) t (trees d)"
    by (rule fmap_ext) simp
  ultimately show ?thesis
    unfolding Some by (simp add: remove_all_def)
qed

lemma manager_path: "worldPath sample_manager = ''world''"
  by (simp add: sample_manager_def SetMaxBackups_def SetWorldPath_def default_BackupManager_def)

theorem restore_replaces_world_witness:
  "RestoreBackup sorted_iteration ''backups/typo'' sample_manager sample_disk =
     (sample_disk\<lparr>trees := fmdrop ''world'' (trees sample_disk)\<rparr>,
      [log_Error (''Restore failed: filesystem error: cannot copy: No such file or directory'')])"
  using restore_replaces_world [OF sorted_iteration_iterates, of "''backups/typo''" sample_manager sample_disk]
  unfolding manager_path by (simp add: sample_disk_def)

text \<open>The loop never gives a callback, so it never throws; without turns after a stop it does nothing.\<close>

lemma BackupLoop_stopped: "\<not> before t \<Longrightarrow> BackupLoop it m (t # ts) d = (d, [])"
  by simp

lemma BackupNow_without_callback: "snd (snd (snd (BackupNow it stamp m None d c))) = None"
  by (auto simp: BackupNow_def call_backup_def split: prod.split option.split)

text \<open>A maximum of zero deletes the new copy too, and the callback is still told of success.\<close>

lemma zero_backups_kept:
  assumes "iterates it" "backups_exist d" "maxBackups m = 0"
  shows "entries_of (trees (fst (CleanupOldBackups it m d))) = {}"
  using CleanupOldBackups_trees [OF assms(1,2), of m] assms(3) by (auto simp: entries_of_def)

end
