(* ===== verification/MCX_Bridges.thy ===== *)
theory MCX_Bridges
  imports MCX_Net MCX_Strings
begin

text \<open>
  The bridges to a game server: the TCP client of \<^verbatim>\<open>integration/network_bridge.cpp\<close>, the
  listener of \<^verbatim>\<open>integration/paper_bridge.cpp\<close> and the placeholder of
  \<^verbatim>\<open>integration/minecraft_bridge_dummy.cpp\<close>.
\<close>

subsection \<open>The network bridge\<close>

record 'c NetworkBridge =
  nb_port :: "16 word"
  nb_running :: bool
  nb_connected :: bool
  nb_callback :: "(string \<Rightarrow> 'c effect) option"
  sendQueue :: "string list"

definition NetworkBridge_new :: "16 word \<Rightarrow> 'c NetworkBridge" where
  "NetworkBridge_new port = \<lparr>nb_port = port, nb_running = False, nb_connected = False, nb_callback = None, sendQueue = []\<rparr>"

definition nb_Start :: "'c NetworkBridge \<Rightarrow> 'c NetworkBridge" where
  "nb_Start b = b\<lparr>nb_running := True\<rparr>"

definition nb_Disconnect :: "'c NetworkBridge \<Rightarrow> 'c NetworkBridge" where
  "nb_Disconnect b = b\<lparr>nb_connected := False\<rparr>"

text \<open>\<^verbatim>\<open>Stop\<close> clears the flags and waits for the thread, which ends at its next test.\<close>

definition nb_Stop :: "'c NetworkBridge \<Rightarrow> 'c NetworkBridge" where
  "nb_Stop b = nb_Disconnect (b\<lparr>nb_running := False\<rparr>)"

definition nb_IsConnected :: "'c NetworkBridge \<Rightarrow> bool" where
  "nb_IsConnected b = nb_connected b"

definition nb_Send :: "string \<Rightarrow> 'c NetworkBridge \<Rightarrow> 'c NetworkBridge" where
  "nb_Send packet b = b\<lparr>sendQueue := sendQueue b @ [packet]\<rparr>"

definition OnReceive :: "(string \<Rightarrow> 'c effect) option \<Rightarrow> 'c NetworkBridge \<Rightarrow> 'c NetworkBridge" where
  "OnReceive cb b = b\<lparr>nb_callback := cb\<rparr>"

definition nb_Connect :: "'n Net \<Rightarrow> 'c NetworkBridge \<Rightarrow> 'n \<Rightarrow> 'c NetworkBridge \<times> 'n \<times> bool" where
  "nb_Connect net b s = (let (s, sock) = net_socket net s in
     if sock < 0 then (b, s, False)
     else let (s, ok) = net_connect net sock ''127.0.0.1'' (unat (nb_port b)) s in
       if \<not> ok then (b, net_close net sock s, False)
       else (b\<lparr>nb_connected := True\<rparr>, s, True))"

text \<open>One turn of the loop of the IO thread; it pops the queue without looking at the packets.\<close>

definition drain :: "'c NetworkBridge \<Rightarrow> 'c NetworkBridge" where
  "drain b = b\<lparr>sendQueue := []\<rparr>"

definition IoLoop_turn :: "'n Net \<Rightarrow> 'c NetworkBridge \<Rightarrow> 'n \<Rightarrow> 'c NetworkBridge \<times> 'n" where
  "IoLoop_turn net b s =
     (if \<not> nb_running b then (b, s)
      else if nb_connected b then (drain b, s)
      else let (b, s, ok) = nb_Connect net b s in if ok then (drain b, s) else (b, s))"

text \<open>The client and the IO thread interleave: any sequence of calls and turns.\<close>

datatype 'c bridge_op = Op_Start | Op_Stop | Op_Send string | Op_OnReceive "(string \<Rightarrow> 'c effect) option" | Op_Turn

fun bridge_exec :: "'n Net \<Rightarrow> 'c bridge_op \<Rightarrow> 'c NetworkBridge \<times> 'n \<Rightarrow> 'c NetworkBridge \<times> 'n" where
  "bridge_exec net Op_Start (b, s) = (nb_Start b, s)"
| "bridge_exec net Op_Stop (b, s) = (nb_Stop b, s)"
| "bridge_exec net (Op_Send p) (b, s) = (nb_Send p b, s)"
| "bridge_exec net (Op_OnReceive cb) (b, s) = (OnReceive cb b, s)"
| "bridge_exec net Op_Turn (b, s) = IoLoop_turn net b s"

text \<open>
  What the network can observe: the bridge without its queue and its callback. It evolves on
  its own, so a call of \<^verbatim>\<open>Send\<close> or \<^verbatim>\<open>OnReceive\<close> is invisible.
\<close>

definition observable :: "'c NetworkBridge \<times> 'n \<Rightarrow> 'c NetworkBridge \<times> 'n" where
  "observable bs = ((fst bs)\<lparr>nb_callback := None, sendQueue := []\<rparr>, snd bs)"

fun mute :: "'c bridge_op \<Rightarrow> bool" where
  "mute (Op_Send p) = True"
| "mute (Op_OnReceive cb) = True"
| "mute _ = False"

definition silent_exec :: "'n Net \<Rightarrow> 'c bridge_op \<Rightarrow> 'c NetworkBridge \<times> 'n \<Rightarrow> 'c NetworkBridge \<times> 'n" where
  "silent_exec net op bs = (if mute op then bs else observable (bridge_exec net op bs))"

lemma observable_idem: "observable (observable bs) = observable bs"
  by (simp add: observable_def)

lemma turn_observable: "observable (IoLoop_turn net b s) = observable (IoLoop_turn net (b\<lparr>nb_callback := None, sendQueue := []\<rparr>) s)"
  by (cases b) (simp add: observable_def IoLoop_turn_def nb_Connect_def drain_def split: prod.split)

interpretation bridge: simulation "bridge_exec net :: 'c bridge_op \<Rightarrow> _" observable "silent_exec net" for net :: "'n Net"
proof
  fix op :: "'c bridge_op" and bs :: "'c NetworkBridge \<times> 'n"
  obtain b s where bs: "bs = (b, s)" by fastforce
  show "observable (bridge_exec net op bs) = silent_exec net op (observable bs)"
    using turn_observable [of net b s]
    by (cases op; cases b) (simp_all add: bs silent_exec_def observable_def nb_Start_def nb_Stop_def nb_Disconnect_def
        nb_Send_def OnReceive_def)
qed

lemma silent_exec_filter: "fold (silent_exec net) ops bs = fold (silent_exec net) (filter (\<lambda>op. \<not> mute op) ops) bs"
  by (induction ops arbitrary: bs) (auto simp: silent_exec_def)

text \<open>
  The network bridge transmits nothing: for every network and every interleaving of calls and
  turns, the network ends in the state it would have ended in had no packet been sent and no
  callback been registered; and a turn of a connected bridge leaves the queue empty.
\<close>

theorem network_bridge_transmits_nothing:
  "snd (fold (bridge_exec net) ops (b, s)) = snd (fold (bridge_exec net) (filter (\<lambda>op. \<not> mute op) ops) (b, s))
   \<and> sendQueue (fst (IoLoop_turn net (b\<lparr>nb_running := True, nb_connected := True\<rparr>) s)) = []"
proof -
  have "observable (fold (bridge_exec net) ops (b, s)) =
      observable (fold (bridge_exec net) (filter (\<lambda>op. \<not> mute op) ops) (b, s))"
    by (simp add: bridge.abs_run silent_exec_filter [of net ops])
  from arg_cong [OF this, of snd] show ?thesis
    by (simp add: observable_def IoLoop_turn_def drain_def)
qed

subsection \<open>The Paper bridge\<close>

record 'c PaperBridge =
  pb_port :: "16 word"
  pb_running :: bool
  eventCallback :: "(string \<Rightarrow> 'c effect) option"

definition PaperBridge_new :: "16 word \<Rightarrow> 'c PaperBridge" where
  "PaperBridge_new port = \<lparr>pb_port = port, pb_running = False, eventCallback = None\<rparr>"

definition pb_Start :: "'c PaperBridge \<Rightarrow> 'c PaperBridge \<times> console list" where
  "pb_Start b = (b\<lparr>pb_running := True\<rparr>, [log_Info (''PaperBridge listening on port '' @ show_nat (unat (pb_port b)))])"

definition pb_Stop :: "'c PaperBridge \<Rightarrow> 'c PaperBridge" where
  "pb_Stop b = b\<lparr>pb_running := False\<rparr>"

definition OnEvent :: "(string \<Rightarrow> 'c effect) option \<Rightarrow> 'c PaperBridge \<Rightarrow> 'c PaperBridge" where
  "OnEvent cb b = b\<lparr>eventCallback := cb\<rparr>"

definition SendAction :: "string \<Rightarrow> console list" where
  "SendAction jsonAction = [log_Info (''PaperBridge send: '' @ jsonAction)]"

text \<open>The string of a C array: the bytes before the first zero, which must be inside the array.\<close>

definition buffer_text :: "byte list \<Rightarrow> string result" where
  "buffer_text buffer = (if 0 \<in> set buffer then Inr (map char_of_byte (takeWhile (\<lambda>x. x \<noteq> 0) buffer)) else Inl Undefined)"

text \<open>The buffer of 1024 zeroed bytes after one \<^verbatim>\<open>recv\<close>, which may fail.\<close>

definition paper_buffer :: "byte list option \<Rightarrow> byte list" where
  "paper_buffer received = (let bs = (case received of None \<Rightarrow> [] | Some bs \<Rightarrow> take 1024 bs)
     in bs @ replicate (1024 - length bs) 0)"

text \<open>
  One turn of the accept loop: nothing within the time out, a failed \<^verbatim>\<open>accept\<close>, or a client
  with what its first \<^verbatim>\<open>recv\<close> has to give. The end of the list is the stop.
\<close>

datatype paper_turn = No_client | Accept_failed | Client "byte list option"

definition call_event :: "(string \<Rightarrow> 'c effect) option \<Rightarrow> byte list \<Rightarrow> 'c \<Rightarrow> ('c \<times> exn option) result" where
  "call_event cb buffer c = (case cb of
     None \<Rightarrow> Inr (c, None)
   | Some f \<Rightarrow> rbind (buffer_text buffer) (\<lambda>event. Inr (f event c)))"

fun paper_loop :: "(string \<Rightarrow> 'c effect) option \<Rightarrow> paper_turn list \<Rightarrow> 'c \<Rightarrow> ('c \<times> exn option) result" where
  "paper_loop cb [] c = Inr (c, None)"
| "paper_loop cb (No_client # ts) c = paper_loop cb ts c"
| "paper_loop cb (Accept_failed # ts) c = paper_loop cb ts c"
| "paper_loop cb (Client received # ts) c =
     rbind (call_event cb (paper_buffer received) c) (\<lambda>(c, e).
       case e of None \<Rightarrow> paper_loop cb ts c | Some x \<Rightarrow> Inr (c, Some x))"

definition Listen :: "'n Net \<Rightarrow> 'c PaperBridge \<Rightarrow> paper_turn list \<Rightarrow> 'n \<Rightarrow> 'c
    \<Rightarrow> 'n \<times> console list \<times> ('c \<times> exn option) result" where
  "Listen net b turns s c = (let (s, serverFd) = net_socket net s in
     if serverFd < 0 then (s, [log_Error ''Failed to create socket''], Inr (c, None))
     else let (s, ok) = net_bind net serverFd (unat (pb_port b)) s in
       if \<not> ok then (net_close net serverFd s, [log_Error ''Bind failed''], Inr (c, None))
       else let (s, ok) = net_listen net serverFd s in
         if \<not> ok then (net_close net serverFd s, [log_Error ''Listen failed''], Inr (c, None))
         else let r = paper_loop (eventCallback b) (if pb_running b then turns else []) c in
           (case r of
              Inr (c, None) \<Rightarrow> (net_close net serverFd s, [], Inr (c, None))
            | _ \<Rightarrow> (s, [], r)))"

text \<open>What a client's bytes stand for, when they are short enough to be followed by a zero.\<close>

definition event_text :: "byte list option \<Rightarrow> string" where
  "event_text received = (case received of None \<Rightarrow> [] | Some bs \<Rightarrow> map char_of_byte (takeWhile (\<lambda>x. x \<noteq> 0) bs))"

fun events_of :: "paper_turn list \<Rightarrow> string list" where
  "events_of [] = []"
| "events_of (Client received # ts) = event_text received # events_of ts"
| "events_of (_ # ts) = events_of ts"

fun short_client :: "paper_turn \<Rightarrow> bool" where
  "short_client (Client (Some bs)) = (length bs < 1024)"
| "short_client _ = True"

lemma takeWhile_padded: "takeWhile (\<lambda>x. x \<noteq> 0) (bs @ replicate n 0) = takeWhile (\<lambda>x. x \<noteq> (0 :: byte)) bs"
  by (induction bs) (auto simp: takeWhile_eq_Nil_iff)

lemma buffer_text_short:
  assumes "short_client (Client received)"
  shows "buffer_text (paper_buffer received) = Inr (event_text received)"
proof (cases received)
  case None
  then show ?thesis
    using takeWhile_padded [of "[]" 1024] by (simp add: buffer_text_def paper_buffer_def event_text_def)
next
  case (Some bs)
  then have "length bs < 1024" using assms by simp
  then show ?thesis
    by (simp add: Some buffer_text_def paper_buffer_def event_text_def takeWhile_padded)
qed

text \<open>
  The Paper bridge hands every client's text to the callback, in the order of the connections
  and up to the first exception, as long as no client sends 1024 bytes at once.
\<close>

theorem paper_bridge_events:
  assumes "list_all short_client ts"
  shows "paper_loop (Some f) ts c = Inr (run_effects (map f (events_of ts)) c)"
  using assms
  by (induction "Some f" ts c rule: paper_loop.induct)
    (auto simp: call_event_def buffer_text_short split: prod.split option.split)

theorem paper_bridge_events_witness:
  "paper_loop (Some (\<lambda>event log. (log @ [event], None))) [Client (Some [0x68, 0x69]), No_client, Client (Some [0x61, 0, 0x62])] [] =
     Inr ([''hi'', ''a''], None)"
proof -
  have "map char_of_byte [0x68, 0x69] = ''hi''" "map char_of_byte [0x61] = ''a''" by code_simp+
  then show ?thesis
    using paper_bridge_events [of "[Client (Some [0x68, 0x69]), No_client, Client (Some [0x61, 0, 0x62])]"
        "\<lambda>event log. (log @ [event], None)" "[]"]
    by (simp add: event_text_def)
qed

text \<open>1024 bytes without a zero are read past the end of the buffer.\<close>

lemma paper_bridge_overread:
  "1024 \<le> length bs \<Longrightarrow> 0 \<notin> set (take 1024 bs) \<Longrightarrow> paper_loop (Some f) (Client (Some bs) # ts) c = Inl Undefined"
  by (simp add: call_event_def buffer_text_def paper_buffer_def)

subsection \<open>The placeholder\<close>

definition DummyMinecraftBridge_Start :: "'w \<Rightarrow> 'w \<times> console list" where
  "DummyMinecraftBridge_Start srv = (srv, [Stdout (''[MCX] DummyMinecraftBridge.Start() called'' @ nl)])"

end
