(* ===== verification/MCX_BridgeThreads.thy ===== *)
theory MCX_BridgeThreads
  imports MCX_Bridges MCX_Stopping
begin

text \<open>
  The threads of the bridges beside \<open>Stop\<close>: the IO thread of \<^verbatim>\<open>integration/network_bridge.cpp\<close> and
  the listener of \<^verbatim>\<open>integration/paper_bridge.cpp\<close>. The steps of a thread and of \<open>Stop\<close> interleave;
  those that need a client of the listener are a relation of their own.
\<close>

subsection \<open>The IO thread of the network bridge\<close>

text \<open>Before the test of the loop, of the connection, of the connect, of its flag, of the queue, asleep.\<close>

datatype io_phase = N_test | N_check | N_attempt | N_store | N_drain | N_sleep | N_ended

record ('c, 'n) IoThread =
  io_bridge :: "'c NetworkBridge"
  io_phase :: io_phase
  io_stopping :: stopping
  io_net :: 'n

text \<open>The calls of \<^verbatim>\<open>Connect\<close> on the network, before it sets the flag.\<close>

definition nb_attempt :: "'n Net \<Rightarrow> 'c NetworkBridge \<Rightarrow> 'n \<Rightarrow> 'n \<times> bool" where
  "nb_attempt net b s = (let (s, sock) = net_socket net s in
     if sock < 0 then (s, False)
     else let (s, ok) = net_connect net sock ''127.0.0.1'' (unat (nb_port b)) s in
       if \<not> ok then (net_close net sock s, False) else (s, True))"

lemma nb_Connect_attempt:
  "nb_Connect net b s = (let (s, ok) = nb_attempt net b s in (if ok then b\<lparr>nb_connected := True\<rparr> else b, s, ok))"
  by (simp add: nb_Connect_def nb_attempt_def Let_def split: prod.split)

inductive io_step :: "'n Net \<Rightarrow> ('c, 'n) IoThread \<Rightarrow> ('c, 'n) IoThread \<Rightarrow> bool" for net :: "'n Net" where
  test: "io_phase x = N_test \<Longrightarrow> io_step net x (x\<lparr>io_phase := (if nb_running (io_bridge x) then N_check else N_ended)\<rparr>)"
| check: "io_phase x = N_check \<Longrightarrow> io_step net x (x\<lparr>io_phase := (if nb_connected (io_bridge x) then N_drain else N_attempt)\<rparr>)"
| attempt: "io_phase x = N_attempt \<Longrightarrow> nb_attempt net (io_bridge x) (io_net x) = (s, ok)
    \<Longrightarrow> io_step net x (x\<lparr>io_phase := (if ok then N_store else N_sleep), io_net := s\<rparr>)"
| store: "io_phase x = N_store \<Longrightarrow> io_step net x (x\<lparr>io_bridge := (io_bridge x)\<lparr>nb_connected := True\<rparr>, io_phase := N_drain\<rparr>)"
| drain: "io_phase x = N_drain \<Longrightarrow> io_step net x (x\<lparr>io_bridge := drain (io_bridge x), io_phase := N_sleep\<rparr>)"
| wake: "io_phase x = N_sleep \<Longrightarrow> io_step net x (x\<lparr>io_phase := N_test\<rparr>)"

text \<open>The calls of the client: \<open>Send\<close> and \<open>OnReceive\<close> at any time, \<open>Start\<close> again after a \<open>Stop\<close>.\<close>

inductive io_client :: "('c, 'n) IoThread \<Rightarrow> ('c, 'n) IoThread \<Rightarrow> bool" where
  send: "io_client x (x\<lparr>io_bridge := nb_Send p (io_bridge x)\<rparr>)"
| receive: "io_client x (x\<lparr>io_bridge := OnReceive cb (io_bridge x)\<rparr>)"
| start: "io_stopping x = Stopped
    \<Longrightarrow> io_client x (x\<lparr>io_bridge := nb_Start (io_bridge x), io_phase := N_test, io_stopping := Not_stopped\<rparr>)"

text \<open>\<open>Stop\<close> clears the flag, disconnects and joins.\<close>

inductive io_stop :: "('c, 'n) IoThread \<Rightarrow> ('c, 'n) IoThread \<Rightarrow> bool" where
  clear: "io_stopping x = Not_stopped
    \<Longrightarrow> io_stop x (x\<lparr>io_bridge := (io_bridge x)\<lparr>nb_running := False\<rparr>, io_stopping := Flag_cleared\<rparr>)"
| disconnect: "io_stopping x = Flag_cleared \<Longrightarrow> io_stop x (x\<lparr>io_bridge := nb_Disconnect (io_bridge x), io_stopping := Joining\<rparr>)"
| join: "io_stopping x = Joining \<Longrightarrow> io_phase x = N_ended \<Longrightarrow> io_stop x (x\<lparr>io_stopping := Stopped\<rparr>)"

inductive_cases io_stepE: "io_step net x y"
inductive_cases io_clientE: "io_client x y"
inductive_cases io_stopE: "io_stop x y"

definition io_run_step :: "'n Net \<Rightarrow> ('c, 'n) IoThread \<Rightarrow> ('c, 'n) IoThread \<Rightarrow> bool" where
  "io_run_step net x y \<longleftrightarrow> io_step net x y \<or> io_client x y"

definition network_step :: "'n Net \<Rightarrow> ('c, 'n) IoThread \<Rightarrow> ('c, 'n) IoThread \<Rightarrow> bool" where
  "network_step net x y \<longleftrightarrow> io_run_step net x y \<or> io_stop x y"

text \<open>The thread that \<open>Start\<close> creates.\<close>

definition io_thread :: "'c NetworkBridge \<Rightarrow> 'n \<Rightarrow> ('c, 'n) IoThread" where
  "io_thread b s = \<lparr>io_bridge = nb_Start b, io_phase = N_test, io_stopping = Not_stopped, io_net = s\<rparr>"

subsection \<open>The thread implements the turns\<close>

text \<open>From the test of its flag, undisturbed, the thread comes back to it having done a turn, or ends.\<close>

theorem io_thread_implements_turn:
  assumes "io_phase x = N_test" "IoLoop_turn net (io_bridge x) (io_net x) = (b, s)"
  shows "(io_step net)\<^sup>*\<^sup>* x (x\<lparr>io_bridge := b, io_net := s, io_phase := (if nb_running (io_bridge x) then N_test else N_ended)\<rparr>)"
proof (cases "nb_running (io_bridge x)")
  case False
  then show ?thesis using assms io_step.test [of x net] by (auto simp: IoLoop_turn_def)
next
  case running: True
  obtain b0 st s0 where x: "x = \<lparr>io_bridge = b0, io_phase = N_test, io_stopping = st, io_net = s0\<rparr>"
    using assms(1) by (cases x) auto
  let ?at = "\<lambda>p b s. \<lparr>io_bridge = b, io_phase = p, io_stopping = st, io_net = s\<rparr>"
  have start: "(io_step net)\<^sup>*\<^sup>* x (?at (if nb_connected b0 then N_drain else N_attempt) b0 s0)"
    using io_step.test [of x net] io_step.check [of "?at N_check b0 s0" net] running
    by (auto simp: x intro: two_steps [of "io_step net"])
  have sleep: "(io_step net)\<^sup>*\<^sup>* (?at N_sleep b' s') (?at N_test b' s')" for b' s'
    using io_step.wake [of "?at N_sleep b' s'" net] by auto
  have work: "(io_step net)\<^sup>*\<^sup>* (?at N_drain b' s') (?at N_test (drain b') s')" for b' s'
    using io_step.drain [of "?at N_drain b' s'" net] sleep [of "drain b'" s'] by (auto intro: converse_rtranclp_into_rtranclp)
  show ?thesis
  proof (cases "nb_connected b0")
    case True
    then show ?thesis using rtranclp_trans [OF start] work [of b0 s0] assms(2) running by (auto simp: x IoLoop_turn_def)
  next
    case False
    obtain s' ok where a: "nb_attempt net b0 s0 = (s', ok)" by fastforce
    have try': "io_step net (?at N_attempt b0 s0) (?at (if ok then N_store else N_sleep) b0 s')"
      using io_step.attempt [of "?at N_attempt b0 s0" net s' ok] a by simp
    have st: "io_step net (?at N_store b0 s') (?at N_drain (b0\<lparr>nb_connected := True\<rparr>) s')"
      using io_step.store [of "?at N_store b0 s'" net] by simp
    have "(io_step net)\<^sup>*\<^sup>* (?at N_attempt b0 s0) (?at N_test b s)"
      using try' st assms(2) running False a sleep [of b0 s'] work [of "b0\<lparr>nb_connected := True\<rparr>" s']
      by (cases ok) (auto simp: x IoLoop_turn_def nb_Connect_attempt intro: converse_rtranclp_into_rtranclp)
    with rtranclp_trans [OF start] False running show ?thesis by (simp add: x)
  qed
qed

theorem io_thread_implements_turn_witness:
  "(io_step loopback)\<^sup>*\<^sup>* (io_thread (nb_Send ''hi'' (NetworkBridge_new 7)) (wire []))
     (io_thread ((NetworkBridge_new 7)\<lparr>nb_connected := True\<rparr>) (wire []))"
proof -
  let ?b = "nb_Send ''hi'' (NetworkBridge_new 7)"
  have t: "IoLoop_turn loopback (io_bridge (io_thread ?b (wire []))) (io_net (io_thread ?b (wire []))) =
      (nb_Start ((NetworkBridge_new 7)\<lparr>nb_connected := True\<rparr>), wire [])"
    by (simp add: io_thread_def IoLoop_turn_def nb_Connect_def loopback_def drain_def nb_Start_def nb_Send_def NetworkBridge_new_def)
  have "io_phase (io_thread ?b (wire [])) = N_test" by (simp add: io_thread_def)
  from io_thread_implements_turn [OF this t] show ?thesis by (simp add: io_thread_def nb_Start_def)
qed

subsection \<open>Stopping the network bridge\<close>

text \<open>The phases the thread still goes through when its flag is cleared.\<close>

fun io_steps_left :: "io_phase \<Rightarrow> nat" where
  "io_steps_left N_check = 6"
| "io_steps_left N_attempt = 5"
| "io_steps_left N_store = 4"
| "io_steps_left N_drain = 3"
| "io_steps_left N_sleep = 2"
| "io_steps_left N_test = 1"
| "io_steps_left N_ended = 0"

lemma io_steps_left_bound: "io_steps_left p \<le> 6"
  by (cases p) simp_all

interpretation io_end: ending "io_step net" "\<lambda>x. \<not> nb_running (io_bridge x)" "\<lambda>x. io_steps_left (io_phase x)" for net :: "'n Net"
  by unfold_locales (auto simp: drain_def elim!: io_stepE)

lemma io_thread_progress: "{y. io_step net x y} = {} \<Longrightarrow> io_phase x = N_ended"
proof (cases "io_phase x")
  case N_attempt
  moreover obtain s ok where "nb_attempt net (io_bridge x) (io_net x) = (s, ok)" by fastforce
  ultimately show "{y. io_step net x y} = {} \<Longrightarrow> io_phase x = N_ended" using io_step.attempt [of x net s ok] by auto
qed (auto dest: io_step.intros)

text \<open>
  \<open>Stop\<close> of the network bridge returns as far as the thread is concerned: after the flag is cleared the
  thread takes at most six steps more, and from wherever it is it comes to its end.
\<close>

theorem network_stop_returns:
  assumes "\<not> nb_running (io_bridge x)" "(io_step net ^^ n) x y"
  shows "n \<le> 6 \<and> (\<exists>z. (io_step net)\<^sup>*\<^sup>* y z \<and> io_phase z = N_ended)"
proof -
  from io_end.run_bound [OF assms(2,1)] have y: "\<not> nb_running (io_bridge y)" "n \<le> io_steps_left (io_phase x)" by auto
  from io_end.reaches_end [OF y(1)] io_thread_progress y(2) io_steps_left_bound [of "io_phase x"] show ?thesis
    by (meson le_trans)
qed

text \<open>A stopped thread in the middle of a connect still sets the flag.\<close>

theorem network_stop_returns_witness:
  "\<exists>x y :: (nat, Wire) IoThread. io_phase x = N_store \<and> \<not> nb_running (io_bridge x) \<and> (io_step loopback ^^ 1) x y
     \<and> (\<exists>z. (io_step loopback)\<^sup>*\<^sup>* y z \<and> io_phase z = N_ended)"
proof -
  let ?x = "\<lparr>io_bridge = NetworkBridge_new 7, io_phase = N_store, io_stopping = Joining, io_net = wire []\<rparr> :: (nat, Wire) IoThread"
  have off: "\<not> nb_running (io_bridge ?x)" by (simp add: NetworkBridge_new_def)
  have one: "(io_step loopback ^^ 1) ?x (?x\<lparr>io_bridge := (io_bridge ?x)\<lparr>nb_connected := True\<rparr>, io_phase := N_drain\<rparr>)"
    using io_step.store [of ?x loopback] by (auto simp: relpowp_1)
  from network_stop_returns [OF off one] one off show ?thesis
    by (intro exI [of _ ?x] exI [of _ "?x\<lparr>io_bridge := (io_bridge ?x)\<lparr>nb_connected := True\<rparr>, io_phase := N_drain\<rparr>"]) simp
qed

subsection \<open>A stop in the middle of a connect\<close>

text \<open>A bridge whose flag says connected never touches the network.\<close>

definition deaf :: "'n \<Rightarrow> ('c, 'n) IoThread \<Rightarrow> bool" where
  "deaf s x \<longleftrightarrow> nb_connected (io_bridge x) \<and> io_phase x \<notin> {N_attempt, N_store} \<and> io_net x = s"

lemma deaf_step: "io_run_step net x y \<Longrightarrow> deaf s x \<Longrightarrow> deaf s y"
  by (auto simp: io_run_step_def deaf_def drain_def nb_Send_def OnReceive_def nb_Start_def split: if_splits elim!: io_stepE io_clientE)

lemma deaf_steps: "(io_run_step net)\<^sup>*\<^sup>* x y \<Longrightarrow> deaf s x \<Longrightarrow> deaf s y"
  by (induction rule: rtranclp_induct) (auto intro: deaf_step)

text \<open>
  C23. \<open>Stop\<close> clears the flag of the connection before it has joined, and a thread that is in \<^verbatim>\<open>Connect\<close> sets it
  again: the stopped bridge says that it is connected, and started again it never connects, whatever
  is sent, until it is stopped once more.
\<close>

theorem network_stop_in_connect:
  fixes b :: "'c NetworkBridge"
  assumes "nb_attempt net (nb_Start b) s = (s', True)" "\<not> nb_connected b"
  shows "\<exists>t. (network_step net)\<^sup>*\<^sup>* (io_thread b s) t \<and> io_stopping t = Stopped \<and> nb_IsConnected (io_bridge t)
    \<and> {y. (io_run_step net)\<^sup>*\<^sup>* t y \<and> io_net y \<noteq> s'} = {}"
proof -
  let ?b = "nb_Start b"
  let ?c = "?b\<lparr>nb_running := False\<rparr>"
  let ?at = "\<lambda>b p st s. \<lparr>io_bridge = b, io_phase = p, io_stopping = st, io_net = s\<rparr> :: ('c, 'a) IoThread"
  let ?d = "drain ((nb_Disconnect ?c)\<lparr>nb_connected := True\<rparr>)"
  have on: "nb_running ?b" "\<not> nb_connected ?b" using assms(2) by (simp_all add: nb_Start_def)
  let ?e = "(nb_Disconnect ?c)\<lparr>nb_connected := True\<rparr>"
  let ?step = "network_step net"
  note d = network_step_def io_run_step_def
  have "?step (io_thread b s) (?at ?b N_check Not_stopped s)"
    using io_step.test [of "io_thread b s" net] on by (simp add: d io_thread_def)
  moreover have "?step (?at ?b N_check Not_stopped s) (?at ?b N_attempt Not_stopped s)"
    using io_step.check [of "?at ?b N_check Not_stopped s" net] on by (simp add: d)
  moreover have "?step (?at ?b N_attempt Not_stopped s) (?at ?b N_store Not_stopped s')"
    using io_step.attempt [of "?at ?b N_attempt Not_stopped s" net s' True] assms(1) by (simp add: d)
  ultimately have 1: "?step\<^sup>*\<^sup>* (io_thread b s) (?at ?b N_store Not_stopped s')" by (rule three_steps)
  have "?step (?at ?b N_store Not_stopped s') (?at ?c N_store Flag_cleared s')"
    using io_stop.clear [of "?at ?b N_store Not_stopped s'"] by (simp add: d)
  moreover have "?step (?at ?c N_store Flag_cleared s') (?at (nb_Disconnect ?c) N_store Joining s')"
    using io_stop.disconnect [of "?at ?c N_store Flag_cleared s'"] by (simp add: d)
  moreover have "?step (?at (nb_Disconnect ?c) N_store Joining s') (?at ?e N_drain Joining s')"
    using io_step.store [of "?at (nb_Disconnect ?c) N_store Joining s'" net] by (simp add: d)
  ultimately have 2: "?step\<^sup>*\<^sup>* (?at ?b N_store Not_stopped s') (?at ?e N_drain Joining s')" by (rule three_steps)
  have "?step (?at ?e N_drain Joining s') (?at ?d N_sleep Joining s')"
    using io_step.drain [of "?at ?e N_drain Joining s'" net] by (simp add: d)
  moreover have "?step (?at ?d N_sleep Joining s') (?at ?d N_test Joining s')"
    using io_step.wake [of "?at ?d N_sleep Joining s'" net] by (simp add: d)
  moreover have "?step (?at ?d N_test Joining s') (?at ?d N_ended Joining s')"
    using io_step.test [of "?at ?d N_test Joining s'" net] by (simp add: d drain_def nb_Disconnect_def)
  ultimately have 3: "?step\<^sup>*\<^sup>* (?at ?e N_drain Joining s') (?at ?d N_ended Joining s')" by (rule three_steps)
  have "?step (?at ?d N_ended Joining s') (?at ?d N_ended Stopped s')"
    using io_stop.join [of "?at ?d N_ended Joining s'"] by (simp add: d)
  with rtranclp_trans [OF rtranclp_trans [OF 1 2] 3]
  have "?step\<^sup>*\<^sup>* (io_thread b s) (?at ?d N_ended Stopped s')" by (rule rtranclp.rtrancl_into_rtrancl)
  moreover have "deaf s' (?at ?d N_ended Stopped s')" by (simp add: deaf_def drain_def)
  ultimately show ?thesis using deaf_steps
    by (intro exI [of _ "?at ?d N_ended Stopped s'"]) (force simp: nb_IsConnected_def deaf_def)
qed

theorem network_stop_in_connect_witness:
  "\<exists>t :: (nat, Wire) IoThread. (network_step loopback)\<^sup>*\<^sup>* (io_thread (NetworkBridge_new 7) (wire [])) t \<and> io_stopping t = Stopped
     \<and> nb_IsConnected (io_bridge t)"
proof -
  have "nb_attempt loopback (nb_Start (NetworkBridge_new 7 :: nat NetworkBridge)) (wire []) = (wire [], True)"
    by (simp add: nb_attempt_def loopback_def)
  from network_stop_in_connect [OF this] show ?thesis by (auto simp: NetworkBridge_new_def)
qed

subsection \<open>The listener of the Paper bridge\<close>

datatype listener_phase = L_test | L_select | L_reading | L_ended | L_terminated | L_undefined

text \<open>The thread once its socket listens. Two ghost fields count the clients that were read and keep what they sent.\<close>

record 'c Listener =
  lbridge :: "'c PaperBridge"
  lphase :: listener_phase
  lstopping :: stopping
  lstate :: 'c
  lread :: nat
  lreceived :: "byte list option list"

text \<open>What the loop does after \<^verbatim>\<open>recv\<close>; an exception of the callback ends the process.\<close>

definition read_client :: "byte list option \<Rightarrow> 'c Listener \<Rightarrow> 'c Listener" where
  "read_client received x = (let x = x\<lparr>lread := lread x + 1, lreceived := lreceived x @ [received]\<rparr> in
     case call_event (eventCallback (lbridge x)) (paper_buffer received) (lstate x) of
       Inl _ \<Rightarrow> x\<lparr>lphase := L_undefined\<rparr>
     | Inr (c, ex) \<Rightarrow> x\<lparr>lphase := (if ex = None then L_test else L_terminated), lstate := c\<rparr>)"

text \<open>Without a client: the test of the flag, the time-out of \<^verbatim>\<open>select\<close>, and \<open>Stop\<close>, which clears the flag and joins.\<close>

inductive listener_alone :: "'c Listener \<Rightarrow> 'c Listener \<Rightarrow> bool" where
  test: "lphase x = L_test \<Longrightarrow> listener_alone x (x\<lparr>lphase := (if pb_running (lbridge x) then L_select else L_ended)\<rparr>)"
| timeout: "lphase x = L_select \<Longrightarrow> listener_alone x (x\<lparr>lphase := L_test\<rparr>)"
| clear: "lstopping x = Not_stopped \<Longrightarrow> listener_alone x (x\<lparr>lbridge := pb_Stop (lbridge x), lstopping := Joining\<rparr>)"
| join: "lstopping x = Joining \<Longrightarrow> lphase x = L_ended \<Longrightarrow> listener_alone x (x\<lparr>lstopping := Stopped\<rparr>)"

inductive listener_client :: "'c Listener \<Rightarrow> 'c Listener \<Rightarrow> bool" where
  failed: "lphase x = L_select \<Longrightarrow> listener_client x (x\<lparr>lphase := L_test\<rparr>)"
| accepted: "lphase x = L_select \<Longrightarrow> listener_client x (x\<lparr>lphase := L_reading\<rparr>)"
| received: "lphase x = L_reading \<Longrightarrow> listener_client x (read_client r x)"

definition listener_step :: "'c Listener \<Rightarrow> 'c Listener \<Rightarrow> bool" where
  "listener_step x y \<longleftrightarrow> listener_alone x y \<or> listener_client x y"

inductive_cases listener_aloneE: "listener_alone x y"
inductive_cases listener_clientE: "listener_client x y"

definition listener :: "'c PaperBridge \<Rightarrow> 'c \<Rightarrow> 'c Listener" where
  "listener b c = \<lparr>lbridge = fst (pb_Start b), lphase = L_test, lstopping = Not_stopped, lstate = c, lread = 0, lreceived = []\<rparr>"

subsection \<open>What the callback gets\<close>

lemma read_client_fixed [simp]:
  "lbridge (read_client r x) = lbridge x" "lstopping (read_client r x) = lstopping x" "lread (read_client r x) = lread x + 1"
  "lreceived (read_client r x) = lreceived x @ [r]"
  by (simp_all add: read_client_def Let_def split: sum.split prod.split)

lemma read_client_phase: "lphase (read_client r x) = L_test \<or> lphase (read_client r x) = L_terminated \<or> lphase (read_client r x) = L_undefined"
  by (simp add: read_client_def Let_def split: sum.split prod.split)

text \<open>A client that fills the buffer without a zero; without one the text is that of the first bytes.\<close>

definition overfull :: "byte list option \<Rightarrow> bool" where
  "overfull r \<longleftrightarrow> (case r of None \<Rightarrow> False | Some bs \<Rightarrow> 1024 \<le> length bs \<and> 0 \<notin> set (take 1024 bs))"

lemma takeWhile_take: "0 \<in> set (take n bs) \<Longrightarrow> takeWhile (\<lambda>x. x \<noteq> 0) (take n bs) = takeWhile (\<lambda>x. x \<noteq> (0 :: byte)) bs"
proof (induction n arbitrary: bs)
  case (Suc n)
  then show ?case by (cases bs) auto
qed simp

lemma buffer_text_received: "buffer_text (paper_buffer r) = (if overfull r then Inl Undefined else Inr (event_text r))"
proof (cases r)
  case None
  then show ?thesis using buffer_text_short [of None] by (simp add: overfull_def)
next
  case (Some bs)
  consider "length bs < 1024" | "1024 \<le> length bs" "0 \<in> set (take 1024 bs)" | "1024 \<le> length bs" "0 \<notin> set (take 1024 bs)" by linarith
  then show ?thesis
  proof cases
    case 1
    then show ?thesis using buffer_text_short [of r] by (simp add: Some overfull_def)
  next
    case 2
    then show ?thesis by (simp add: Some overfull_def buffer_text_def paper_buffer_def event_text_def takeWhile_take)
  next
    case 3
    then show ?thesis by (simp add: Some overfull_def buffer_text_def paper_buffer_def)
  qed
qed

text \<open>The callback over what was received, where there is one.\<close>

definition event_calls :: "'c PaperBridge \<Rightarrow> byte list option list \<Rightarrow> 'c effect list" where
  "event_calls b rs = (case eventCallback b of None \<Rightarrow> [] | Some f \<Rightarrow> map (\<lambda>r. f (event_text r)) rs)"

definition overread :: "'c PaperBridge \<Rightarrow> byte list option \<Rightarrow> bool" where
  "overread b r \<longleftrightarrow> eventCallback b \<noteq> None \<and> overfull r"

definition listener_inv :: "'c PaperBridge \<Rightarrow> 'c \<Rightarrow> 'c Listener \<Rightarrow> bool" where
  "listener_inv b c x \<longleftrightarrow> eventCallback (lbridge x) = eventCallback b \<and> lread x = length (lreceived x)
     \<and> (if lphase x = L_undefined then \<exists>rs r. lreceived x = rs @ [r] \<and> overread b r \<and> (\<forall>r \<in> set rs. \<not> overread b r)
          \<and> run_effects (event_calls b rs) c = (lstate x, None)
        else (\<forall>r \<in> set (lreceived x). \<not> overread b r)
          \<and> (\<exists>ex. run_effects (event_calls b (lreceived x)) c = (lstate x, ex) \<and> (ex \<noteq> None \<longleftrightarrow> lphase x = L_terminated)))
     \<and> (lstopping x = Not_stopped \<longleftrightarrow> pb_running (lbridge x)) \<and> (lphase x = L_ended \<longrightarrow> \<not> pb_running (lbridge x))
     \<and> (lstopping x = Stopped \<longrightarrow> lphase x = L_ended)"

lemma event_calls_append: "event_calls b (rs @ [r]) = event_calls b rs @ event_calls b [r]"
  by (simp add: event_calls_def split: option.split)

lemma read_client_inv:
  assumes "lphase x = L_reading" "listener_inv b c x"
  shows "listener_inv b c (read_client r x)"
proof -
  have x: "eventCallback (lbridge x) = eventCallback b" "lread x = length (lreceived x)" "\<forall>r \<in> set (lreceived x). \<not> overread b r"
    "run_effects (event_calls b (lreceived x)) c = (lstate x, None)" "lstopping x = Not_stopped \<longleftrightarrow> pb_running (lbridge x)" "lstopping x \<noteq> Stopped"
    using assms by (auto simp: listener_inv_def)
  show ?thesis
  proof (cases "overread b r")
    case True
    then have "lphase (read_client r x) = L_undefined" "lstate (read_client r x) = lstate x"
      using x(1) by (auto simp: read_client_def Let_def call_event_def overread_def buffer_text_received)
    with True x show ?thesis by (simp add: listener_inv_def)
  next
    case False
    obtain c' ex where e: "run_effects (event_calls b [r]) (lstate x) = (c', ex)" by fastforce
    then have "lphase (read_client r x) = (if ex = None then L_test else L_terminated)" "lstate (read_client r x) = c'"
      using x(1) False
      by (auto simp: read_client_def Let_def call_event_def overread_def buffer_text_received event_calls_def
          split: option.splits prod.splits)
    moreover have "run_effects (event_calls b (lreceived x @ [r])) c = (c', ex)"
      unfolding event_calls_append using x(4) e by (simp add: run_effects_append)
    ultimately show ?thesis using False x by (simp add: listener_inv_def)
  qed
qed

lemma listener_step_inv: "listener_step x y \<Longrightarrow> listener_inv b c x \<Longrightarrow> listener_inv b c y"
  unfolding listener_step_def
proof (elim disjE)
  assume "listener_alone x y" "listener_inv b c x"
  then show ?thesis by (induction rule: listener_alone.induct) (auto simp: listener_inv_def pb_Stop_def)
next
  assume "listener_client x y" "listener_inv b c x"
  then show ?thesis
  proof (induction rule: listener_client.induct)
    case (received x r)
    then show ?case by (rule read_client_inv)
  qed (auto simp: listener_inv_def)
qed

lemma listener_reachable_inv: "listener_step\<^sup>*\<^sup>* (listener b c) x \<Longrightarrow> listener_inv b c x"
proof (induction rule: rtranclp_induct)
  case base
  then show ?case by (simp add: listener_inv_def listener_def pb_Start_def event_calls_def split: option.split)
qed (rule listener_step_inv)

lemma listener_over:
  "listener_step\<^sup>*\<^sup>* x y \<Longrightarrow> lphase x \<in> {L_ended, L_terminated, L_undefined} \<Longrightarrow>
     lphase y = lphase x \<and> lreceived y = lreceived x \<and> lstate y = lstate x"
proof (induction rule: rtranclp_induct)
  case (step y z)
  from step(2) have "lphase z = lphase y \<and> lreceived z = lreceived y \<and> lstate z = lstate y"
    if "lphase y \<in> {L_ended, L_terminated, L_undefined}"
    using that by (auto simp: listener_step_def elim!: listener_aloneE listener_clientE)
  with step(3,4) show ?case by simp
qed simp

text \<open>
  C24. What the callback gets from the listener, in every run, whatever the clients send and whenever the bridge
  is stopped: it has been called once for each client that was read, in order, with its bytes up to the first zero, and its
  state is what these calls make of it, up to the first that throws, which ends the process. The buffer
  is overread exactly when a client fills it without a zero (and there is a callback). A \<open>Stop\<close> that has returned has ended the
  thread, and once the thread has ended nothing more reaches the callback.
\<close>

theorem listener_calls_back_once_each:
  assumes "listener_step\<^sup>*\<^sup>* (listener b c) x"
  shows "(if lphase x = L_undefined then \<exists>rs r. lreceived x = rs @ [r] \<and> overread b r \<and> (\<forall>r \<in> set rs. \<not> overread b r)
          \<and> run_effects (event_calls b rs) c = (lstate x, None)
        else (\<forall>r \<in> set (lreceived x). \<not> overread b r)
          \<and> (\<exists>ex. run_effects (event_calls b (lreceived x)) c = (lstate x, ex) \<and> (ex \<noteq> None \<longleftrightarrow> lphase x = L_terminated)))
     \<and> lread x = length (lreceived x) \<and> (lstopping x = Stopped \<longrightarrow> lphase x = L_ended)
     \<and> (lphase x \<in> {L_ended, L_terminated, L_undefined} \<longrightarrow>
          (\<forall>y \<in> {y. listener_step\<^sup>*\<^sup>* x y}. lreceived y = lreceived x \<and> lstate y = lstate x))"
proof -
  have inv: "listener_inv b c x" by (rule listener_reachable_inv [OF assms])
  have over: "lphase x \<in> {L_ended, L_terminated, L_undefined} \<longrightarrow>
      (\<forall>y \<in> {y. listener_step\<^sup>*\<^sup>* x y}. lreceived y = lreceived x \<and> lstate y = lstate x)"
  proof (intro impI ballI)
    fix y assume "lphase x \<in> {L_ended, L_terminated, L_undefined}" "y \<in> {y. listener_step\<^sup>*\<^sup>* x y}"
    then show "lreceived y = lreceived x \<and> lstate y = lstate x" using listener_over [of x y] by simp
  qed
  show ?thesis
    using inv unfolding listener_inv_def by (elim conjE) (intro conjI over; assumption)
qed

text \<open>Two clients, of which the second makes the callback throw.\<close>

definition fragile_bridge :: "nat PaperBridge" where
  "fragile_bridge = OnEvent (Some (\<lambda>e n. if e = ''hi'' then (n + 1, None) else (n, Some (Std_exception ''bad'')))) (PaperBridge_new 7)"

subsection \<open>The listener implements the loop\<close>

text \<open>How the thread ends up for a result of the loop.\<close>

definition listener_result :: "listener_phase \<Rightarrow> ('c \<times> exn option) result \<Rightarrow> 'c Listener \<Rightarrow> bool" where
  "listener_result fine r x \<longleftrightarrow> (case r of
     Inl _ \<Rightarrow> lphase x = L_undefined
   | Inr (c, ex) \<Rightarrow> lstate x = c \<and> lphase x = (if ex = None then fine else L_terminated))"

lemma listener_to_select:
  assumes "lphase x = L_test" "pb_running (lbridge x)"
  shows "listener_step x (x\<lparr>lphase := L_select\<rparr>)"
  using listener_alone.test [OF assms(1)] assms(2) by (simp add: listener_step_def)

lemma listener_reads:
  assumes "lphase x = L_test" "pb_running (lbridge x)"
  shows "listener_step\<^sup>*\<^sup>* x (read_client r (x\<lparr>lphase := L_reading\<rparr>))"
proof (rule three_steps)
  show "listener_step (x\<lparr>lphase := L_select\<rparr>) (x\<lparr>lphase := L_reading\<rparr>)"
    using listener_client.accepted [of "x\<lparr>lphase := L_select\<rparr>"] by (simp add: listener_step_def)
  show "listener_step (x\<lparr>lphase := L_reading\<rparr>) (read_client r (x\<lparr>lphase := L_reading\<rparr>))"
    using listener_client.received [of "x\<lparr>lphase := L_reading\<rparr>" r] by (simp add: listener_step_def)
qed (rule listener_to_select [OF assms])

lemma listener_stops:
  assumes "lphase x = L_test" "lstopping x = Not_stopped"
  shows "listener_step\<^sup>*\<^sup>* x (x\<lparr>lbridge := pb_Stop (lbridge x), lstopping := Stopped, lphase := L_ended\<rparr>)"
proof (rule three_steps)
  let ?c = "x\<lparr>lbridge := pb_Stop (lbridge x), lstopping := Joining\<rparr>"
  show "listener_step x ?c" using listener_alone.clear [OF assms(2)] by (simp add: listener_step_def)
  show "listener_step ?c (?c\<lparr>lphase := L_ended\<rparr>)"
    using listener_alone.test [of ?c] assms(1) by (simp add: listener_step_def pb_Stop_def)
  show "listener_step (?c\<lparr>lphase := L_ended\<rparr>) (x\<lparr>lbridge := pb_Stop (lbridge x), lstopping := Stopped, lphase := L_ended\<rparr>)"
    using listener_alone.join [of "?c\<lparr>lphase := L_ended\<rparr>"] by (cases x) (simp add: listener_step_def)
qed

lemma listener_runs_turns:
  "lphase x = L_test \<Longrightarrow> pb_running (lbridge x) \<Longrightarrow>
   \<exists>y. listener_step\<^sup>*\<^sup>* x y \<and> lbridge y = lbridge x \<and> lstopping y = lstopping x
     \<and> listener_result L_test (paper_loop (eventCallback (lbridge x)) ts (lstate x)) y"
proof (induction ts arbitrary: x)
  case Nil
  then show ?case by (intro exI [of _ x]) (simp add: listener_result_def)
next
  case (Cons t ts)
  show ?case
  proof (cases t)
    case (Client r)
    let ?y = "read_client r (x\<lparr>lphase := L_reading\<rparr>)"
    note steps = listener_reads [OF Cons.prems, of r]
    show ?thesis
    proof (cases "lphase ?y = L_test")
      case True
      with Cons.IH [of ?y] Cons.prems(2) obtain y where y: "listener_step\<^sup>*\<^sup>* ?y y" "lbridge y = lbridge x" "lstopping y = lstopping x"
        "listener_result L_test (paper_loop (eventCallback (lbridge x)) ts (lstate ?y)) y" by auto
      moreover have "paper_loop (eventCallback (lbridge x)) (t # ts) (lstate x) = paper_loop (eventCallback (lbridge x)) ts (lstate ?y)"
        using True by (auto simp: Client read_client_def Let_def split: sum.splits prod.splits if_splits)
      ultimately show ?thesis using rtranclp_trans [OF steps y(1)] by auto
    next
      case False
      then have "listener_result L_test (paper_loop (eventCallback (lbridge x)) (t # ts) (lstate x)) ?y"
        by (auto simp: Client read_client_def Let_def listener_result_def split: sum.splits prod.splits if_splits)
      with steps show ?thesis by (intro exI [of _ ?y]) simp
    qed
  qed (use Cons in auto)
qed

text \<open>
  Conversely a started listener can get step by step to what its loop computes for any turns, and \<open>Stop\<close>
  can then return, unless the process has ended.
\<close>

lemma listener_implements_loop:
  "\<exists>y. listener_step\<^sup>*\<^sup>* (listener b c) y \<and> listener_result L_ended (paper_loop (eventCallback b) ts c) y
     \<and> lstopping y = (if lphase y = L_ended then Stopped else Not_stopped)"
proof -
  let ?r = "paper_loop (eventCallback b) ts c"
  obtain y where y: "listener_step\<^sup>*\<^sup>* (listener b c) y" "lstopping y = Not_stopped" "listener_result L_test ?r y"
    using listener_runs_turns [of "listener b c" ts] by (auto simp: listener_def pb_Start_def)
  show ?thesis
  proof (cases "lphase y = L_test")
    case True
    let ?z = "y\<lparr>lbridge := pb_Stop (lbridge y), lstopping := Stopped, lphase := L_ended\<rparr>"
    have "listener_result L_ended ?r ?z" using y(3) True
      by (auto simp: listener_result_def split: sum.splits if_splits)
    then show ?thesis using rtranclp_trans [OF y(1) listener_stops [OF True y(2)]] by (intro exI [of _ ?z]) simp
  next
    case False
    then have "listener_result L_ended ?r y" "lphase y \<noteq> L_ended" using y(3)
      by (auto simp: listener_result_def split: sum.splits if_splits)
    then show ?thesis using y by auto
  qed
qed

theorem listener_calls_back_once_each_witness:
  "\<exists>x. listener_step\<^sup>*\<^sup>* (listener fragile_bridge 0) x \<and> lphase x = L_terminated \<and> lstate x = 1
     \<and> (\<exists>ex. run_effects (event_calls fragile_bridge (lreceived x)) 0 = (1, Some ex))
     \<and> (\<forall>y \<in> {y. listener_step\<^sup>*\<^sup>* x y}. lreceived y = lreceived x \<and> lstate y = lstate x)"
proof -
  have hi: "event_text (Some [0x68, 0x69]) = ''hi''" "event_text (Some [0x78]) = ''x''" by code_simp+
  have b: "buffer_text (paper_buffer (Some [0x68, 0x69])) = Inr ''hi''" "buffer_text (paper_buffer (Some [0x78])) = Inr ''x''"
    using hi by (simp_all add: buffer_text_received overfull_def)
  have loop: "paper_loop (eventCallback fragile_bridge) [Client (Some [0x68, 0x69]), Client (Some [0x78])] 0 = Inr (1, Some (Std_exception ''bad''))"
    by (simp add: fragile_bridge_def OnEvent_def call_event_def b)
  from listener_implements_loop [of fragile_bridge 0 "[Client (Some [0x68, 0x69]), Client (Some [0x78])]"] obtain x
    where x: "listener_step\<^sup>*\<^sup>* (listener fragile_bridge 0) x" "lphase x = L_terminated" "lstate x = 1"
    unfolding loop by (auto simp: listener_result_def)
  note c = listener_calls_back_once_each [OF x(1)]
  have "\<exists>ex. run_effects (event_calls fragile_bridge (lreceived x)) 0 = (1, ex) \<and> ex \<noteq> None"
    using c [THEN conjunct1] x(2,3) by auto
  moreover have "\<forall>y \<in> {y. listener_step\<^sup>*\<^sup>* x y}. lreceived y = lreceived x \<and> lstate y = lstate x"
    using c [THEN conjunct2, THEN conjunct2, THEN conjunct2] x(2) by blast
  ultimately show ?thesis using x by blast
qed

subsection \<open>Stopping the Paper bridge\<close>

text \<open>While it waits in \<^verbatim>\<open>select\<close> or in \<^verbatim>\<open>recv\<close> the thread may still read one client.\<close>

definition may_read_client :: "listener_phase \<Rightarrow> nat" where
  "may_read_client p = (if p = L_select \<or> p = L_reading then 1 else 0)"

lemma may_read_client_simps [simp]:
  "may_read_client L_select = 1" "may_read_client L_reading = 1" "may_read_client L_test = 0" "may_read_client L_ended = 0"
  by (simp_all add: may_read_client_def)

lemma may_read_client_after [simp]: "may_read_client (lphase (read_client r x)) = 0"
  using read_client_phase [of r x] by (auto simp: may_read_client_def)

interpretation listener_end: winding_down listener_step "\<lambda>x. \<not> pb_running (lbridge x)" lread "\<lambda>x. may_read_client (lphase x)"
  by unfold_locales (auto simp: listener_step_def pb_Stop_def elim!: listener_aloneE listener_clientE)

text \<open>
  \<open>Stop\<close> of the Paper bridge waits for a client that was accepted and sends nothing: then neither the
  thread nor \<open>Stop\<close> has a step of its own; at most one event more reaches the callback.
\<close>

theorem paper_stop_waits_for_client:
  assumes "lstopping x = Joining" "lphase x = L_reading" "\<not> pb_running (lbridge x)" "listener_step\<^sup>*\<^sup>* x y"
  shows "{z. listener_alone x z} = {} \<and> lread y \<le> lread x + 1"
  using listener_end.started_bound [OF assms(4,3)] assms(1,2) by (auto elim: listener_aloneE)

theorem paper_stop_waits_for_client_witness:
  "\<exists>x y :: string list Listener. listener_step\<^sup>*\<^sup>* (listener (OnEvent (Some (\<lambda>e es. (es @ [e], None))) (PaperBridge_new 7)) []) x
     \<and> lstopping x = Joining \<and> {z. listener_alone x z} = {} \<and> listener_step\<^sup>*\<^sup>* x y \<and> lstate y = [[]] \<and> lread y \<le> lread x + 1"
proof -
  let ?a = "listener (OnEvent (Some (\<lambda>e es. (es @ [e], None))) (PaperBridge_new 7)) [] :: string list Listener"
  let ?s = "?a\<lparr>lphase := L_select\<rparr>"
  let ?r = "?a\<lparr>lphase := L_reading\<rparr>"
  let ?x = "?r\<lparr>lbridge := pb_Stop (lbridge ?r), lstopping := Joining\<rparr>"
  let ?y = "read_client None ?x"
  note d = listener_def OnEvent_def PaperBridge_new_def pb_Start_def pb_Stop_def listener_step_def
  have 1: "listener_step ?a ?s" by (rule listener_to_select) (simp_all add: d)
  have 2: "listener_step ?s ?r" using listener_client.accepted [of ?s] by (simp add: d)
  have 3: "listener_step ?r ?x" using listener_alone.clear [of ?r] by (simp add: d)
  have "listener_step ?x ?y" using listener_client.received [of ?x None] by (simp add: d)
  then have y: "listener_step\<^sup>*\<^sup>* ?x ?y" by blast
  have x: "lstopping ?x = Joining" "lphase ?x = L_reading" "\<not> pb_running (lbridge ?x)" by (simp_all add: d)
  have e: "lstate ?y = [[]]"
    by (simp add: d read_client_def Let_def call_event_def paper_buffer_def buffer_text_def takeWhile_eq_Nil_iff)
  from three_steps [of listener_step, OF 1 2 3] paper_stop_waits_for_client [OF x y] x(1) e y show ?thesis by blast
qed

end
