(* ===== verification/MCX_LoopThreads.thy ===== *)
theory MCX_LoopThreads
  imports MCX_Backup MCX_Config MCX_Stopping
begin

text \<open>
  The two periodic threads beside their \<open>Stop\<close>: the automatic backups of
  \<^verbatim>\<open>core/backup_manager.cpp\<close>, which sleep for a whole interval, and the file watcher of
  \<^verbatim>\<open>core/config_watcher.cpp\<close> (the branch for POSIX), which waits in \<^verbatim>\<open>select\<close> for a second at most.
\<close>

subsection \<open>The thread of the automatic backups\<close>

datatype backup_phase = B_test | B_sleeping | B_retest | B_copying | B_ended

text \<open>A ghost field counts the backups that were begun.\<close>

record BackupThread =
  bmanager :: BackupManager
  bphase :: backup_phase
  bstopping :: stopping
  bdisk :: Disk
  bbegun :: nat

text \<open>The thread awake: the two tests of the flag and the copy, at a time \<open>stamp\<close>.\<close>

inductive backup_awake :: "Iteration \<Rightarrow> BackupThread \<Rightarrow> BackupThread \<Rightarrow> bool" for it :: Iteration where
  test: "bphase x = B_test \<Longrightarrow> backup_awake it x (x\<lparr>bphase := (if backup_running (bmanager x) then B_sleeping else B_ended)\<rparr>)"
| again: "bphase x = B_retest \<Longrightarrow> backup_running (bmanager x) \<Longrightarrow> backup_awake it x (x\<lparr>bphase := B_copying, bbegun := bbegun x + 1\<rparr>)"
| skip: "bphase x = B_retest \<Longrightarrow> \<not> backup_running (bmanager x) \<Longrightarrow> backup_awake it x (x\<lparr>bphase := B_test\<rparr>)"
| copying: "bphase x = B_copying
    \<Longrightarrow> backup_awake it x (x\<lparr>bphase := B_test, bdisk := fst (BackupNow it stamp (bmanager x) None (bdisk x) ())\<rparr>)"

inductive backup_stop :: "BackupThread \<Rightarrow> BackupThread \<Rightarrow> bool" where
  clear: "bstopping x = Not_stopped \<Longrightarrow> backup_stop x (x\<lparr>bmanager := StopAutoBackup (bmanager x), bstopping := Joining\<rparr>)"
| join: "bstopping x = Joining \<Longrightarrow> bphase x = B_ended \<Longrightarrow> backup_stop x (x\<lparr>bstopping := Stopped\<rparr>)"

text \<open>The end of the interval.\<close>

inductive backup_elapse :: "BackupThread \<Rightarrow> BackupThread \<Rightarrow> bool" where
  elapse: "bphase x = B_sleeping \<Longrightarrow> backup_elapse x (x\<lparr>bphase := B_retest\<rparr>)"

inductive_cases backup_awakeE: "backup_awake it x y"
inductive_cases backup_stopE: "backup_stop x y"
inductive_cases backup_elapseE: "backup_elapse x y"

definition backup_alone :: "Iteration \<Rightarrow> BackupThread \<Rightarrow> BackupThread \<Rightarrow> bool" where
  "backup_alone it x y \<longleftrightarrow> backup_awake it x y \<or> backup_stop x y"

definition backup_thread_step :: "Iteration \<Rightarrow> BackupThread \<Rightarrow> BackupThread \<Rightarrow> bool" where
  "backup_thread_step it x y \<longleftrightarrow> backup_awake it x y \<or> backup_elapse x y"

definition backup_step :: "Iteration \<Rightarrow> BackupThread \<Rightarrow> BackupThread \<Rightarrow> bool" where
  "backup_step it x y \<longleftrightarrow> backup_thread_step it x y \<or> backup_stop x y"

definition backup_thread :: "BackupManager \<Rightarrow> Disk \<Rightarrow> BackupThread" where
  "backup_thread m d = \<lparr>bmanager = fst (StartAutoBackup m), bphase = B_test, bstopping = Not_stopped, bdisk = d, bbegun = 0\<rparr>"

lemma backup_step_awake: "backup_awake it x y \<Longrightarrow> backup_step it x y"
  and backup_step_elapse: "backup_elapse x y \<Longrightarrow> backup_step it x y"
  and backup_step_stop: "backup_stop x y \<Longrightarrow> backup_step it x y"
  by (simp_all add: backup_step_def backup_thread_step_def)

lemma backup_sleeps:
  assumes "bphase x = B_test" "backup_running (bmanager x)"
  shows "(backup_step it)\<^sup>*\<^sup>* x (x\<lparr>bphase := B_retest\<rparr>)"
proof (rule two_steps)
  show "backup_step it x (x\<lparr>bphase := B_sleeping\<rparr>)"
    using backup_awake.test [OF assms(1), of it] assms(2) by (simp add: backup_step_awake)
  show "backup_step it (x\<lparr>bphase := B_sleeping\<rparr>) (x\<lparr>bphase := B_retest\<rparr>)"
    using backup_elapse.elapse [of "x\<lparr>bphase := B_sleeping\<rparr>"] by (simp add: backup_step_elapse)
qed

lemma backup_turn_steps:
  assumes "bphase x = B_test" "backup_running (bmanager x)"
  shows "(backup_step it)\<^sup>*\<^sup>* x (x\<lparr>bdisk := fst (BackupNow it stamp (bmanager x) None (bdisk x) ()), bbegun := bbegun x + 1\<rparr>)"
proof -
  let ?z = "x\<lparr>bdisk := fst (BackupNow it stamp (bmanager x) None (bdisk x) ()), bbegun := bbegun x + 1\<rparr>"
  let ?r = "x\<lparr>bphase := B_retest\<rparr>"
  let ?c = "?r\<lparr>bphase := B_copying, bbegun := bbegun ?r + 1\<rparr>"
  have "backup_step it ?r ?c" using backup_awake.again [of ?r it] assms(2) by (simp add: backup_step_awake)
  moreover have "?c\<lparr>bphase := B_test, bdisk := fst (BackupNow it stamp (bmanager ?c) None (bdisk ?c) ())\<rparr> = ?z"
    using assms(1) by (cases x) simp
  then have "backup_step it ?c ?z" using backup_awake.copying [of ?c it stamp] by (simp add: backup_step_awake)
  ultimately show ?thesis using two_steps [of "backup_step it"] rtranclp_trans [OF backup_sleeps [OF assms]] by blast
qed

lemma fst_BackupLoop_turn:
  "fst (BackupLoop it m (Turn True True stamp # ts) d) = fst (BackupLoop it m ts (fst (BackupNow it stamp m None d ())))"
  by (simp split: prod.split)

lemma backup_runs_turns:
  "bphase x = B_test \<Longrightarrow> backup_running (bmanager x) \<Longrightarrow>
   (backup_step it)\<^sup>*\<^sup>* x (x\<lparr>bdisk := fst (BackupLoop it (bmanager x) (map (Turn True True) stamps) (bdisk x)), bbegun := bbegun x + length stamps\<rparr>)"
proof (induction stamps arbitrary: x)
  case (Cons stamp stamps)
  let ?y = "x\<lparr>bdisk := fst (BackupNow it stamp (bmanager x) None (bdisk x) ()), bbegun := bbegun x + 1\<rparr>"
  from Cons.IH [of ?y] Cons.prems rtranclp_trans [OF backup_turn_steps [OF Cons.prems, of it stamp]]
  show ?case by (simp add: fst_BackupLoop_turn del: BackupLoop.simps)
qed simp

text \<open>\<open>Stop\<close> while the thread is about to sleep: it sleeps, finds the flag cleared and ends.\<close>

lemma backup_stops:
  assumes "bphase x = B_test" "bstopping x = Not_stopped" "backup_running (bmanager x)"
  shows "(backup_step it)\<^sup>*\<^sup>* x (x\<lparr>bmanager := StopAutoBackup (bmanager x), bphase := B_ended, bstopping := Stopped\<rparr>)"
proof -
  let ?m = "StopAutoBackup (bmanager x)"
  let ?at = "\<lambda>p. x\<lparr>bmanager := ?m, bstopping := Joining, bphase := p\<rparr>"
  let ?r = "x\<lparr>bphase := B_retest\<rparr>"
  have "backup_step it ?r (?at B_retest)"
    using backup_stop.clear [of ?r] assms(2) by (cases x) (simp add: backup_step_stop)
  moreover have "backup_step it (?at B_retest) (?at B_test)"
    using backup_awake.skip [of "?at B_retest" it] by (simp add: backup_step_awake StopAutoBackup_def)
  moreover have "backup_step it (?at B_test) (?at B_ended)"
    using backup_awake.test [of "?at B_test" it] by (simp add: backup_step_awake StopAutoBackup_def)
  ultimately have 1: "(backup_step it)\<^sup>*\<^sup>* ?r (?at B_ended)" by (rule three_steps)
  have "backup_step it (?at B_ended) (x\<lparr>bmanager := ?m, bphase := B_ended, bstopping := Stopped\<rparr>)"
    using backup_stop.join [of "?at B_ended"] by (cases x) (simp add: backup_step_stop)
  with rtranclp_trans [OF backup_sleeps [OF assms(1,3)] 1] show ?thesis by (rule rtranclp.rtrancl_into_rtrancl)
qed

text \<open>
  The thread makes the backups of the loop, one for every interval at the end of which its flag is
  set, and \<open>StopAutoBackup\<close> then returns with the disk as the loop leaves it.
\<close>

theorem backup_thread_implements_loop:
  "\<exists>y. (backup_step it)\<^sup>*\<^sup>* (backup_thread m d) y \<and> bstopping y = Stopped \<and> bbegun y = length stamps
     \<and> bdisk y = fst (BackupLoop it (fst (StartAutoBackup m)) (map (Turn True True) stamps) d)"
proof -
  let ?b = "backup_thread m d"
  let ?x = "?b\<lparr>bdisk := fst (BackupLoop it (bmanager ?b) (map (Turn True True) stamps) (bdisk ?b)), bbegun := bbegun ?b + length stamps\<rparr>"
  have b: "bphase ?b = B_test" "backup_running (bmanager ?b)" by (simp_all add: backup_thread_def StartAutoBackup_def)
  have "(backup_step it)\<^sup>*\<^sup>* ?x (?x\<lparr>bmanager := StopAutoBackup (bmanager ?x), bphase := B_ended, bstopping := Stopped\<rparr>)"
    by (rule backup_stops) (simp_all add: backup_thread_def StartAutoBackup_def)
  from rtranclp_trans [OF backup_runs_turns [OF b] this] show ?thesis
    by (intro exI [of _ "?x\<lparr>bmanager := StopAutoBackup (bmanager ?x), bphase := B_ended, bstopping := Stopped\<rparr>"])
      (simp add: backup_thread_def)
qed

subsection \<open>Stopping the automatic backups\<close>

interpretation backups_wind_down: winding_down "backup_step it" "\<lambda>x. \<not> backup_running (bmanager x)" bbegun "\<lambda>_. 0" for it :: Iteration
  by unfold_locales
    (auto simp: backup_step_def backup_thread_step_def StopAutoBackup_def elim!: backup_awakeE backup_stopE backup_elapseE)

fun backup_steps_left :: "backup_phase \<Rightarrow> nat" where
  "backup_steps_left B_sleeping = 3"
| "backup_steps_left B_retest = 2"
| "backup_steps_left B_copying = 2"
| "backup_steps_left B_test = 1"
| "backup_steps_left B_ended = 0"

lemma backup_steps_left_bound: "backup_steps_left p \<le> 3"
  by (cases p) simp_all

interpretation backups_end: ending "backup_thread_step it" "\<lambda>x. \<not> backup_running (bmanager x)" "\<lambda>x. backup_steps_left (bphase x)" for it :: Iteration
  by unfold_locales (auto simp: backup_thread_step_def elim!: backup_awakeE backup_elapseE)

lemma backup_thread_progress: "{y. backup_thread_step it x y} = {} \<Longrightarrow> bphase x = B_ended"
  by (cases "bphase x") (auto simp: backup_thread_step_def dest: backup_awake.intros backup_elapse.intros)

text \<open>
  \<open>StopAutoBackup\<close> lets no further backup begin and the thread come to its end within three steps;
  but one of them is the rest of the interval, which \<open>StopAutoBackup\<close> spends waiting: before it has
  passed there is no other step.
\<close>

theorem backup_stop_waits_for_interval:
  assumes "bstopping x = Joining" "\<not> backup_running (bmanager x)" "(backup_step it)\<^sup>*\<^sup>* x y" "(backup_thread_step it ^^ n) x z"
  shows "bbegun y \<le> bbegun x \<and> n \<le> 3 \<and> (\<exists>e. (backup_thread_step it)\<^sup>*\<^sup>* z e \<and> bphase e = B_ended)
    \<and> {u. bphase x = B_sleeping \<and> backup_alone it x u} = {}"
proof -
  have "bbegun y \<le> bbegun x" using backups_wind_down.started_bound [OF assms(3,2)] by simp
  moreover have z: "\<not> backup_running (bmanager z)" "n \<le> backup_steps_left (bphase x)"
    using backups_end.run_bound [OF assms(4,2)] by auto
  moreover obtain e where "(backup_thread_step it)\<^sup>*\<^sup>* z e" "bphase e = B_ended"
    using backups_end.reaches_end [OF z(1)] backup_thread_progress by blast
  moreover have "{u. bphase x = B_sleeping \<and> backup_alone it x u} = {}"
    using assms(1) by (auto simp: backup_alone_def elim!: backup_awakeE backup_stopE)
  ultimately show ?thesis using backup_steps_left_bound [of "bphase x"] by (auto intro: le_trans)
qed

theorem backup_stop_waits_for_interval_witness:
  "\<exists>x y. (backup_step it)\<^sup>*\<^sup>* (backup_thread default_BackupManager \<lparr>backups_exist = False, trees = fmempty\<rparr>) x
     \<and> bstopping x = Joining \<and> {u. backup_alone it x u} = {} \<and> (backup_thread_step it ^^ 1) x y \<and> bbegun y \<le> 0"
proof -
  let ?b = "backup_thread default_BackupManager \<lparr>backups_exist = False, trees = fmempty\<rparr>"
  let ?s = "?b\<lparr>bphase := B_sleeping\<rparr>"
  let ?x = "?s\<lparr>bmanager := StopAutoBackup (bmanager ?s), bstopping := Joining\<rparr>"
  let ?y = "?x\<lparr>bphase := B_retest\<rparr>"
  note d = backup_thread_def StartAutoBackup_def StopAutoBackup_def
  have 1: "backup_step it ?b ?s" using backup_awake.test [of ?b it] by (simp add: d backup_step_awake)
  have 2: "backup_step it ?s ?x" using backup_stop.clear [of ?s] by (simp add: d backup_step_stop)
  have "backup_elapse ?x ?y" using backup_elapse.elapse [of ?x] by simp
  then have y: "(backup_step it)\<^sup>*\<^sup>* ?x ?y" "(backup_thread_step it ^^ 1) ?x ?y"
    by (auto simp: backup_step_elapse backup_thread_step_def relpowp_1)
  have x: "bstopping ?x = Joining" "\<not> backup_running (bmanager ?x)" "bphase ?x = B_sleeping" "bbegun ?x = 0" by (simp_all add: d)
  from two_steps [of "backup_step it", OF 1 2] backup_stop_waits_for_interval [OF x(1,2) y] x(1,3,4) y(2) show ?thesis
    by (intro exI [of _ ?x] exI [of _ ?y]) simp
qed

subsection \<open>The thread of the file watcher\<close>

datatype watcher_phase = W_test | W_select | W_ended | W_terminated

text \<open>The thread once its descriptor watches the file. A ghost field counts the changes that were reported.\<close>

record 'c WatcherThread =
  wwatcher :: "'c ConfigWatcher"
  wphase :: watcher_phase
  wstopping :: stopping
  wstate :: 'c
  wcalls :: nat

definition report_change :: "'c WatcherThread \<Rightarrow> 'c WatcherThread" where
  "report_change x = (case call_watcher (watcher_callback (wwatcher x)) (wstate x) of (c, ex) \<Rightarrow>
     x\<lparr>wstate := c, wcalls := wcalls x + 1, wphase := (if ex = None then W_test else W_terminated)\<rparr>)"

text \<open>The test of the flag, the time-out of \<^verbatim>\<open>select\<close> after a second, a change of the file before it.\<close>

inductive watcher_thread_step :: "'c WatcherThread \<Rightarrow> 'c WatcherThread \<Rightarrow> bool" where
  test: "wphase x = W_test \<Longrightarrow> watcher_thread_step x (x\<lparr>wphase := (if watcher_running (wwatcher x) then W_select else W_ended)\<rparr>)"
| timeout: "wphase x = W_select \<Longrightarrow> watcher_thread_step x (x\<lparr>wphase := W_test\<rparr>)"
| change: "wphase x = W_select \<Longrightarrow> watcher_thread_step x (report_change x)"

inductive watcher_stop :: "'c WatcherThread \<Rightarrow> 'c WatcherThread \<Rightarrow> bool" where
  clear: "wstopping x = Not_stopped \<Longrightarrow> watcher_stop x (x\<lparr>wwatcher := (wwatcher x)\<lparr>watcher_running := False\<rparr>, wstopping := Joining\<rparr>)"
| join: "wstopping x = Joining \<Longrightarrow> wphase x = W_ended
    \<Longrightarrow> watcher_stop x (x\<lparr>wwatcher := (wwatcher x)\<lparr>watcher_joinable := False\<rparr>, wstopping := Stopped\<rparr>)"

definition watcher_step :: "'c WatcherThread \<Rightarrow> 'c WatcherThread \<Rightarrow> bool" where
  "watcher_step x y \<longleftrightarrow> watcher_thread_step x y \<or> watcher_stop x y"

inductive_cases watcher_thread_stepE: "watcher_thread_step x y"
inductive_cases watcher_stopE: "watcher_stop x y"

definition watcher_thread :: "'c ConfigWatcher \<Rightarrow> 'c \<Rightarrow> 'c WatcherThread" where
  "watcher_thread w c = \<lparr>wwatcher = w, wphase = W_test, wstopping = Not_stopped, wstate = c, wcalls = 0\<rparr>"

lemma report_change_fixed [simp]:
  "wwatcher (report_change x) = wwatcher x" "wstopping (report_change x) = wstopping x" "wcalls (report_change x) = wcalls x + 1"
  by (simp_all add: report_change_def split: prod.split)

lemma report_change_phase: "wphase (report_change x) = W_test \<or> wphase (report_change x) = W_terminated"
  by (simp add: report_change_def split: prod.split)

subsection \<open>The watcher implements the loop\<close>

definition watcher_result :: "watcher_phase \<Rightarrow> 'c \<times> exn option \<Rightarrow> 'c WatcherThread \<Rightarrow> bool" where
  "watcher_result fine r x \<longleftrightarrow> wstate x = fst r \<and> wphase x = (if snd r = None then fine else W_terminated)"

lemma watcher_tick:
  assumes "wphase x = W_test" "watcher_running (wwatcher x)"
  shows "watcher_step\<^sup>*\<^sup>* x (report_change (x\<lparr>wphase := W_select\<rparr>))"
proof (rule two_steps)
  show "watcher_step x (x\<lparr>wphase := W_select\<rparr>)"
    using watcher_thread_step.test [OF assms(1)] assms(2) by (simp add: watcher_step_def)
  show "watcher_step (x\<lparr>wphase := W_select\<rparr>) (report_change (x\<lparr>wphase := W_select\<rparr>))"
    using watcher_thread_step.change [of "x\<lparr>wphase := W_select\<rparr>"] by (simp add: watcher_step_def)
qed

lemma watcher_runs_ticks:
  "wphase x = W_test \<Longrightarrow> watcher_running (wwatcher x) \<Longrightarrow>
   \<exists>y. watcher_step\<^sup>*\<^sup>* x y \<and> wwatcher y = wwatcher x \<and> wstopping y = wstopping x
     \<and> watcher_result W_test (watch_ticks (watcher_callback (wwatcher x)) (map (Tick True) chs) (wstate x)) y"
proof (induction chs arbitrary: x)
  case Nil
  then show ?case by (intro exI [of _ x]) (simp add: watcher_result_def)
next
  case (Cons ch chs)
  let ?y = "report_change (x\<lparr>wphase := W_select\<rparr>)"
  show ?case
  proof (cases "ch \<and> wphase ?y = W_test")
    case True
    with Cons.IH [of ?y] Cons.prems(2) obtain y where y: "watcher_step\<^sup>*\<^sup>* ?y y" "wwatcher y = wwatcher x" "wstopping y = wstopping x"
      "watcher_result W_test (watch_ticks (watcher_callback (wwatcher x)) (map (Tick True) chs) (wstate ?y)) y" by auto
    moreover have "watch_ticks (watcher_callback (wwatcher x)) (map (Tick True) (ch # chs)) (wstate x) =
        watch_ticks (watcher_callback (wwatcher x)) (map (Tick True) chs) (wstate ?y)"
      using True by (auto simp: report_change_def split: prod.splits if_splits option.splits)
    ultimately show ?thesis using rtranclp_trans [OF watcher_tick [OF Cons.prems] y(1)] by auto
  next
    case False
    show ?thesis
    proof (cases ch)
      case True
      with False have "watcher_result W_test (watch_ticks (watcher_callback (wwatcher x)) (map (Tick True) (ch # chs)) (wstate x)) ?y"
        by (auto simp: report_change_def watcher_result_def split: prod.splits if_splits option.splits)
      with watcher_tick [OF Cons.prems] show ?thesis by (intro exI [of _ ?y]) simp
    qed (use Cons in simp)
  qed
qed

lemma watcher_stops:
  assumes "wphase x = W_test" "wstopping x = Not_stopped"
  shows "watcher_step\<^sup>*\<^sup>* x (x\<lparr>wwatcher := Stop_watcher (wwatcher x), wphase := W_ended, wstopping := Stopped\<rparr>)"
proof (rule three_steps)
  let ?c = "x\<lparr>wwatcher := (wwatcher x)\<lparr>watcher_running := False\<rparr>, wstopping := Joining\<rparr>"
  show "watcher_step x ?c" using watcher_stop.clear [OF assms(2)] by (simp add: watcher_step_def)
  show "watcher_step ?c (?c\<lparr>wphase := W_ended\<rparr>)" using watcher_thread_step.test [of ?c] assms(1) by (simp add: watcher_step_def)
  show "watcher_step (?c\<lparr>wphase := W_ended\<rparr>) (x\<lparr>wwatcher := Stop_watcher (wwatcher x), wphase := W_ended, wstopping := Stopped\<rparr>)"
    using watcher_stop.join [of "?c\<lparr>wphase := W_ended\<rparr>"] by (cases x) (simp add: watcher_step_def Stop_watcher_def)
qed

text \<open>
  A started watcher reaches, step by step, what its loop computes for any changes; \<open>Stop\<close> then returns
  and leaves the watcher ready for the next start, or the callback's exception ends the process.
\<close>

theorem watcher_implements_loop:
  assumes "Start_watcher w = Some w'"
  shows "\<exists>y. watcher_step\<^sup>*\<^sup>* (watcher_thread w' c) y
    \<and> watcher_result W_ended (watch_ticks (watcher_callback w) (map (Tick True) chs) c) y
    \<and> wwatcher y = (if wphase y = W_ended then Stop_watcher w' else w')"
proof -
  have w': "watcher_running w'" "watcher_callback w' = watcher_callback w"
    using assms by (auto simp: Start_watcher_def split: if_splits)
  let ?r = "watch_ticks (watcher_callback w) (map (Tick True) chs) c"
  obtain y where y: "watcher_step\<^sup>*\<^sup>* (watcher_thread w' c) y" "wwatcher y = w'" "wstopping y = Not_stopped" "watcher_result W_test ?r y"
    using watcher_runs_ticks [of "watcher_thread w' c" chs] w' by (auto simp: watcher_thread_def)
  show ?thesis
  proof (cases "wphase y = W_test")
    case True
    let ?z = "y\<lparr>wwatcher := Stop_watcher (wwatcher y), wphase := W_ended, wstopping := Stopped\<rparr>"
    have "watcher_result W_ended ?r ?z" using y(4) True by (simp add: watcher_result_def split: if_splits)
    then show ?thesis using rtranclp_trans [OF y(1) watcher_stops [OF True y(3)]] y(2) by (intro exI [of _ ?z]) simp
  next
    case False
    then have "watcher_result W_ended ?r y" "wphase y \<noteq> W_ended" using y(4) by (simp_all add: watcher_result_def split: if_splits)
    then show ?thesis using y by auto
  qed
qed

theorem watcher_implements_loop_witness:
  "\<exists>w' y. Start_watcher (OnChange (Some (\<lambda>n. (n + 1, None))) (ConfigWatcher_new ''config.json'')) = Some w'
     \<and> watcher_step\<^sup>*\<^sup>* (watcher_thread w' (0 :: nat)) y \<and> wstate y = 2 \<and> wphase y = W_ended \<and> wwatcher y = Stop_watcher w'"
proof -
  let ?w = "OnChange (Some (\<lambda>n. (n + 1, None))) (ConfigWatcher_new ''config.json'') :: nat ConfigWatcher"
  let ?v = "?w\<lparr>watcher_running := True, watcher_joinable := True\<rparr>"
  have w: "Start_watcher ?w = Some ?v" by (simp add: Start_watcher_def OnChange_def ConfigWatcher_new_def)
  have "watch_ticks (watcher_callback ?w) (map (Tick True) [True, False, True]) 0 = (2, None)"
    by (simp add: OnChange_def call_watcher_def)
  with watcher_implements_loop [OF w, of 0 "[True, False, True]"] w show ?thesis by (auto simp: watcher_result_def)
qed

subsection \<open>Stopping the file watcher\<close>

fun watcher_steps_left :: "watcher_phase \<Rightarrow> nat" where
  "watcher_steps_left W_select = 2"
| "watcher_steps_left W_test = 1"
| "watcher_steps_left W_ended = 0"
| "watcher_steps_left W_terminated = 0"

lemma watcher_steps_left_report: "watcher_steps_left (wphase (report_change x)) < 2"
  using report_change_phase [of x] by auto

lemma watcher_steps_left_bound: "watcher_steps_left p \<le> 2"
  by (cases p) simp_all

interpretation watcher_end: ending watcher_thread_step "\<lambda>x. \<not> watcher_running (wwatcher x)" "\<lambda>x. watcher_steps_left (wphase x)"
  by unfold_locales (auto simp: watcher_steps_left_report elim!: watcher_thread_stepE)

definition may_report :: "watcher_phase \<Rightarrow> nat" where
  "may_report p = (if p = W_select then 1 else 0)"

lemma may_report_simps [simp]: "may_report W_select = 1" "may_report W_test = 0" "may_report W_ended = 0" "may_report (wphase (report_change x)) = 0"
  using report_change_phase [of x] by (auto simp: may_report_def)

interpretation watcher_winds_down: winding_down watcher_step "\<lambda>x. \<not> watcher_running (wwatcher x)" wcalls "\<lambda>x. may_report (wphase x)"
  by unfold_locales (auto simp: watcher_step_def elim!: watcher_thread_stepE watcher_stopE)

lemma watcher_thread_progress: "{y. watcher_thread_step x y} = {} \<Longrightarrow> wphase x = W_ended \<or> wphase x = W_terminated"
  by (cases "wphase x") (auto dest: watcher_thread_step.intros)

text \<open>
  After \<open>Stop\<close> has cleared the flag the watcher takes two steps at most, the wait in \<^verbatim>\<open>select\<close> and the
  test; at most one change more is reported, and the thread comes to its end.
\<close>

theorem watcher_stop_returns:
  assumes "\<not> watcher_running (wwatcher x)" "(watcher_thread_step ^^ n) x y" "watcher_step\<^sup>*\<^sup>* x z"
  shows "n \<le> 2 \<and> wcalls z \<le> wcalls x + 1
    \<and> (\<exists>e. watcher_thread_step\<^sup>*\<^sup>* y e \<and> (wphase e = W_ended \<or> wphase e = W_terminated))"
proof -
  from watcher_end.run_bound [OF assms(2,1)] have y: "\<not> watcher_running (wwatcher y)" "n \<le> watcher_steps_left (wphase x)" by auto
  have "may_report (wphase x) \<le> 1" by (simp add: may_report_def)
  moreover note watcher_winds_down.started_bound [OF assms(3,1)]
  moreover obtain e where "watcher_thread_step\<^sup>*\<^sup>* y e" "wphase e = W_ended \<or> wphase e = W_terminated"
    using watcher_end.reaches_end [OF y(1)] watcher_thread_progress by blast
  ultimately show ?thesis using y(2) watcher_steps_left_bound [of "wphase x"] by (auto intro: le_trans)
qed

theorem watcher_stop_returns_witness:
  "\<exists>x y :: nat WatcherThread. \<not> watcher_running (wwatcher x) \<and> (watcher_thread_step ^^ 1) x y \<and> wcalls y = wcalls x + 1
     \<and> (\<exists>e. watcher_thread_step\<^sup>*\<^sup>* y e \<and> (wphase e = W_ended \<or> wphase e = W_terminated))"
proof -
  let ?x = "(watcher_thread (ConfigWatcher_new ''config.json'') 0)\<lparr>wphase := W_select\<rparr> :: nat WatcherThread"
  have off: "\<not> watcher_running (wwatcher ?x)" by (simp add: watcher_thread_def ConfigWatcher_new_def)
  have s: "watcher_thread_step ?x (report_change ?x)" by (rule watcher_thread_step.change) simp
  then have y: "(watcher_thread_step ^^ 1) ?x (report_change ?x)" "watcher_step\<^sup>*\<^sup>* ?x (report_change ?x)"
    by (auto simp: watcher_step_def)
  from watcher_stop_returns [OF off y] off y(1) report_change_fixed(3) [of ?x] show ?thesis by blast
qed

end
