(* ===== verification/MCX_Main.thy ===== *)
theory MCX_Main
  imports MCX_Server MCX_Updates MCX_Config
begin

text \<open>
  The program (\<^verbatim>\<open>main.cpp\<close>): the demo, the set-up that starts a server, the check for
  updates with its question, and the choice by the first argument.
\<close>

subsection \<open>The demo\<close>

definition demo_Config :: Config where
  "demo_Config = default_Config\<lparr>demoMode := True, maxPlayers := 2\<rparr>"

text \<open>One event: the server's actions are applied to its scene and a frame is run.\<close>

definition demo_event :: "nat \<Rightarrow> int \<Rightarrow> Event \<Rightarrow> 'w Server \<Rightarrow> 'w \<Rightarrow> ('w Server \<times> 'w \<times> console list) result option" where
  "demo_event fuel now event srv w = (case HandleEvent event srv w of
     (srv, w, out, Inl e) \<Rightarrow> Some (Inl e)
   | (srv, w, out, Inr actions) \<Rightarrow>
       (let (scene, out2) = Apply actions (sceneManager srv); srv = srv\<lparr>sceneManager := scene\<rparr> in
        case server_Update fuel now srv w of
          None \<Rightarrow> None
        | Some (Inl e) \<Rightarrow> Some (Inl e)
        | Some (Inr (srv, w, Some e)) \<Rightarrow> Some (Inl (Exception e))
        | Some (Inr (srv, w, None)) \<Rightarrow> Some (Inr (srv, w, out @ out2))))"

text \<open>\<open>clk n\<close> is the time of the frame of the \<open>n\<close>-th event.\<close>

fun demo_events :: "nat \<Rightarrow> (nat \<Rightarrow> int) \<Rightarrow> Event list \<Rightarrow> 'w Server \<Rightarrow> 'w \<Rightarrow> ('w Server \<times> 'w \<times> console list) result option" where
  "demo_events fuel clk [] srv w = Some (Inr (srv, w, []))"
| "demo_events fuel clk (e # es) srv w = (case demo_event fuel (clk 0) e srv w of
     None \<Rightarrow> None
   | Some (Inl x) \<Rightarrow> Some (Inl x)
   | Some (Inr (srv, w, out)) \<Rightarrow>
       map_option (rmap (\<lambda>(srv, w, out2). (srv, w, out @ out2))) (demo_events fuel (\<lambda>n. clk (Suc n)) es srv w))"

definition demo_summary :: "Metrics \<Rightarrow> console list" where
  "demo_summary ms =
     [log_Info ''Demo complete'',
      log_Info (''Events: '' @ show_nat (unat (eventsProcessed ms))),
      log_Info (''Actions: '' @ show_nat (unat (actionsExecuted ms)))]"

text \<open>
  The demo up to the end of its scope; what then happens to the server is the matter of
  \<open>process_step\<close> below.
\<close>

definition RunDemo :: "nat \<Rightarrow> (nat \<Rightarrow> int) \<Rightarrow> 'w ScriptRuntime result option \<Rightarrow> 'w \<Rightarrow> ('w Server \<times> 'w \<times> console list) result option" where
  "RunDemo fuel clk lua w = (case Server_new lua demo_Config of
     Inl e \<Rightarrow> Some (Inl e)
   | Inr srv \<Rightarrow>
       map_option (rmap (\<lambda>(srv, w, out). (srv, w,
           [log_Info ''Demo starting - press Ctrl+C to stop'', log_Info ''Try commands: !hello, !scene test'']
           @ out @ demo_summary (metrics srv))))
         (demo_events fuel clk BuildFakeEvents srv w))"

subsection \<open>The set-up\<close>

definition setup_Config :: "ServerConfig \<Rightarrow> Config" where
  "setup_Config cfg = default_Config\<lparr>maxPlayers := sc_maxPlayers cfg,
     backendEndpoint := bindIp cfg @ '':'' @ show_nat (unat (sc_port cfg))\<rparr>"

text \<open>
  The wizard and, when it says yes, the server until its loop returns; the result is what was
  written to the console, the configuration file (none when it does not open) and the server's run.
\<close>

definition RunSetup :: "bool \<Rightarrow> nat \<Rightarrow> filesystem_view \<Rightarrow> 'w DynLink \<Rightarrow> frame list \<Rightarrow> 'w ScriptRuntime result option \<Rightarrow> string list \<Rightarrow> 'w \<Rightarrow>
    (console list \<times> string option \<times> ('w Server \<times> 'w \<times> bool) option) result option" where
  "RunSetup opens fuel fs dl frames lua inp w = (case wizard_Run opens default_ServerConfig inp of
     None \<Rightarrow> None
   | Some r \<Rightarrow>
       if \<not> wr_ok r then Some (Inr (wr_output r, wr_file r, None))
       else (case Server_new lua (setup_Config (GetConfig r)) of
           Inl e \<Rightarrow> Some (Inl e)
         | Inr srv \<Rightarrow>
             map_option (rmap (\<lambda>(sig, srv, w, out, stopped).
                 (wr_output r @ Stdout (nl @ ''Starting server...'' @ nl) # out, wr_file r, Some (srv, w, stopped))))
               (Run fuel fs dl frames \<lparr>shutdownRequested = False, g_callback = None\<rparr> srv w)))"

subsection \<open>Texts\<close>

definition PrintUsage :: "console list" where
  "PrintUsage =
     [Stdout (''Usage: mcx [--demo] [--setup] [--version] [--update]'' @ nl),
      Stdout (''  --demo    Run demo mode'' @ nl),
      Stdout (''  --setup   Interactive server setup'' @ nl),
      Stdout (''  --version Show version'' @ nl),
      Stdout (''  --update  Check for updates'' @ nl)]"

definition PrintBanner :: "console list" where
  "PrintBanner = [Stdout (nl @
     ''    _..._'' @ nl @
     ''  .'' @ [CHR 0x27] @ ''     '' @ [CHR 0x27] @ ''.'' @ nl @
     '' |  __ __  |'' @ nl @
     '' | |  |  | |'' @ nl @
     '' | |  |  | |  ___  ___ ___ ___'' @ nl @
     '' | |  |  | | / __|/ __/ __/ __|'' @ nl @
     '' | |  |  | || (__| (__'' @ [CHR 0x5C] @ ''__ '' @ [CHR 0x5C] @ ''__ '' @ [CHR 0x5C] @ nl @
     '' | |  |  | | '' @ [CHR 0x5C] @ ''___|'' @ [CHR 0x5C] @ ''___|___/___/'' @ nl @
     '' |.|  |  |.|'' @ nl @
     '' '' @ [CHR 0x27] @ ''..'' @ [CHR 0x27] @ ''  '' @ [CHR 0x27] @ ''..'' @ [CHR 0x27] @ nl @
     ''  ||    ||'' @ nl @
     ''  '' @ [CHR 0x27] @ [CHR 0x27] @ ''    '' @ [CHR 0x27] @ [CHR 0x27] @ nl @ nl)]"

definition MCX_VERSION :: string where "MCX_VERSION = ''v0.2.0''"

definition PrintVersion :: "console list" where
  "PrintVersion = [Stdout (''MCX Server '' @ MCX_VERSION @ nl)]"

subsection \<open>The check for updates\<close>

text \<open>
  The state of the dialogue: the characters still to be read, what has been printed, the
  commands given to the shell, and whether the answer has been read when it was never set (at the
  end of the input \<^verbatim>\<open>std::cin >> response\<close> leaves the uninitialised variable as it is).
\<close>

record Dialogue =
  dl_in :: string
  dl_out :: "console list"
  dl_shell :: "string list"
  dl_undefined :: bool

definition new_Dialogue :: "string \<Rightarrow> Dialogue" where
  "new_Dialogue inp = \<lparr>dl_in = inp, dl_out = [], dl_shell = [], dl_undefined = False\<rparr>"

definition read_char :: "string \<Rightarrow> (char \<times> string) option" where
  "read_char s = (case dropWhile is_space s of [] \<Rightarrow> None | c # cs \<Rightarrow> Some (c, cs))"

definition box :: "nat \<Rightarrow> string" where
  "box n = [CHR 0xE2, CHR 0x95, char_of n]"

definition box_line :: "nat \<Rightarrow> nat \<Rightarrow> string" where
  "box_line l r = box l @ concat (replicate 48 (box 0x90)) @ box r @ nl"

definition update_lines :: "ReleaseInfo \<Rightarrow> console list" where
  "update_lines info =
     [Stdout nl, Stdout (box_line 0x94 0x97),
      Stdout (box 0x91 @ ''  UPDATE AVAILABLE                              '' @ box 0x91 @ nl),
      Stdout (box_line 0xA0 0xA3),
      Stdout (box 0x91 @ ''  Current:  '' @ MCX_VERSION @ nl),
      Stdout (box 0x91 @ ''  Latest:   '' @ version info @ nl),
      Stdout (box_line 0xA0 0xA3),
      Stdout (box 0x91 @ ''  Download: '' @ downloadUrl info @ nl),
      Stdout (box_line 0x9A 0x9D),
      Stdout (nl @ ''Would you like to download? (y/n): '')]"

definition open_command :: "string \<Rightarrow> string" where
  "open_command url = ''xdg-open '' @ [CHR 0x22] @ url @ [CHR 0x22]"

definition on_update :: "ReleaseInfo \<Rightarrow> Dialogue effect" where
  "on_update info d = (let d = d\<lparr>dl_out := dl_out d @ update_lines info\<rparr> in
     case read_char (dl_in d) of
       None \<Rightarrow> (d\<lparr>dl_in := [], dl_undefined := True\<rparr>, None)
     | Some (response, rest) \<Rightarrow>
         let d = d\<lparr>dl_in := rest\<rparr> in
         if response = CHR ''y'' \<or> response = CHR ''Y'' then
           (d\<lparr>dl_out := dl_out d @
                [Stdout (nl @ ''Opening browser to download page...'' @ nl),
                 Stdout (''Please download and extract the new version.'' @ nl)],
              dl_shell := dl_shell d @ [open_command (downloadUrl info)]\<rparr>, None)
         else (d, None))"

text \<open>The function of \<^verbatim>\<open>main.cpp\<close> that has the name of the checker's.\<close>

definition main_CheckForUpdates :: "nat \<Rightarrow> 'n Net \<Rightarrow> 'n \<Rightarrow> Dialogue \<Rightarrow> (Dialogue \<times> console list) result option" where
  "main_CheckForUpdates fuel net s d =
     map_option (\<lambda>(s, (d, out), r). rmap (\<lambda>_. (d, Stdout (nl @ ''Checking for updates...'' @ nl) # out)) r)
       (CheckForUpdates fuel net (Some on_update) MCX_VERSION s (d, []))"

subsection \<open>main\<close>

text \<open>What the process finds: the network, the files, the clock, the signals and the input.\<close>

record ('n, 'w) Environment =
  env_fuel :: nat
  env_net :: "'n Net"
  env_network :: 'n
  env_clock :: "nat \<Rightarrow> int"
  env_files :: filesystem_view
  env_opens :: bool
  env_dynlink :: "'w DynLink"
  env_frames :: "frame list"
  env_lua :: "'w ScriptRuntime result option"
  env_stdin :: string
  env_world :: 'w

text \<open>
  The process at the end of \<^verbatim>\<open>main\<close>: a server is still serving; the function that made a server (if
  any) has reached the end of its scope and the exit code is decided, with the timed executor whose
  destructor has to stop and join its worker; the process has exited.
\<close>

datatype process = Serving | Returning int "unit ThreadScheduler option" | Exited int

inductive process_step :: "process \<Rightarrow> process \<Rightarrow> bool" where
  no_server: "process_step (Returning code None) (Exited code)"
| executor: "unattended_step x x' \<Longrightarrow> process_step (Returning code (Some x)) (Returning code (Some x'))"
| joined: "stopping x = Stopped \<Longrightarrow> process_step (Returning code (Some x)) (Exited code)"

inductive_cases process_stepE: "process_step p p'"

text \<open>The process, the output and the shell commands of a run up to there.\<close>

type_synonym main_result = "(process \<times> console list \<times> string list) result option"

definition interactive :: "('n, 'w) Environment \<Rightarrow> main_result" where
  "interactive env =
     (let ask = [Stdout (nl @ ''Current version: '' @ MCX_VERSION @ nl), Stdout ''Check for updates? (y/n): ''] in
      case read_char (env_stdin env) of
        None \<Rightarrow> Some (Inl Undefined)
      | Some (response, rest) \<Rightarrow>
          if response = CHR ''y'' \<or> response = CHR ''Y''
          then map_option (\<lambda>r. rbind r (\<lambda>(d, out). if dl_undefined d then Inl Undefined
                 else Inr (Returning 0 None, PrintBanner @ ask @ out @ dl_out d @ PrintUsage, dl_shell d)))
               (main_CheckForUpdates (env_fuel env) (env_net env) (env_network env) (new_Dialogue rest))
          else Some (Inr (Returning 0 None, PrintBanner @ ask @ PrintUsage, [])))"

definition main :: "('n, 'w) Environment \<Rightarrow> string list \<Rightarrow> main_result" where
  "main env args = (case args of
     [] \<Rightarrow> interactive env
   | arg # _ \<Rightarrow>
       if arg = ''--demo'' then
         map_option (rmap (\<lambda>(srv, w, out). (Returning 0 (Some (threadScheduler srv)), PrintBanner @ out, [])))
           (RunDemo (env_fuel env) (env_clock env) (env_lua env) (env_world env))
       else if arg = ''--setup'' then
         map_option (rmap (\<lambda>(out, file, run). (case run of None \<Rightarrow> Returning 0 None
             | Some (srv, w, stopped) \<Rightarrow> if stopped then Returning 0 (Some (threadScheduler srv)) else Serving, PrintBanner @ out, [])))
           (RunSetup (env_opens env) (env_fuel env) (env_files env) (env_dynlink env) (env_frames env) (env_lua env)
             (split_on (CHR 0x0A) (env_stdin env)) (env_world env))
       else if arg = ''--version'' then Some (Inr (Returning 0 None, PrintBanner @ PrintVersion, []))
       else if arg = ''--update'' then
         map_option (\<lambda>r. rbind r (\<lambda>(d, out). if dl_undefined d then Inl Undefined
               else Inr (Returning 0 None, PrintBanner @ out @ dl_out d, dl_shell d)))
           (main_CheckForUpdates (env_fuel env) (env_net env) (env_network env) (new_Dialogue (env_stdin env)))
       else Some (Inr (Returning 1 None, PrintBanner @ PrintUsage, [])))"

subsection \<open>The demo, line by line\<close>

definition demo_lines :: "console list" where
  "demo_lines =
     [log_Info ''Demo starting - press Ctrl+C to stop'', log_Info ''Try commands: !hello, !scene test'',
      log_Info ''Player joined: TestPlayer (uuid-1234)'', log_Info ''No actions to apply'',
      log_Info ''Action: broadcast -> text=[MCX] Hello from the hardcoded runtime, TestPlayer!'',
      log_Info ''Action: broadcast -> text=[MCX] Loading test scene (hardcoded).'', log_Info ''Loaded scene: test'',
      log_Info ''No actions to apply'',
      log_Info ''Demo complete'', log_Info ''Events: 4'', log_Info ''Actions: 3'']"

text \<open>The servers of the demo: no task, no module, the built-in runtime.\<close>

definition demo_state :: "SceneManager \<Rightarrow> PlayerRegistry \<Rightarrow> Metrics \<Rightarrow> 'w Server" where
  "demo_state sc reg ms = \<lparr>config = demo_Config, server_running = False, scriptRuntime = HardcodedScriptRuntime,
     sceneManager = sc, playerRegistry = reg, scheduler = empty_scheduler,
     threadScheduler = new_ThreadScheduler (), metrics = ms,
     server_permissions = empty_permissions, moduleLoader = empty_loader\<rparr>"

lemma demo_state_simps [simp]:
  "metrics (demo_state sc reg ms) = ms" "sceneManager (demo_state sc reg ms) = sc"
  "playerRegistry (demo_state sc reg ms) = reg"
  "scriptRuntime (demo_state sc reg ms) = HardcodedScriptRuntime" "moduleLoader (demo_state sc reg ms) = empty_loader"
  "(demo_state sc reg ms)\<lparr>metrics := ms'\<rparr> = demo_state sc reg ms'"
  "(demo_state sc reg ms)\<lparr>sceneManager := sc'\<rparr> = demo_state sc' reg ms"
  "(demo_state sc reg ms)\<lparr>playerRegistry := reg'\<rparr> = demo_state sc reg' ms"
  by (simp_all add: demo_state_def)

lemma Server_new_demo: "Server_new lua demo_Config = Inr (demo_state \<lparr>currentScene = []\<rparr> empty_registry zero_Metrics)"
  by (simp add: Server_new_def demo_state_def demo_Config_def default_Config_def)

lemma hardcoded_HandleEvent: "rt_HandleEvent HardcodedScriptRuntime event w = (w, [], Inr (hardcoded_actions event))"
  by (simp add: HardcodedScriptRuntime_def)

lemma dispatch_empty: "DispatchEvent empty_loader event actions w = (w, [], actions)"
  by (simp add: DispatchEvent_def empty_loader_def)

lemma demo_update: "server_Update (Suc fuel) now (demo_state sc reg ms) w = Some (Inr (demo_state sc reg ms, w, None))"
  by (simp add: demo_state_def server_Update_def Update_def empty_scheduler_def)

lemma demo_event_run:
  assumes "track_player event (demo_state sc reg (ms\<lparr>eventsProcessed := eventsProcessed ms + 1\<rparr>) :: 'w Server) = (demo_state sc reg2 ms2, out1)"
    and "Apply (hardcoded_actions event) sc = (sc2, out2)"
  shows "demo_event (Suc fuel) now event (demo_state sc reg ms :: 'w Server) w =
    Some (Inr (demo_state sc2 reg2 (ms2\<lparr>actionsExecuted := actionsExecuted ms2 + of_nat (length (hardcoded_actions event))\<rparr>),
      w, out1 @ out2))"
  using assms by (simp add: demo_event_def HandleEvent_def Let_def hardcoded_HandleEvent dispatch_empty demo_update)

definition after_join :: PlayerRegistry where
  "after_join = fst (AddPlayer fake_player empty_registry)"

text \<open>The four events of the demo and what each of them does.\<close>

lemma demo_join:
  "demo_event (Suc fuel) now (BuildFakeEvents ! 0) (demo_state \<lparr>currentScene = []\<rparr> empty_registry zero_Metrics) w =
     Some (Inr (demo_state \<lparr>currentScene = []\<rparr> after_join (zero_Metrics\<lparr>eventsProcessed := 1, playersConnected := 1\<rparr>), w,
       [log_Info ''Player joined: TestPlayer (uuid-1234)'', log_Info ''No actions to apply'']))"
proof -
  have a: "hardcoded_actions (BuildFakeEvents ! 0) = []" by code_simp
  have t: "track_player (BuildFakeEvents ! 0) (demo_state \<lparr>currentScene = []\<rparr> empty_registry
      (zero_Metrics\<lparr>eventsProcessed := eventsProcessed zero_Metrics + 1\<rparr>)) =
    (demo_state \<lparr>currentScene = []\<rparr> after_join (zero_Metrics\<lparr>eventsProcessed := 1, playersConnected := 1\<rparr>),
     [log_Info ''Player joined: TestPlayer (uuid-1234)''])"
    by (simp add: track_player_def joined_player_def BuildFakeEvents_def Let_def fake_player_def default_Event_def default_Player_def
        AddPlayer_def after_join_def GetCurrentScene_def zero_Metrics_def)
  from demo_event_run [OF t, of "\<lparr>currentScene = []\<rparr>" "[log_Info ''No actions to apply'']"] show ?thesis
    unfolding a by (simp add: Apply_def zero_Metrics_def)
qed

lemma demo_chat:
  assumes "n = 1 \<or> n = 2 \<or> n = 3" "Apply (hardcoded_actions (BuildFakeEvents ! n)) sc = (sc2, out2)"
  shows "demo_event (Suc fuel) now (BuildFakeEvents ! n) (demo_state sc reg ms :: 'w Server) w =
     Some (Inr (demo_state sc2 reg (ms\<lparr>eventsProcessed := eventsProcessed ms + 1,
       actionsExecuted := actionsExecuted ms + of_nat (length (hardcoded_actions (BuildFakeEvents ! n)))\<rparr>), w, out2))"
proof -
  have "track_player (BuildFakeEvents ! n) s = (s, [])" for s :: "'w Server"
    using assms(1) by (auto simp: track_player_def BuildFakeEvents_def Let_def default_Event_def)
  from demo_event_run [OF this assms(2)] show ?thesis by simp
qed

lemma demo_actions:
  "hardcoded_actions (BuildFakeEvents ! 1) = [BroadcastAction ''[MCX] Hello from the hardcoded runtime, TestPlayer!'']"
  "hardcoded_actions (BuildFakeEvents ! 2) = [BroadcastAction ''[MCX] Loading test scene (hardcoded).'', LoadSceneAction ''test'']"
  "hardcoded_actions (BuildFakeEvents ! 3) = []"
  by code_simp+

lemma demo_applied:
  "Apply (hardcoded_actions (BuildFakeEvents ! 1)) sc =
     (sc, [log_Info ''Action: broadcast -> text=[MCX] Hello from the hardcoded runtime, TestPlayer!''])"
  "Apply (hardcoded_actions (BuildFakeEvents ! 2)) \<lparr>currentScene = []\<rparr> =
     (\<lparr>currentScene = ''test''\<rparr>, [log_Info ''Action: broadcast -> text=[MCX] Loading test scene (hardcoded).'', log_Info ''Loaded scene: test''])"
  "Apply (hardcoded_actions (BuildFakeEvents ! 3)) sc = (sc, [log_Info ''No actions to apply''])"
  unfolding demo_actions by (simp_all add: Apply_def Let_def LoadScene_def)

definition demo_final :: "'w Server" where
  "demo_final = demo_state \<lparr>currentScene = ''test''\<rparr> after_join
     \<lparr>eventsProcessed = 4, actionsExecuted = 3, playersConnected = 1, scenesSwitched = 0\<rparr>"

lemma demo_final_executor: "threadScheduler demo_final = new_ThreadScheduler ()"
  by (simp add: demo_final_def demo_state_def)

lemma demo_events_step:
  "demo_event fuel (clk 0) e srv w = Some (Inr (srv1, w1, out1)) \<Longrightarrow>
   demo_events fuel (\<lambda>n. clk (Suc n)) es srv1 w1 = Some (Inr (srv2, w2, out2)) \<Longrightarrow>
   demo_events fuel clk (e # es) srv w = Some (Inr (srv2, w2, out1 @ out2))"
  by simp

lemma demo_events_run:
  "demo_events (Suc fuel) clk BuildFakeEvents (demo_state \<lparr>currentScene = []\<rparr> empty_registry zero_Metrics) w =
     Some (Inr (demo_final, w, take 6 (drop 2 demo_lines)))"
proof -
  have ev: "BuildFakeEvents = [BuildFakeEvents ! 0, BuildFakeEvents ! 1, BuildFakeEvents ! 2, BuildFakeEvents ! 3]"
    by (simp add: BuildFakeEvents_def Let_def)
  note c1 = demo_chat [OF disjI1 [OF refl] demo_applied(1)]
  note c2 = demo_chat [OF disjI2 [OF disjI1 [OF refl]] demo_applied(2)]
  note c3 = demo_chat [OF disjI2 [OF disjI2 [OF refl]] demo_applied(3)]
  note run = demo_events_step [OF demo_join demo_events_step [OF c1 demo_events_step [OF c2 demo_events_step [OF c3 demo_events.simps(1)]]]]
  show ?thesis
    by (subst ev, subst run) (simp only: demo_actions, simp add: demo_final_def demo_lines_def zero_Metrics_def numeral_eq_Suc)
qed

lemma RunDemo_run: "RunDemo (Suc fuel) clk lua w = Some (Inr (demo_final, w, demo_lines))"
proof -
  have s: "show_nat 4 = ''4''" "show_nat 3 = ''3''" by code_simp+
  have m: "metrics (demo_final :: 'w Server) = \<lparr>eventsProcessed = 4, actionsExecuted = 3, playersConnected = 1, scenesSwitched = 0\<rparr>"
    by (simp add: demo_final_def)
  have d: "demo_summary \<lparr>eventsProcessed = 4, actionsExecuted = 3, playersConnected = 1, scenesSwitched = 0\<rparr> = drop 8 demo_lines"
    by (simp add: demo_summary_def s demo_lines_def)
  show ?thesis
    unfolding RunDemo_def Server_new_demo sum.case demo_events_run
    by (simp add: m d) (simp add: demo_lines_def)
qed

subsection \<open>The end of the process\<close>

lemma executor_steps: "unattended_step\<^sup>*\<^sup>* x x' \<Longrightarrow> process_step\<^sup>*\<^sup>* (Returning code (Some x)) (Returning code (Some x'))"
  by (induction rule: rtranclp_induct) (auto intro: process_step.executor rtranclp.rtrancl_into_rtrancl)

lemma process_code:
  "process_step\<^sup>*\<^sup>* (Returning code x) p \<Longrightarrow> p = Exited code \<or> (\<exists>x'. p = Returning code x')"
proof (induction rule: rtranclp_induct)
  case (step p q)
  from step(3) show ?case
  proof
    assume "p = Exited code"
    with step(2) show ?thesis by (cases rule: process_step.cases) auto
  next
    assume "\<exists>x'. p = Returning code x'"
    with step(2) show ?thesis by (cases rule: process_step.cases) auto
  qed
qed simp

lemma unused_process_exits:
  "process_step\<^sup>*\<^sup>* (Returning code (Some (new_ThreadScheduler ()))) (Exited code)"
proof -
  obtain x where x: "unattended_step\<^sup>*\<^sup>* (new_ThreadScheduler ()) x" "stopping x = Stopped" using unused_can_stop [of "()"] by metis
  from executor_steps [OF x(1)] process_step.joined [OF x(2)] show ?thesis by (rule rtranclp.rtrancl_into_rtrancl)
qed

lemma exit_codes:
  assumes "process_step\<^sup>*\<^sup>* (Returning code x) (Exited code)"
  shows "{c. process_step\<^sup>*\<^sup>* (Returning code x) (Exited c)} = {code}"
  using assms process_code [of code x] by blast

text \<open>A step of the process that is not an unfounded wake-up of the worker.\<close>

definition unwoken_process :: "process \<Rightarrow> process \<Rightarrow> bool" where
  "unwoken_process p p' \<longleftrightarrow> process_step p p' \<and> \<not> (case (p, p') of
     (Returning _ (Some x), Returning _ (Some x')) \<Rightarrow> spurious x x' | _ \<Rightarrow> False)"

lemma hung_process:
  "unwoken_process\<^sup>*\<^sup>* (Returning code (Some x)) p \<Longrightarrow> stopping x = Joining \<and> wphase x = W_waiting \<Longrightarrow>
     \<exists>x'. p = Returning code (Some x') \<and> stopping x' = Joining \<and> wphase x' = W_waiting"
proof (induction rule: rtranclp_induct)
  case (step p q)
  then obtain x' where p: "p = Returning code (Some x')" "stopping x' = Joining \<and> wphase x' = W_waiting" by blast
  from step(2) have "process_step p q" by (simp add: unwoken_process_def)
  then show ?case
  proof (cases rule: process_step.cases)
    case (executor y y' c)
    with p step(2) have "unwoken_step x' y'" by (simp add: unwoken_process_def unwoken_step_def)
    from hung_stays [OF this p(2)] executor p show ?thesis by simp
  qed (use p in simp_all)
qed simp

lemma unused_process_hangs:
  "\<exists>x. process_step\<^sup>*\<^sup>* (Returning code (Some (new_ThreadScheduler ()))) (Returning code (Some x))
     \<and> {c. unwoken_process\<^sup>*\<^sup>* (Returning code (Some x)) (Exited c)} = {}"
proof -
  obtain x where x: "unattended_step\<^sup>*\<^sup>* (new_ThreadScheduler ()) x" "stopping x = Joining" "wphase x = W_waiting"
    using unused_can_hang [of "()"] by metis
  moreover have "{c. unwoken_process\<^sup>*\<^sup>* (Returning code (Some x)) (Exited c)} = {}"
    using hung_process [of code x] x(2,3) by fastforce
  ultimately show ?thesis by (blast dest: executor_steps)
qed

text \<open>
  C7. The demo from end to end, in every environment: it prints exactly these lines, has processed four
  events and executed three actions, leaves one player online and the scene \<^verbatim>\<open>test\<close> loaded, does not
  touch the world of scripts and modules and runs no shell command. The only code the process can exit
  with is 0, and it can exit; but it need not: the destructor of the server stops its timed executor, and when
  that loses its notification the process has printed everything and never exits, unless the worker is
  woken without a reason.
\<close>

theorem demo_run:
  fixes env :: "('n, 'w) Environment"
  shows "\<exists>srv. RunDemo (Suc fuel) (env_clock env) (env_lua env) (env_world env) = Some (Inr (srv, env_world env,
       [log_Info ''Demo starting - press Ctrl+C to stop'', log_Info ''Try commands: !hello, !scene test'',
        log_Info ''Player joined: TestPlayer (uuid-1234)'', log_Info ''No actions to apply'',
        log_Info ''Action: broadcast -> text=[MCX] Hello from the hardcoded runtime, TestPlayer!'',
        log_Info ''Action: broadcast -> text=[MCX] Loading test scene (hardcoded).'', log_Info ''Loaded scene: test'',
        log_Info ''No actions to apply'',
        log_Info ''Demo complete'', log_Info ''Events: 4'', log_Info ''Actions: 3'']))
     \<and> eventsProcessed (metrics srv) = 4 \<and> actionsExecuted (metrics srv) = 3
     \<and> GetOnlineCount (playerRegistry srv) = 1 \<and> GetCurrentScene (sceneManager srv) = ''test''
     \<and> (let ending = Returning 0 (Some (threadScheduler srv)) in
          main (env\<lparr>env_fuel := Suc fuel\<rparr>) (''--demo'' # args) = Some (Inr (ending, PrintBanner @ demo_lines, []))
          \<and> {c. process_step\<^sup>*\<^sup>* ending (Exited c)} = {0}
          \<and> (\<exists>x. process_step\<^sup>*\<^sup>* ending (Returning 0 (Some x)) \<and> stopping x = Joining \<and> wphase x = W_waiting
               \<and> {c. unwoken_process\<^sup>*\<^sup>* (Returning 0 (Some x)) (Exited c)} = {}))"
proof -
  let ?ending = "Returning 0 (Some (new_ThreadScheduler ()))"
  let ?srv = "demo_final :: 'w Server"
  note x = demo_final_executor
  have one: "GetOnlineCount after_join = 1" by code_simp
  have counts: "eventsProcessed (metrics ?srv) = 4" "actionsExecuted (metrics ?srv) = 3" "GetOnlineCount (playerRegistry ?srv) = 1"
    "GetCurrentScene (sceneManager ?srv) = ''test''" by (simp_all add: demo_final_def one GetCurrentScene_def)
  have m: "main (env\<lparr>env_fuel := Suc fuel\<rparr>) (''--demo'' # args) = Some (Inr (?ending, PrintBanner @ demo_lines, []))"
    by (simp add: main_def RunDemo_run x)
  obtain y where u: "unattended_step\<^sup>*\<^sup>* (new_ThreadScheduler ()) y" "stopping y = Joining" "wphase y = W_waiting"
    using unused_can_hang [of "()"] by metis
  have hang: "{c. unwoken_process\<^sup>*\<^sup>* (Returning 0 (Some y)) (Exited c)} = {}"
    using hung_process [of 0 y] u(2,3) by fastforce
  note run = RunDemo_run [of fuel "env_clock env" "env_lua env" "env_world env", unfolded demo_lines_def]
  show ?thesis
    unfolding Let_def
  proof (rule exI [of _ ?srv], unfold x, intro conjI)
    show "\<exists>y. process_step\<^sup>*\<^sup>* ?ending (Returning 0 (Some y)) \<and> stopping y = Joining \<and> wphase y = W_waiting
      \<and> {c. unwoken_process\<^sup>*\<^sup>* (Returning 0 (Some y)) (Exited c)} = {}"
      by (rule exI [of _ y], intro conjI executor_steps u hang)
  qed (rule run counts m exit_codes [OF unused_process_exits])+
qed

subsection \<open>The server of the set-up\<close>

text \<open>The main loop and the loading of modules keep the configuration and the runtime.\<close>

definition same_setup :: "'w Server \<Rightarrow> 'w Server \<Rightarrow> bool" where
  "same_setup a b \<longleftrightarrow> config a = config b \<and> scriptRuntime a = scriptRuntime b"

lemma shutdown_sets: "same_setup (fst (shutdown_callback srv)) srv"
  by (simp add: shutdown_callback_def Stop_def same_setup_def)

lemma MainLoop_same_setup:
  "g_callback sig = Some shutdown_callback \<Longrightarrow> MainLoop fuel fs sig srv w = Some (Inr (sig', srv', w', out, b)) \<Longrightarrow> same_setup srv' srv"
proof (induction fs arbitrary: sig srv w out)
  case Nil
  then show ?case by (simp add: same_setup_def)
next
  case (Cons f fs)
  obtain sig1 srv1 out1 where s1: "(if signalled f then SignalHandler sig srv else (sig, srv, [])) = (sig1, srv1, out1)"
    by (rule prod_cases3)
  have keep: "g_callback sig1 = Some shutdown_callback \<and> same_setup srv1 srv"
    using s1 Cons.prems(1) shutdown_sets [of srv]
    by (cases "shutdown_callback srv") (auto simp: SignalHandler_def same_setup_def Let_def split: if_splits)
  show ?case
  proof (cases "server_running srv1 \<and> \<not> ShouldShutdown sig1")
    case False
    then show ?thesis using Cons.prems(2) keep s1 by simp
  next
    case True
    then obtain srv2 w2 ex where u: "server_Update fuel (frame_time f) srv1 w = Some (Inr (srv2, w2, ex))"
      using Cons.prems(2) s1 by (auto split: option.splits sum.splits)
    then have "same_setup srv2 srv1"
      by (auto simp: server_Update_def same_setup_def rmap_Inr_iff)
    moreover obtain out2 where "MainLoop fuel fs sig1 srv2 w2 = Some (Inr (sig', srv', w', out2, b))"
      using Cons.prems(2) True s1 u by (auto simp: rmap_Inr_iff)
    then have "same_setup srv' srv2" using Cons.IH keep by blast
    ultimately show ?thesis using keep by (simp add: same_setup_def)
  qed
qed

lemma Run_same_setup:
  assumes "Run fuel fs dl frames sig srv w = Some (Inr (sig', srv', w', out, b))"
  shows "same_setup srv' srv"
proof -
  obtain w1 out1 where l: "rt_LoadScripts (scriptRuntime srv) (scriptRoot (config srv)) w = (w1, out1, Inr ())"
    using assms by (auto simp: Run_def split: prod.splits sum.splits)
  obtain srv2 w2 out2 where m: "LoadModules fs dl (srv\<lparr>server_running := True\<rparr>) w1 = (srv2, w2, out2, Inr ())"
    using assms l by (auto simp: Run_def split: prod.splits sum.splits)
  have "same_setup srv2 srv"
    using m by (auto simp: LoadModules_def same_setup_def split: path_view.splits prod.splits)
  moreover obtain out3 where "MainLoop fuel frames (RegisterSignalHandler shutdown_callback sig) srv2 w2 = Some (Inr (sig', srv', w', out3, b))"
    using assms l m by (auto simp: Run_def rmap_Inr_iff)
  then have "same_setup srv' srv2"
    by (rule MainLoop_same_setup [rotated]) (simp add: RegisterSignalHandler_def)
  ultimately show ?thesis by (simp add: same_setup_def)
qed

text \<open>
  C26. The set-up starts a server only after the wizard has said yes; the server has the answered player
  limit and address, but always runs the built-in demo runtime, whatever scripts are there, since the
  configuration it builds is in demo mode. The configuration file has then been written exactly when it could be
  opened: the server starts all the same when it could not, with the message that it was saved.
\<close>

theorem setup_serves_what_was_answered:
  assumes "RunSetup opens fuel fs dl frames lua inp w = Some (Inr (out, written, Some (srv, w', stopped)))"
  shows "\<exists>r. wizard_Run opens default_ServerConfig inp = Some r \<and> wr_ok r
    \<and> written = (if opens then Some (config_file_text (GetConfig r)) else None)
    \<and> log_Info ''Config saved to server.json'' \<in> set out
    \<and> maxPlayers (config srv) = sc_maxPlayers (GetConfig r)
    \<and> backendEndpoint (config srv) = bindIp (GetConfig r) @ '':'' @ show_nat (unat (sc_port (GetConfig r)))
    \<and> scriptRuntime srv = HardcodedScriptRuntime"
proof -
  obtain r where r: "wizard_Run opens default_ServerConfig inp = Some r" "wr_ok r"
    using assms by (auto simp: RunSetup_def split: option.splits if_splits)
  obtain srv0 where srv0: "Server_new lua (setup_Config (GetConfig r)) = Inr srv0"
    using assms r by (auto simp: RunSetup_def split: sum.splits)
  then have s0: "config srv0 = setup_Config (GetConfig r)" "scriptRuntime srv0 = HardcodedScriptRuntime"
    by (auto simp: Server_new_def setup_Config_def default_Config_def)
  have written: "written = wr_file r" "set (wr_output r) \<subseteq> set out"
    and "\<exists>sig' out'. Run fuel fs dl frames \<lparr>shutdownRequested = False, g_callback = None\<rparr> srv0 w = Some (Inr (sig', srv, w', out', stopped))"
    using assms r srv0 by (auto simp: RunSetup_def rmap_Inr_iff)
  then have "same_setup srv srv0" by (auto dest: Run_same_setup)
  moreover have "saved opens (GetConfig r) r"
    using wizard_files [OF r(1)] r(2) by (simp add: GetConfig_def)
  ultimately show ?thesis
    using r s0 written by (auto simp: same_setup_def setup_Config_def default_Config_def saved_def)
qed

text \<open>
  A server that a signal stops at once, after a set-up in which only the terms are answered, in a directory where
  the file cannot be written.
\<close>

theorem setup_serves_what_was_answered_witness:
  "\<forall>dl lua. \<exists>out srv r. RunSetup False 1 (\<lambda>_. Missing) dl [Frame True 0] lua [''yes''] () = Some (Inr (out, None, Some (srv, (), True)))
     \<and> log_Info ''Config saved to server.json'' \<in> set out
     \<and> maxPlayers (config srv) = sc_maxPlayers (GetConfig r) \<and> scriptRuntime srv = HardcodedScriptRuntime"
proof (intro allI)
  fix dl :: "unit DynLink" and lua :: "unit ScriptRuntime result option"
  obtain r where r: "wizard_Run False default_ServerConfig [''yes''] = Some r" "wr_ok r"
    using silent_wizard by blast
  have d: "demoMode (setup_Config (GetConfig r))" by (simp add: setup_Config_def default_Config_def)
  have f: "wr_file r = None" using wizard_files [OF r] by (simp add: saved_def)
  have "\<exists>out srv. RunSetup False 1 (\<lambda>_. Missing) dl [Frame True 0] lua [''yes''] () = Some (Inr (out, None, Some (srv, (), True)))"
    using r d f by (simp add: RunSetup_def Server_new_def Run_def HardcodedScriptRuntime_def LoadModules_def RegisterSignalHandler_def
        SignalHandler_def shutdown_callback_def ShouldShutdown_def)
  then obtain out srv where run: "RunSetup False 1 (\<lambda>_. Missing) dl [Frame True 0] lua [''yes''] () = Some (Inr (out, None, Some (srv, (), True)))"
    by blast
  from setup_serves_what_was_answered [OF run] run
  show "\<exists>out srv r. RunSetup False 1 (\<lambda>_. Missing) dl [Frame True 0] lua [''yes''] () = Some (Inr (out, None, Some (srv, (), True)))
     \<and> log_Info ''Config saved to server.json'' \<in> set out
     \<and> maxPlayers (config srv) = sc_maxPlayers (GetConfig r) \<and> scriptRuntime srv = HardcodedScriptRuntime"
    by blast
qed

subsection \<open>The update dialogue\<close>

lemma length_update_lines: "length (update_lines info) = 10"
  by (simp add: update_lines_def)

lemma on_update_answered:
  assumes "read_char inp = Some (c, rest)"
  shows "\<exists>d. on_update info (new_Dialogue inp) = (d, None) \<and> \<not> dl_undefined d
    \<and> dl_shell d = (if c = CHR ''y'' \<or> c = CHR ''Y'' then [open_command (downloadUrl info)] else [])
    \<and> take 10 (dl_out d) = update_lines info"
  using assms
  by (cases "c = CHR ''y'' \<or> c = CHR ''Y''") (simp_all add: on_update_def new_Dialogue_def Let_def length_update_lines)

text \<open>
  A check that is answered with 200 and any JSON text shows the update
  box and asks, whether or not the release is newer than the program; the answer yes gives the
  shell exactly one command, which contains the address of the release as the server sent it.
\<close>

theorem update_dialogue:
  assumes "well_formed ts" "CR \<notin> set reason" "header_lines hs" "answer = response_text 200 reason hs (json_text ts)"
    and "CHR 0x00 \<notin> set answer" "length answer < fuel"
    and "read_char inp = Some (c, rest)"
  shows "\<exists>d out. main_CheckForUpdates fuel loopback (wire (map byte_of answer)) (new_Dialogue inp) = Some (Inr (d, out))
    \<and> dl_shell d = (if c = CHR ''y'' \<or> c = CHR ''Y'' then [''xdg-open '' @ [CHR 0x22] @ downloadUrl (release_info ts MCX_VERSION) @ [CHR 0x22]] else [])
    \<and> take 10 (dl_out d) = update_lines (release_info ts MCX_VERSION) \<and> \<not> dl_undefined d"
proof -
  let ?info = "release_info ts MCX_VERSION"
  obtain d where d: "on_update ?info (new_Dialogue inp) = (d, None)" "\<not> dl_undefined d"
    "dl_shell d = (if c = CHR ''y'' \<or> c = CHR ''Y'' then [''xdg-open '' @ [CHR 0x22] @ downloadUrl ?info @ [CHR 0x22]] else [])"
    "take 10 (dl_out d) = update_lines ?info"
    using on_update_answered [OF assms(7), of ?info] by (auto simp: open_command_def)
  then show ?thesis
    using check_for_updates_run [where f = on_update, OF assms(1-6) d(1)] by (auto simp: main_CheckForUpdates_def)
qed

text \<open>An old release whose address holds a shell substitution.\<close>

definition evil_release :: "token list" where
  "evil_release = [Other CHR ''{'', Quoted ''tag_name'', Other CHR '':'', Quoted ''v0.1.0'', Other CHR '','',
     Quoted ''browser_download_url'', Other CHR '':'', Quoted ''http://x/linux$(reboot)'', Other CHR ''}'']"

theorem update_dialogue_witness:
  "\<exists>d out. main_CheckForUpdates 300 loopback
      (wire (map byte_of (response_text 200 ''OK'' [] (json_text evil_release)))) (new_Dialogue ''y'') = Some (Inr (d, out))
    \<and> dl_shell d = [''xdg-open '' @ [CHR 0x22] @ ''http://x/linux$(reboot)'' @ [CHR 0x22]] \<and> \<not> IsVersionNewer ''v0.1.0'' MCX_VERSION"
proof -
  let ?a = "response_text 200 ''OK'' [] (json_text evil_release)"
  have h: "well_formed evil_release" "CR \<notin> set ''OK''" "header_lines []" "?a = ?a" "CHR 0x00 \<notin> set ?a" "length ?a < 300" by code_simp+
  have y: "read_char ''y'' = Some (CHR ''y'', [])" by code_simp
  have n: "\<not> IsVersionNewer ''v0.1.0'' MCX_VERSION" by code_simp
  have u: "downloadUrl (release_info evil_release MCX_VERSION) = ''http://x/linux$(reboot)''" by code_simp
  show ?thesis using update_dialogue [OF h y] n u by auto
qed

subsection \<open>The choice by the first argument\<close>

text \<open>
  Whatever the environment: the demo decides the code 0 after the banner and its lines and runs
  no shell command, with the executor of its server still to be stopped; the version is printed
  without touching anything; and every argument that is not one of the four gives the usage and
  code 1 (\<^verbatim>\<open>--server\<close> is such an argument).
\<close>

theorem main_dispatch:
  assumes "arg \<notin> {''--demo'', ''--setup'', ''--version'', ''--update''}" "0 < env_fuel env"
  shows "main env (arg # args) = Some (Inr (Returning 1 None, PrintBanner @ PrintUsage, []))
    \<and> main env (''--version'' # args) = Some (Inr (Returning 0 None, PrintBanner @ PrintVersion, []))
    \<and> main env (''--demo'' # args) = Some (Inr (Returning 0 (Some (new_ThreadScheduler ())), PrintBanner @ demo_lines, []))"
proof -
  obtain fuel where "env_fuel env = Suc fuel" using assms(2) by (cases "env_fuel env") auto
  then show ?thesis using assms(1) by (auto simp: main_def RunDemo_run demo_final_executor)
qed

theorem main_dispatch_witness:
  "\<forall>env :: (Wire, unit) Environment. main (env\<lparr>env_fuel := 1\<rparr>) [''--server''] = Some (Inr (Returning 1 None, PrintBanner @ PrintUsage, []))"
proof
  fix env :: "(Wire, unit) Environment"
  show "main (env\<lparr>env_fuel := 1\<rparr>) [''--server''] = Some (Inr (Returning 1 None, PrintBanner @ PrintUsage, []))"
    using main_dispatch [of "''--server''" "env\<lparr>env_fuel := 1\<rparr>" "[]"] by simp
qed

end
