(* ===== verification/MCX_Windows.thy ===== *)
theory MCX_Windows
  imports MCX_Rcon MCX_WebSocket MCX_Updates MCX_Bridges MCX_Main
begin

text \<open>
  What the branches for Windows do otherwise than those the other theories follow: the choice of a
  download, the shell command that opens it, the files that count as modules, and the calls
  of \<^verbatim>\<open>WSAStartup\<close> and \<^verbatim>\<open>WSACleanup\<close>, which the library wants in pairs. The other differences
  are names (\<^verbatim>\<open>closesocket\<close>, \<^verbatim>\<open>LoadLibraryW\<close>) behind the same interface.
\<close>

datatype platform = Windows | Linux | Other_platform

subsection \<open>Downloads and commands\<close>

definition windows_asset :: "string \<Rightarrow> bool" where
  "windows_asset u \<longleftrightarrow> str_contains u ''windows'' \<and> str_contains u ''.zip''"

fun preferred_on :: "platform \<Rightarrow> string \<Rightarrow> bool" where
  "preferred_on Windows = windows_asset"
| "preferred_on Linux = linux_asset"
| "preferred_on Other_platform = (\<lambda>u. False)"

definition PickPreferredAssetUrl_on :: "platform \<Rightarrow> string \<Rightarrow> string" where
  "PickPreferredAssetUrl_on p json = (let urls = asset_urls json 0 in
     case List.find (preferred_on p) urls of
       Some u \<Rightarrow> u
     | None \<Rightarrow> (case urls of [] \<Rightarrow> [] | u # _ \<Rightarrow> u))"

lemma pick_on_linux: "PickPreferredAssetUrl_on Linux = PickPreferredAssetUrl"
  by (rule ext) (simp add: PickPreferredAssetUrl_on_def PickPreferredAssetUrl_def)

text \<open>Where no rule is compiled in, the first asset is offered, whatever it is for.\<close>

lemma pick_on_other: "PickPreferredAssetUrl_on Other_platform json = (case asset_urls json 0 of [] \<Rightarrow> [] | u # _ \<Rightarrow> u)"
proof -
  have "List.find (\<lambda>u. False) urls = None" for urls :: "string list" by (induction urls) auto
  then show ?thesis by (simp add: PickPreferredAssetUrl_on_def Let_def)
qed

text \<open>
  The two commands. In \<^verbatim>\<open>main.cpp\<close> the quotation marks of the empty window title are not escaped: they end one
  literal and begin the next, so that the command has no title and \<^verbatim>\<open>start\<close> takes the quoted address for it.
\<close>

fun main_open_command :: "platform \<Rightarrow> string \<Rightarrow> string" where
  "main_open_command Windows url = (''start '' @ '' '' @ [CHR 0x22]) @ url @ [CHR 0x22]"
| "main_open_command _ url = open_command url"

fun launcher_open_command :: "platform \<Rightarrow> string \<Rightarrow> string" where
  "launcher_open_command Windows url = ''start '' @ [CHR 0x22, CHR 0x22] @ '' '' @ [CHR 0x22] @ url @ [CHR 0x22]"
| "launcher_open_command _ url = open_command url"

text \<open>The quoted arguments of a command: what stands between the quotation marks, in pairs.\<close>

fun quoted_arguments :: "string \<Rightarrow> bool \<Rightarrow> string \<Rightarrow> string list" where
  "quoted_arguments acc inside [] = []"
| "quoted_arguments acc inside (c # cs) =
     (if c = CHR 0x22 then (if inside then acc # quoted_arguments [] False cs else quoted_arguments [] True cs)
      else quoted_arguments (if inside then acc @ [c] else []) inside cs)"

lemma quoted_inside: "CHR 0x22 \<notin> set url \<Longrightarrow> quoted_arguments acc True (url @ [CHR 0x22]) = [acc @ url]"
  by (induction url arbitrary: acc) auto

text \<open>
  On Windows the launcher passes an empty title and the address; the program passes the address as
  the only quoted argument, which is the title of a new window.
\<close>

lemma open_commands_on_windows:
  assumes "CHR 0x22 \<notin> set url"
  shows "quoted_arguments [] False (launcher_open_command Windows url) = [[], url]"
    and "quoted_arguments [] False (main_open_command Windows url) = [url]"
  using quoted_inside [OF assms, of "[]"] by simp_all

subsection \<open>Modules\<close>

definition is_module :: "platform \<Rightarrow> string \<Rightarrow> bool" where
  "is_module p path \<longleftrightarrow> path_extension path = (if p = Windows then ''.dll'' else ''.so'')"

text \<open>The loop over a directory looks at its modules for the platform only, and no file is a module for both.\<close>

lemma load_modules_linux: "load_modules dl ps l w = load_modules dl (filter (is_module Linux) ps) l w"
  by (induction ps arbitrary: l w) (auto simp: is_module_def split: prod.splits sum.splits)

lemma modules_apart: "is_module Windows path \<Longrightarrow> \<not> is_module Linux path"
  by (simp add: is_module_def)

subsection \<open>The socket library\<close>

datatype wsa = WSAStartup | WSACleanup

definition wsa_balance :: "wsa list \<Rightarrow> int" where
  "wsa_balance calls = int (count_list calls WSAStartup) - int (count_list calls WSACleanup)"

lemma wsa_balance_simps [simp]:
  "wsa_balance [] = 0" "wsa_balance (WSAStartup # cs) = wsa_balance cs + 1" "wsa_balance (WSACleanup # cs) = wsa_balance cs - 1"
  "wsa_balance (cs @ ds) = wsa_balance cs + wsa_balance ds"
  by (simp_all add: wsa_balance_def)

text \<open>
  Every \<open>Connect\<close> or \<open>Start\<close> of a class with sockets begins with \<^verbatim>\<open>WSAStartup\<close>. The RCON client and the two
  servers call \<^verbatim>\<open>WSACleanup\<close> where they close a descriptor they hold; the HTTP client and the two bridges
  whenever they are stopped, which the destructor does again.
\<close>

definition Start_wsa :: "wsa list" where
  "Start_wsa = [WSAStartup]"

definition Disconnect_wsa :: "RconClient \<Rightarrow> wsa list" where
  "Disconnect_wsa c = (if socketFd c \<ge> 0 then [WSACleanup] else [])"

definition Stop_rcon_wsa :: "'c RconServer \<Rightarrow> wsa list" where
  "Stop_rcon_wsa srv = (if serverFd srv \<ge> 0 then [WSACleanup] else [])"

definition Stop_ws_wsa :: "'c WebSocketServer \<Rightarrow> wsa list" where
  "Stop_ws_wsa srv = (if ws_serverFd srv \<ge> 0 then [WSACleanup] else [])"

definition Stop_http_wsa :: "wsa list" where
  "Stop_http_wsa = [WSACleanup]"

text \<open>A check for updates starts a client, stops it and destroys it.\<close>

definition CheckForUpdates_wsa :: "wsa list" where
  "CheckForUpdates_wsa = Start_wsa @ Stop_http_wsa @ Stop_http_wsa"

text \<open>So each check takes away one reference that some other part of the process may hold.\<close>

lemma checks_unbalanced: "wsa_balance (concat (replicate n CheckForUpdates_wsa)) = - int n"
  by (induction n) (simp_all add: CheckForUpdates_wsa_def Start_wsa_def Stop_http_wsa_def)

text \<open>A server that was started, is stopped and is destroyed: one call too many as well.\<close>

lemma server_stopped_twice:
  assumes "Start_ws net (fresh_WebSocketServer p) s = (srv, s1, out)" "ws_running srv" "Stop_ws net srv s1 = (srv2, s2)"
  shows "wsa_balance (Start_wsa @ Stop_ws_wsa srv @ Stop_ws_wsa srv2) = - 1"
  using assms by (auto simp: Start_ws_def Stop_ws_def fresh_WebSocketServer_def Start_wsa_def Stop_ws_wsa_def Let_def
      split: prod.splits if_splits bool.splits)

lemma rcon_server_stopped_twice:
  assumes "Start_rcon net (fresh_RconServer p) s = (srv, s1, out)" "listening srv" "Stop_rcon net srv s1 = (srv2, s2)"
  shows "wsa_balance (Start_wsa @ Stop_rcon_wsa srv @ Stop_rcon_wsa srv2) = - 1"
  using assms by (auto simp: Start_rcon_def Stop_rcon_def fresh_RconServer_def Start_wsa_def Stop_rcon_wsa_def Let_def
      split: prod.splits if_splits bool.splits)

text \<open>The life of an RCON client: connections and disconnections in any order, then its destructor.\<close>

datatype client_op = Op_Connect string nat | Op_Disconnect

fun client_life :: "'n Net \<Rightarrow> client_op list \<Rightarrow> RconClient \<Rightarrow> 'n \<Rightarrow> wsa list" where
  "client_life net [] c s = Disconnect_wsa c"
| "client_life net (Op_Connect host n # ops) c s = (case Connect net host n c s of
     (ok, c1, s1) \<Rightarrow> Start_wsa @ client_life net ops c1 s1)"
| "client_life net (Op_Disconnect # ops) c s = (case Disconnect net c s of
     (c1, s1) \<Rightarrow> Disconnect_wsa c @ client_life net ops c1 s1)"

text \<open>A connection is lost when it fails, and when it replaces one that is open.\<close>

fun lost_connections :: "'n Net \<Rightarrow> client_op list \<Rightarrow> RconClient \<Rightarrow> 'n \<Rightarrow> nat" where
  "lost_connections net [] c s = 0"
| "lost_connections net (Op_Connect host n # ops) c s = (case Connect net host n c s of
     (ok, c1, s1) \<Rightarrow> (if socketFd c \<ge> 0 then 1 else 0) + (if ok then 0 else 1) + lost_connections net ops c1 s1)"
| "lost_connections net (Op_Disconnect # ops) c s = (case Disconnect net c s of
     (c1, s1) \<Rightarrow> lost_connections net ops c1 s1)"

lemma Connect_descriptor: "Connect net host n c s = (ok, c1, s1) \<Longrightarrow> socketFd c1 \<ge> 0 \<longleftrightarrow> ok"
  by (auto simp: Connect_def Let_def split: prod.splits if_splits bool.splits)

lemma Disconnect_descriptor: "Disconnect net c s = (c1, s1) \<Longrightarrow> socketFd c1 < 0"
  by (auto simp: Disconnect_def split: if_splits)

text \<open>
  On Windows every life of an RCON client calls \<^verbatim>\<open>WSAStartup\<close> more often than \<^verbatim>\<open>WSACleanup\<close> by the
  number of connections that failed or replaced an open one; so the calls are paired exactly when there is none.
\<close>

theorem rcon_client_winsock:
  "wsa_balance (client_life net ops c s) + (if socketFd c \<ge> 0 then 1 else 0) = int (lost_connections net ops c s)"
proof (induction ops arbitrary: c s)
  case Nil
  then show ?case by (simp add: Disconnect_wsa_def)
next
  case (Cons op ops)
  show ?case
  proof (cases op)
    case (Op_Connect host n)
    obtain ok c1 s1 where r: "Connect net host n c s = (ok, c1, s1)" by (metis surj_pair)
    with Op_Connect Cons.IH [of c1 s1] Connect_descriptor [OF r] show ?thesis by (auto simp: Start_wsa_def split: if_splits)
  next
    case Op_Disconnect
    obtain c1 s1 where r: "Disconnect net c s = (c1, s1)" by (metis surj_pair)
    with Op_Disconnect Cons.IH [of c1 s1] Disconnect_descriptor [OF r] show ?thesis by (auto simp: Disconnect_wsa_def)
  qed
qed

end
