(* ===== verification/MCX_Launcher.thy ===== *)
theory MCX_Launcher
  imports MCX_Strings
begin

text \<open>
  The Dear ImGui launcher (\<^verbatim>\<open>launcher_imgui/mcx_imgui_launcher.cpp\<close>) without its drawing: the
  state behind the widgets, what each widget does, the two kinds of background threads, and the
  configuration file. A run is any sequence of user actions and turns of the threads; each turn
  is taken as one atomic step, which the code, whose threads share the console without a lock,
  does not guarantee.
\<close>

subsection \<open>State\<close>

record ConsoleLine =
  cl_text :: string
  cl_color :: string
  cl_time :: int

record LauncherConfig =
  server_name :: string
  bind_ip :: string
  lport :: int
  max_players :: int
  demo_mode :: bool
  auto_update :: bool
  rcon_enabled :: bool
  rcon_port :: int
  rcon_password :: string

definition default_LauncherConfig :: LauncherConfig where
  "default_LauncherConfig = \<lparr>server_name = ''MCX Server'', bind_ip = ''0.0.0.0'', lport = 25565, max_players = 50,
     demo_mode = True, auto_update = True, rcon_enabled = True, rcon_port = 25575, rcon_password = ''mcx-password-123''\<rparr>"

text \<open>
  Where a background thread stands. The server thread prints two lines and then beats: it tests
  the flag, sleeps, and prints when the flag is still set. The update thread steps its progress.
\<close>

datatype worker = Announcing | Testing nat | Sleeping nat | Progress nat

text \<open>
  \<open>l_file\<close> is the contents of \<^verbatim>\<open>mcx-config.json\<close>, \<open>l_shell\<close> the commands given to
  \<^verbatim>\<open>system\<close>, \<open>l_now\<close> the clock of ImGui, \<open>workers\<close> the detached threads that are alive.
\<close>

record Launcher =
  show_update_dialog :: bool
  should_exit :: bool
  console_lines :: "ConsoleLine list"
  auto_scroll_console :: bool
  l_running :: bool
  checking_update :: bool
  update_progress :: nat
  latest_version :: string
  download_url :: string
  update_available :: bool
  lconfig :: LauncherConfig
  workers :: "worker list"
  l_file :: "string option"
  l_shell :: "string list"
  l_now :: int

definition LAUNCHER_VERSION :: string where "LAUNCHER_VERSION = ''v0.3.1''"

definition AppendConsole :: "string \<Rightarrow> string \<Rightarrow> Launcher \<Rightarrow> Launcher" where
  "AppendConsole text color l =
     (let ls = console_lines l @ [\<lparr>cl_text = text, cl_color = color, cl_time = l_now l\<rparr>]
      in l\<lparr>console_lines := (if 1000 < length ls then tl ls else ls)\<rparr>)"

subsection \<open>The configuration file\<close>

definition json_bool :: "bool \<Rightarrow> string" where
  "json_bool b = (if b then ''true'' else ''false'')"

definition json_line :: "string \<Rightarrow> string \<Rightarrow> string" where
  "json_line key val = ''  '' @ [CHR 0x22] @ key @ [CHR 0x22] @ '': '' @ val"

definition json_text :: "string \<Rightarrow> string" where
  "json_text s = [CHR 0x22] @ s @ [CHR 0x22]"

definition config_lines :: "LauncherConfig \<Rightarrow> string list" where
  "config_lines c =
     [''{'',
      json_line ''serverName'' (json_text (server_name c)) @ '','',
      json_line ''bindIp'' (json_text (bind_ip c)) @ '','',
      json_line ''port'' (show_int (lport c)) @ '','',
      json_line ''maxPlayers'' (show_int (max_players c)) @ '','',
      json_line ''demoMode'' (json_bool (demo_mode c)) @ '','',
      json_line ''autoUpdate'' (json_bool (auto_update c)) @ '','',
      json_line ''rconEnabled'' (json_bool (rcon_enabled c)) @ '','',
      json_line ''rconPort'' (show_int (rcon_port c)) @ '','',
      json_line ''rconPassword'' (json_text (rcon_password c)),
      ''}'']"

text \<open>The file is written unless it cannot be opened.\<close>

definition SaveConfig :: "bool \<Rightarrow> Launcher \<Rightarrow> Launcher" where
  "SaveConfig writable l = (if writable then l\<lparr>l_file := Some (concat (map (\<lambda>s. s @ nl) (config_lines (lconfig l))))\<rparr> else l)"

text \<open>
  \<^verbatim>\<open>sscanf\<close> with the formats of the loader: a space matches any white space, every other
  character itself; then a run of characters that are no quotation mark, or a number.
\<close>

fun scan_format :: "string \<Rightarrow> string \<Rightarrow> string option" where
  "scan_format [] s = Some s"
| "scan_format (f # fs) s =
     (if is_space f then scan_format fs (dropWhile is_space s)
      else (case s of [] \<Rightarrow> None | c # cs \<Rightarrow> if c = f then scan_format fs cs else None))"

definition key_format :: "string \<Rightarrow> string" where
  "key_format key = '' * '' @ [CHR 0x22] @ key @ [CHR 0x22] @ '': ''"

text \<open>A text that does not fit its array (with the final zero) overflows it.\<close>

definition scan_text :: "string \<Rightarrow> nat \<Rightarrow> string \<Rightarrow> string option result" where
  "scan_text key size_of line = (case scan_format (key_format key @ [CHR 0x22]) line of
     None \<Rightarrow> Inr None
   | Some s \<Rightarrow> let v = takeWhile (\<lambda>c. c \<noteq> CHR 0x22) s in
       if v = [] then Inr None else if size_of \<le> length v then Inl Undefined else Inr (Some v))"

definition scan_int :: "string \<Rightarrow> string \<Rightarrow> int option result" where
  "scan_int key line = (case scan_format (key_format key) line of
     None \<Rightarrow> Inr None
   | Some s \<Rightarrow> (case stoi s of
       Inr v \<Rightarrow> Inr (Some v)
     | Inl (Exception Out_of_range) \<Rightarrow> Inl Undefined
     | Inl _ \<Rightarrow> Inr None))"

definition set_opt :: "('a \<Rightarrow> 'c \<Rightarrow> 'c) \<Rightarrow> 'a option \<Rightarrow> 'c \<Rightarrow> 'c" where
  "set_opt f v c = (case v of None \<Rightarrow> c | Some x \<Rightarrow> f x c)"

definition load_line :: "string \<Rightarrow> LauncherConfig \<Rightarrow> LauncherConfig result" where
  "load_line line c =
     (if str_contains line ''serverName'' then
        rbind (scan_text ''serverName'' 128 line) (\<lambda>v. Inr (set_opt (\<lambda>x c. c\<lparr>server_name := x\<rparr>) v c))
      else if str_contains line ''bindIp'' then
        rbind (scan_text ''bindIp'' 64 line) (\<lambda>v. Inr (set_opt (\<lambda>x c. c\<lparr>bind_ip := x\<rparr>) v c))
      else if str_contains line (''port'' @ [CHR 0x22] @ '':'') then
        rbind (scan_int ''port'' line) (\<lambda>v. Inr (set_opt (\<lambda>x c. c\<lparr>lport := x\<rparr>) v c))
      else if str_contains line ''maxPlayers'' then
        rbind (scan_int ''maxPlayers'' line) (\<lambda>v. Inr (set_opt (\<lambda>x c. c\<lparr>max_players := x\<rparr>) v c))
      else Inr c)"

fun load_lines :: "string list \<Rightarrow> LauncherConfig \<Rightarrow> LauncherConfig result" where
  "load_lines [] c = Inr c"
| "load_lines (s # ss) c = rbind (load_line s c) (load_lines ss)"

definition LoadConfig :: "Launcher \<Rightarrow> Launcher result" where
  "LoadConfig l = (case l_file l of
     None \<Rightarrow> Inr l
   | Some text \<Rightarrow> rbind (load_lines (split_on (CHR 0x0A) text) (lconfig l)) (\<lambda>c. Inr (l\<lparr>lconfig := c\<rparr>)))"

subsection \<open>Server and updates\<close>

definition StartServer :: "bool \<Rightarrow> Launcher \<Rightarrow> Launcher" where
  "StartServer writable l =
     (if l_running l then l
      else let l = SaveConfig writable l;
               l = AppendConsole ''Starting MCX Server...'' ''yellow'' (l\<lparr>l_running := True\<rparr>)
        in l\<lparr>workers := workers l @ [Announcing]\<rparr>)"

definition StopServer :: "Launcher \<Rightarrow> Launcher" where
  "StopServer l =
     (if \<not> l_running l then l
      else AppendConsole ''Server stopped'' ''green'' (AppendConsole ''Stopping server...'' ''yellow'' (l\<lparr>l_running := False\<rparr>)))"

definition launcher_CheckForUpdates :: "Launcher \<Rightarrow> Launcher" where
  "launcher_CheckForUpdates l =
     (if checking_update l then l
      else let l = AppendConsole ''Checking for updates...'' ''yellow''
                     (l\<lparr>checking_update := True, update_progress := 0, update_available := False\<rparr>)
        in l\<lparr>workers := workers l @ [Progress 0]\<rparr>)"

text \<open>
  One turn of a thread: the state it leaves and where it stands next (\<open>None\<close> when it has ended).
  The progress is kept in percent.
\<close>

definition finish_check :: "Launcher \<Rightarrow> Launcher" where
  "finish_check l =
     (let l = l\<lparr>latest_version := ''v0.4.0'', download_url := ''https://github.com/alanparesys/MCX/releases/latest''\<rparr>;
          l = l\<lparr>update_available := (latest_version l \<noteq> LAUNCHER_VERSION)\<rparr>;
          l = (if update_available l then AppendConsole (''Update available: '' @ latest_version l) ''yellow'' l
               else AppendConsole ''Up to date!'' ''green'' l)
      in l\<lparr>checking_update := False\<rparr>)"

fun worker_turn :: "worker \<Rightarrow> Launcher \<Rightarrow> Launcher \<times> worker option" where
  "worker_turn Announcing l =
     (AppendConsole (''Listening on port '' @ show_int (lport (lconfig l))) ''green''
        (AppendConsole ''Server started successfully!'' ''green'' l), Some (Testing 0))"
| "worker_turn (Testing i) l = (l, if i < 5 \<and> l_running l then Some (Sleeping i) else None)"
| "worker_turn (Sleeping i) l =
     (if l_running l then AppendConsole (''Heartbeat '' @ show_nat (i + 1)) ''white'' l else l, Some (Testing (i + 1)))"
| "worker_turn (Progress i) l =
     (if i \<le> 100 \<and> checking_update l then (l\<lparr>update_progress := i\<rparr>, Some (Progress (i + 5)))
      else (finish_check l, None))"

text \<open>The thread at position \<open>k\<close> of the list of the living takes its turn.\<close>

definition run_worker :: "nat \<Rightarrow> Launcher \<Rightarrow> Launcher" where
  "run_worker k l =
     (if k < length (workers l) then
        (case worker_turn (workers l ! k) l of
           (l, Some w) \<Rightarrow> l\<lparr>workers := (workers l)[k := w]\<rparr>
         | (l, None) \<Rightarrow> l\<lparr>workers := take k (workers l) @ drop (Suc k) (workers l)\<rparr>)
      else l)"

subsection \<open>The widgets\<close>

datatype widget =
    Menu_Start | Menu_Stop | Menu_Check | Menu_Exit | Menu_Clear | Menu_Save | Menu_Load | Menu_About
  | Console_Clear | Console_AutoScroll bool | Console_Send string
  | Panel_Start | Panel_Stop | Panel_Restart | Panel_Download | Panel_Check
  | Edit_Name string | Edit_Ip string | Edit_Port int | Edit_Players int | Edit_Demo bool | Edit_AutoUpdate bool
  | Edit_Rcon bool | Edit_RconPort int | Edit_RconPassword string
  | Config_Save | Config_Load | About_Close

definition edit :: "(LauncherConfig \<Rightarrow> LauncherConfig) \<Rightarrow> Launcher \<Rightarrow> Launcher" where
  "edit f l = l\<lparr>lconfig := f (lconfig l)\<rparr>"

text \<open>A text field keeps as many characters as its array holds before the final zero.\<close>

definition menu_click :: "bool \<Rightarrow> widget \<Rightarrow> Launcher \<Rightarrow> Launcher result" where
  "menu_click wr w l = (case w of
     Menu_Start \<Rightarrow> Inr (if \<not> l_running l then StartServer wr l else l)
   | Menu_Stop \<Rightarrow> Inr (if l_running l then StopServer l else l)
   | Menu_Check \<Rightarrow> Inr (launcher_CheckForUpdates l)
   | Menu_Exit \<Rightarrow> Inr (l\<lparr>should_exit := True\<rparr>)
   | Menu_Clear \<Rightarrow> Inr (l\<lparr>console_lines := []\<rparr>)
   | Menu_Save \<Rightarrow> Inr (SaveConfig wr l)
   | Menu_Load \<Rightarrow> LoadConfig l
   | Menu_About \<Rightarrow> Inr (l\<lparr>show_update_dialog := True\<rparr>)
   | _ \<Rightarrow> Inr l)"

definition console_click :: "widget \<Rightarrow> Launcher \<Rightarrow> Launcher" where
  "console_click w l = (case w of
     Console_Clear \<Rightarrow> l\<lparr>console_lines := []\<rparr>
   | Console_AutoScroll b \<Rightarrow> l\<lparr>auto_scroll_console := b\<rparr>
   | Console_Send command \<Rightarrow> (if take 255 command = [] then l else AppendConsole (''> '' @ take 255 command) ''yellow'' l)
   | _ \<Rightarrow> l)"

definition panel_click :: "bool \<Rightarrow> widget \<Rightarrow> Launcher \<Rightarrow> Launcher" where
  "panel_click wr w l = (case w of
     Panel_Start \<Rightarrow> (if \<not> l_running l then StartServer wr l else l)
   | Panel_Stop \<Rightarrow> (if l_running l then StopServer l else l)
   | Panel_Restart \<Rightarrow> StartServer wr (StopServer l)
   | Panel_Download \<Rightarrow> (if \<not> checking_update l \<and> update_available l
      then l\<lparr>l_shell := l_shell l @ [''xdg-open '' @ [CHR 0x22] @ download_url l @ [CHR 0x22]]\<rparr> else l)
   | Panel_Check \<Rightarrow> (if \<not> checking_update l then launcher_CheckForUpdates l else l)
   | _ \<Rightarrow> l)"

definition config_click :: "bool \<Rightarrow> widget \<Rightarrow> Launcher \<Rightarrow> Launcher result" where
  "config_click wr w l = (case w of
     Edit_Name s \<Rightarrow> Inr (edit (\<lambda>c. c\<lparr>server_name := take 127 s\<rparr>) l)
   | Edit_Ip s \<Rightarrow> Inr (edit (\<lambda>c. c\<lparr>bind_ip := take 63 s\<rparr>) l)
   | Edit_Port n \<Rightarrow> Inr (edit (\<lambda>c. c\<lparr>lport := n\<rparr>) l)
   | Edit_Players n \<Rightarrow> Inr (edit (\<lambda>c. c\<lparr>max_players := n\<rparr>) l)
   | Edit_Demo b \<Rightarrow> Inr (edit (\<lambda>c. c\<lparr>demo_mode := b\<rparr>) l)
   | Edit_AutoUpdate b \<Rightarrow> Inr (edit (\<lambda>c. c\<lparr>auto_update := b\<rparr>) l)
   | Edit_Rcon b \<Rightarrow> Inr (edit (\<lambda>c. c\<lparr>rcon_enabled := b\<rparr>) l)
   | Edit_RconPort n \<Rightarrow> Inr (edit (\<lambda>c. c\<lparr>rcon_port := n\<rparr>) l)
   | Edit_RconPassword s \<Rightarrow> Inr (edit (\<lambda>c. c\<lparr>rcon_password := take 127 s\<rparr>) l)
   | Config_Save \<Rightarrow> Inr (AppendConsole ''Configuration saved!'' ''green'' (SaveConfig wr l))
   | Config_Load \<Rightarrow> rmap (AppendConsole ''Configuration loaded!'' ''green'') (LoadConfig l)
   | _ \<Rightarrow> Inr l)"

definition about_click :: "widget \<Rightarrow> Launcher \<Rightarrow> Launcher" where
  "about_click w l = (if w = About_Close \<and> show_update_dialog l then l\<lparr>show_update_dialog := False\<rparr> else l)"

text \<open>\<^verbatim>\<open>RenderUI\<close> goes through the panels in this order; the widget reacts in its own.\<close>

definition RenderUI :: "bool \<Rightarrow> widget \<Rightarrow> Launcher \<Rightarrow> Launcher result" where
  "RenderUI wr w l = rbind (menu_click wr w l) (\<lambda>l.
     rmap (about_click w) (config_click wr w (panel_click wr w (console_click w l))))"

subsection \<open>Life cycle\<close>

definition fresh_Launcher :: "string option \<Rightarrow> Launcher" where
  "fresh_Launcher saved =
     \<lparr>show_update_dialog = False, should_exit = False, console_lines = [], auto_scroll_console = True, l_running = False,
      checking_update = False, update_progress = 0, latest_version = [], download_url = [], update_available = False,
      lconfig = default_LauncherConfig, workers = [], l_file = saved, l_shell = [], l_now = 0\<rparr>"

definition MCXImGuiLauncher_new :: "string option \<Rightarrow> Launcher result" where
  "MCXImGuiLauncher_new saved = LoadConfig (fresh_Launcher saved)"

text \<open>\<open>glfw\<close> and \<open>window\<close> say whether the library and the window could be had.\<close>

definition Initialize :: "bool \<Rightarrow> bool \<Rightarrow> Launcher \<Rightarrow> bool \<times> Launcher \<times> console list" where
  "Initialize glfw window l =
     (if \<not> glfw then (False, l, [Stderr (''Failed to initialize GLFW'' @ nl)])
      else if \<not> window then (False, l, [Stderr (''Failed to create GLFW window'' @ nl)])
      else let l = AppendConsole (''MCX Server Launcher '' @ LAUNCHER_VERSION @ '' started'') ''green'' l;
               l = AppendConsole (''Press '' @ [CHR 0x27] @ ''Check Update'' @ [CHR 0x27] @ '' to find latest version'') ''yellow'' l
        in (True, if auto_update (lconfig l) then launcher_CheckForUpdates l else l, []))"

text \<open>
  What may happen between two frames and in one: the clock, a turn of a thread, a widget. The run
  ends when the exit has been asked for or the window is closed (the end of the list).
\<close>

datatype launcher_event = Clock int | Worker nat | Widget bool widget

fun launcher_exec :: "launcher_event \<Rightarrow> Launcher \<Rightarrow> Launcher result" where
  "launcher_exec (Clock t) l = Inr (l\<lparr>l_now := t\<rparr>)"
| "launcher_exec (Worker k) l = Inr (run_worker k l)"
| "launcher_exec (Widget wr w) l = RenderUI wr w l"

fun launcher_Run :: "launcher_event list \<Rightarrow> Launcher \<Rightarrow> Launcher result" where
  "launcher_Run [] l = Inr l"
| "launcher_Run (e # es) l = (if should_exit l then Inr l else rbind (launcher_exec e l) (launcher_Run es))"

definition Shutdown :: "Launcher \<Rightarrow> Launcher" where
  "Shutdown l = StopServer l"

text \<open>
  The destructor shuts down also when nothing could be initialised; what ImGui and GLFW do then is
  theirs and not of this model.
\<close>

definition RunImGuiLauncher :: "string option \<Rightarrow> bool \<Rightarrow> bool \<Rightarrow> launcher_event list \<Rightarrow> (int \<times> Launcher \<times> console list) result" where
  "RunImGuiLauncher saved glfw window es = rbind (MCXImGuiLauncher_new saved) (\<lambda>l.
     case Initialize glfw window l of
       (False, l, out) \<Rightarrow> Inr (1, Shutdown l, out)
     | (True, l, out) \<Rightarrow> rmap (\<lambda>l. (0, Shutdown l, out)) (launcher_Run es l))"

subsection \<open>The invariant of the launcher\<close>

fun progressing :: "worker \<Rightarrow> bool" where
  "progressing (Progress i) = True"
| "progressing _ = False"

fun worker_ok :: "worker \<Rightarrow> bool" where
  "worker_ok Announcing = True"
| "worker_ok (Testing i) = (i \<le> 5)"
| "worker_ok (Sleeping i) = (i < 5)"
| "worker_ok (Progress i) = (i \<le> 105)"

definition release_page :: string where
  "release_page = ''https://github.com/alanparesys/MCX/releases/latest''"

definition release_command :: string where
  "release_command = ''xdg-open '' @ [CHR 0x22] @ release_page @ [CHR 0x22]"

definition launcher_ok :: "Launcher \<Rightarrow> bool" where
  "launcher_ok l \<longleftrightarrow> length (console_lines l) \<le> 1000
     \<and> length (filter progressing (workers l)) = (if checking_update l then 1 else 0)
     \<and> list_all worker_ok (workers l) \<and> update_progress l \<le> 100
     \<and> (update_available l \<longrightarrow> download_url l = release_page)
     \<and> set (l_shell l) \<subseteq> {release_command}"

text \<open>Appending a line touches the console only, and keeps it within its bound.\<close>

lemma AppendConsole_fields [simp]:
  "workers (AppendConsole s c l) = workers l" "checking_update (AppendConsole s c l) = checking_update l"
  "update_progress (AppendConsole s c l) = update_progress l" "update_available (AppendConsole s c l) = update_available l"
  "download_url (AppendConsole s c l) = download_url l" "latest_version (AppendConsole s c l) = latest_version l"
  "l_shell (AppendConsole s c l) = l_shell l" "l_running (AppendConsole s c l) = l_running l"
  "lconfig (AppendConsole s c l) = lconfig l" "l_file (AppendConsole s c l) = l_file l"
  "should_exit (AppendConsole s c l) = should_exit l" "show_update_dialog (AppendConsole s c l) = show_update_dialog l"
  by (simp_all add: AppendConsole_def Let_def)

lemma AppendConsole_length [simp]:
  "length (console_lines l) \<le> 1000 \<Longrightarrow> length (console_lines (AppendConsole s c l)) \<le> 1000"
  by (simp add: AppendConsole_def Let_def)

lemma AppendConsole_ok [simp]: "launcher_ok l \<Longrightarrow> launcher_ok (AppendConsole s c l)"
  by (simp add: launcher_ok_def)

lemma SaveConfig_ok [simp]: "launcher_ok l \<Longrightarrow> launcher_ok (SaveConfig wr l)"
  by (auto simp: launcher_ok_def SaveConfig_def)

lemma LoadConfig_ok: "launcher_ok l \<Longrightarrow> LoadConfig l = Inr l' \<Longrightarrow> launcher_ok l'"
  by (auto simp: LoadConfig_def rbind_Inr_iff launcher_ok_def split: option.splits)

lemma StartServer_ok [simp]: "launcher_ok l \<Longrightarrow> launcher_ok (StartServer wr l)"
  by (auto simp: StartServer_def Let_def launcher_ok_def SaveConfig_def)

lemma StopServer_ok [simp]: "launcher_ok l \<Longrightarrow> launcher_ok (StopServer l)"
  by (auto simp: StopServer_def launcher_ok_def)

lemma CheckForUpdates_ok [simp]: "launcher_ok l \<Longrightarrow> launcher_ok (launcher_CheckForUpdates l)"
  by (auto simp: launcher_CheckForUpdates_def Let_def launcher_ok_def)

lemma finish_check_fields [simp]:
  "workers (finish_check l) = workers l" "l_shell (finish_check l) = l_shell l" "update_progress (finish_check l) = update_progress l"
  "\<not> checking_update (finish_check l)" "download_url (finish_check l) = release_page" "update_available (finish_check l)"
  "l_running (finish_check l) = l_running l"
  by (simp_all add: finish_check_def Let_def release_page_def LAUNCHER_VERSION_def)

lemma finish_check_console: "length (console_lines l) \<le> 1000 \<Longrightarrow> length (console_lines (finish_check l)) \<le> 1000"
  by (simp add: finish_check_def Let_def)

lemma worker_turn_workers: "workers (fst (worker_turn w l)) = workers l"
  by (cases "(w, l)" rule: worker_turn.cases) auto

lemma run_worker_split:
  assumes "workers l = as @ w # bs" "worker_turn w l = (l', next)"
  shows "run_worker (length as) l = l'\<lparr>workers := as @ (case next of None \<Rightarrow> [] | Some w' \<Rightarrow> [w']) @ bs\<rparr>"
proof -
  have "workers l' = as @ w # bs"
    using worker_turn_workers [of w l] assms by simp
  then show ?thesis
    using assms by (simp add: run_worker_def split: option.split)
qed

lemma run_worker_ok:
  assumes "launcher_ok l"
  shows "launcher_ok (run_worker k l)"
proof (cases "k < length (workers l)")
  case True
  obtain as w bs where ws: "workers l = as @ w # bs" "length as = k"
    using id_take_nth_drop [OF True] True by (metis length_take min.absorb4)
  obtain l' nx where t: "worker_turn w l = (l', nx)" by fastforce
  have run: "run_worker k l = l'\<lparr>workers := as @ (case nx of None \<Rightarrow> [] | Some w' \<Rightarrow> [w']) @ bs\<rparr>"
    using run_worker_split [OF ws(1) t] ws(2) by simp
  have ok: "worker_ok w" "list_all worker_ok (as @ bs)"
    using assms ws by (simp_all add: launcher_ok_def)
  show ?thesis
  proof (cases w)
    case Announcing
    then show ?thesis using assms t ws unfolding run by (auto simp: launcher_ok_def)
  next
    case (Testing i)
    then show ?thesis using assms t ws unfolding run by (auto simp: launcher_ok_def split: if_splits)
  next
    case (Sleeping i)
    then show ?thesis using assms t ws unfolding run by (auto simp: launcher_ok_def split: if_splits)
  next
    case (Progress i)
    then have one: "checking_update l" "filter progressing as = []" "filter progressing bs = []"
      using assms ws by (auto simp: launcher_ok_def split: if_splits)
    show ?thesis
    proof (cases "i \<le> 100")
      case True
      then have "l' = l\<lparr>update_progress := i\<rparr>" "nx = Some (Progress (i + 5))" using t Progress one by auto
      then show ?thesis using assms ws one True unfolding run by (simp add: launcher_ok_def)
    next
      case False
      then have "l' = finish_check l" "nx = None" using t Progress one by auto
      then show ?thesis using assms ws one ok unfolding run by (simp add: launcher_ok_def finish_check_console)
    qed
  qed
qed (simp add: run_worker_def assms)

lemma menu_click_ok: "launcher_ok l \<Longrightarrow> menu_click wr w l = Inr l' \<Longrightarrow> launcher_ok l'"
  by (cases w) (auto simp: menu_click_def LoadConfig_ok split: if_splits, auto simp: launcher_ok_def)

lemma console_click_ok: "launcher_ok l \<Longrightarrow> launcher_ok (console_click w l)"
  by (cases w) (auto simp: console_click_def, auto simp: launcher_ok_def)

lemma panel_click_ok: "launcher_ok l \<Longrightarrow> launcher_ok (panel_click wr w l)"
  by (cases w) (auto simp: panel_click_def, auto simp: launcher_ok_def release_command_def)

lemma config_click_ok: "launcher_ok l \<Longrightarrow> config_click wr w l = Inr l' \<Longrightarrow> launcher_ok l'"
  by (cases w) (auto simp: config_click_def rmap_Inr_iff LoadConfig_ok, auto simp: launcher_ok_def edit_def)

lemma about_click_ok: "launcher_ok l \<Longrightarrow> launcher_ok (about_click w l)"
  by (auto simp: about_click_def launcher_ok_def)

lemma RenderUI_ok:
  assumes "launcher_ok l" "RenderUI wr w l = Inr l'"
  shows "launcher_ok l'"
proof -
  obtain l1 l2 where "menu_click wr w l = Inr l1" "config_click wr w (panel_click wr w (console_click w l1)) = Inr l2"
    "l' = about_click w l2"
    using assms(2) by (auto simp: RenderUI_def rbind_Inr_iff rmap_Inr_iff)
  then show ?thesis
    using assms(1) menu_click_ok console_click_ok panel_click_ok config_click_ok about_click_ok by blast
qed

lemma launcher_exec_ok:
  assumes "launcher_exec e l = Inr l'" "launcher_ok l"
  shows "launcher_ok l'"
proof (cases e)
  case (Clock t)
  then show ?thesis using assms by (auto simp: launcher_ok_def)
next
  case (Worker k)
  then show ?thesis using assms run_worker_ok by auto
next
  case (Widget wr w)
  then show ?thesis using assms RenderUI_ok by auto
qed

text \<open>The runs of the launcher as a step relation, from every start.\<close>

inductive launcher_step :: "Launcher \<Rightarrow> Launcher \<Rightarrow> bool" where
  step: "\<not> should_exit l \<Longrightarrow> launcher_exec e l = Inr l' \<Longrightarrow> launcher_step l l'"

inductive_cases launcher_stepE: "launcher_step l l'"

definition launcher_start :: "Launcher \<Rightarrow> bool" where
  "launcher_start l \<longleftrightarrow> (\<exists>saved l0 glfw window out. MCXImGuiLauncher_new saved = Inr l0 \<and> Initialize glfw window l0 = (True, l, out))"

lemma launcher_start_ok: "launcher_start l \<Longrightarrow> launcher_ok l"
proof -
  assume "launcher_start l"
  then obtain saved l0 glfw window out where s: "MCXImGuiLauncher_new saved = Inr l0" "Initialize glfw window l0 = (True, l, out)"
    by (auto simp: launcher_start_def)
  have "launcher_ok l0"
    by (rule LoadConfig_ok [OF _ s(1) [unfolded MCXImGuiLauncher_new_def]]) (simp add: launcher_ok_def fresh_Launcher_def)
  then show "launcher_ok l" using s(2) by (auto simp: Initialize_def Let_def split: if_splits)
qed

interpretation launcher: invariant_steps launcher_start launcher_step launcher_ok
  by unfold_locales (auto intro: launcher_start_ok launcher_exec_ok elim: launcher_stepE)

lemma launcher_Run_steps: "launcher_Run es l = Inr l' \<Longrightarrow> launcher_step\<^sup>*\<^sup>* l l'"
proof (induction es arbitrary: l)
  case Nil
  then show ?case by simp
next
  case (Cons e es)
  show ?case
  proof (cases "should_exit l")
    case True
    then show ?thesis using Cons.prems by simp
  next
    case False
    then obtain l1 where "launcher_exec e l = Inr l1" "launcher_Run es l1 = Inr l'"
      using Cons.prems by (auto simp: rbind_Inr_iff)
    then show ?thesis
      using False Cons.IH by (meson converse_rtranclp_into_rtranclp step)
  qed
qed

text \<open>
  Whatever the saved file held, the user does and the threads interleave: the console never has
  more than 1000 lines, there is one update thread while a check is under way and none otherwise,
  no server thread beats more than five times, the progress stays within 100 percent, and the
  only command the launcher ever gives to the shell opens the release page.
\<close>

theorem launcher_invariant:
  assumes "MCXImGuiLauncher_new saved = Inr l0" "Initialize True True l0 = (ok, l1, out)" "launcher_Run es l1 = Inr l"
  shows "length (console_lines l) \<le> 1000
     \<and> length (filter progressing (workers l)) = (if checking_update l then 1 else 0)
     \<and> (\<forall>w \<in> set (workers l). worker_ok w) \<and> update_progress l \<le> 100
     \<and> set (l_shell l) \<subseteq> {''xdg-open '' @ [CHR 0x22] @ ''https://github.com/alanparesys/MCX/releases/latest'' @ [CHR 0x22]}"
proof -
  have "ok" using assms(2) by (auto simp: Initialize_def Let_def)
  then have "launcher_start l1"
    using assms(1,2) unfolding launcher_start_def by (metis (full_types))
  then have "launcher_ok l"
    using launcher.reachable_inv launcher_Run_steps [OF assms(3)] by blast
  then show ?thesis
    by (simp add: launcher_ok_def list_all_iff release_command_def release_page_def)
qed

text \<open>One check that comes to its end, and a click on the download button.\<close>

theorem launcher_invariant_witness:
  "\<exists>l0 l1 l. MCXImGuiLauncher_new None = Inr l0 \<and> Initialize True True l0 = (True, l1, [])
     \<and> launcher_Run (replicate 22 (Worker 0) @ [Widget True Panel_Download]) l1 = Inr l
     \<and> length (l_shell l) = 1 \<and> workers l = []
     \<and> set (l_shell l) \<subseteq> {''xdg-open '' @ [CHR 0x22] @ ''https://github.com/alanparesys/MCX/releases/latest'' @ [CHR 0x22]}"
proof -
  let ?l1 = "fst (snd (Initialize True True (fresh_Launcher None)))"
  have 1: "MCXImGuiLauncher_new None = Inr (fresh_Launcher None)"
    by (simp add: MCXImGuiLauncher_new_def LoadConfig_def fresh_Launcher_def)
  have 2: "Initialize True True (fresh_Launcher None) = (True, ?l1, [])"
    by (simp add: Initialize_def Let_def)
  have "case launcher_Run (replicate 22 (Worker 0) @ [Widget True Panel_Download]) ?l1 of
      Inr l \<Rightarrow> length (l_shell l) = 1 \<and> workers l = [] | Inl _ \<Rightarrow> False"
    by code_simp
  then obtain l where 3: "launcher_Run (replicate 22 (Worker 0) @ [Widget True Panel_Download]) ?l1 = Inr l"
    "length (l_shell l) = 1" "workers l = []"
    by (auto split: sum.splits)
  with 1 2 launcher_invariant [OF 1 2 3(1)] show ?thesis by blast
qed

subsection \<open>What the configuration file gives back\<close>

text \<open>The formats begin with a star, which no line that is written has.\<close>

lemma scan_star:
  "scan_format ('' *'' @ f) s = (case dropWhile is_space s of [] \<Rightarrow> None | c # cs \<Rightarrow> if c = CHR ''*'' then scan_format f cs else None)"
proof -
  have "is_space (CHR '' '')" "\<not> is_space (CHR ''*'')" by code_simp+
  then show ?thesis by simp
qed

lemma scan_needs_star:
  assumes "dropWhile is_space s = [] \<or> hd (dropWhile is_space s) \<noteq> CHR ''*''"
  shows "scan_format ('' *'' @ f) s = None"
proof -
  obtain u where u: "dropWhile is_space s = u" by simp
  show ?thesis using assms unfolding scan_star u by (cases u) auto
qed

lemma load_line_no_star:
  assumes "dropWhile is_space s = [] \<or> hd (dropWhile is_space s) \<noteq> CHR ''*''"
  shows "load_line s c = Inr c"
proof -
  have "scan_format (key_format key @ f) s = None" for key f
    using scan_needs_star [OF assms, of "'' '' @ [CHR 0x22] @ key @ [CHR 0x22] @ '': '' @ f"] by (simp add: key_format_def)
  from this [of _ "[CHR 0x22]"] this [of _ "[]"]
  have "scan_text key n s = Inr None" "scan_int key s = Inr None" for key n
    by (simp_all add: scan_text_def scan_int_def)
  then show ?thesis by (simp add: load_line_def set_opt_def)
qed

lemma load_lines_no_star:
  "\<forall>s \<in> set ss. dropWhile is_space s = [] \<or> hd (dropWhile is_space s) \<noteq> CHR ''*'' \<Longrightarrow> load_lines ss c = Inr c"
  by (induction ss) (auto simp: load_line_no_star)

lemma split_on_lines:
  "\<forall>s \<in> set ss. d \<notin> set s \<Longrightarrow> split_on d (concat (map (\<lambda>s. s @ [d]) ss)) = ss"
  by (induction ss) (auto simp: split_on_sep)

lemma dropWhile_json_line: "dropWhile is_space (json_line key v @ rest) = CHR 0x22 # key @ CHR 0x22 # '': '' @ v @ rest"
  by (simp add: json_line_def is_space_def)

definition starless :: "string \<Rightarrow> bool" where
  "starless s \<longleftrightarrow> hd (dropWhile is_space s) \<noteq> CHR ''*''"

lemma starless_json_line: "starless (json_line key v)" "starless (json_line key v @ rest)"
  using dropWhile_json_line [of key v "[]"] dropWhile_json_line [of key v rest] by (simp_all add: starless_def)

lemma written_lines: "list_all starless (config_lines c)"
proof -
  have "starless ''{''" "starless ''}''" by code_simp+
  then show ?thesis
    by (simp only: config_lines_def list.pred_inject starless_json_line simp_thms)
qed

definition one_line :: "string \<Rightarrow> bool" where
  "one_line s \<longleftrightarrow> CHR 0x0A \<notin> set s"

lemma one_line_simps: "one_line []" "one_line (x # s) \<longleftrightarrow> x \<noteq> CHR 0x0A \<and> one_line s" "one_line (s @ u) \<longleftrightarrow> one_line s \<and> one_line u"
  by (auto simp: one_line_def)

lemma one_line_show_int: "one_line (show_int n)"
  using show_nat_digits [of "CHR 0x0A"] by (auto simp: one_line_def show_int_def is_digit_def)

lemma one_line_json:
  "one_line (json_line key v) \<longleftrightarrow> one_line key \<and> one_line v" "one_line (json_text s) \<longleftrightarrow> one_line s" "one_line (json_bool b)"
  by (auto simp: json_line_def json_text_def json_bool_def one_line_simps)

lemma one_line_written:
  "one_line (server_name c) \<Longrightarrow> one_line (bind_ip c) \<Longrightarrow> one_line (rcon_password c) \<Longrightarrow> list_all one_line (config_lines c)"
  by (simp add: config_lines_def one_line_json one_line_show_int one_line_simps)

text \<open>
  C36. Saving and loading restores nothing: whatever is changed between the two, loading the file that
  was written leaves every setting as it is, because the formats of the loader never match what
  the writer writes.
\<close>

theorem load_config_restores_nothing:
  assumes "one_line (server_name (lconfig l))" "one_line (bind_ip (lconfig l))" "one_line (rcon_password (lconfig l))"
  shows "LoadConfig (edit f (SaveConfig True l)) = Inr (edit f (SaveConfig True l))"
proof -
  have "split_on (CHR 0x0A) (concat (map (\<lambda>s. s @ nl) (config_lines (lconfig l)))) = config_lines (lconfig l)"
    using split_on_lines [of "config_lines (lconfig l)"] one_line_written [OF assms]
    by (simp add: nl_def list_all_iff one_line_def)
  then show ?thesis
    using load_lines_no_star [of "config_lines (lconfig l)"] written_lines [of "lconfig l"]
    by (simp add: LoadConfig_def edit_def SaveConfig_def list_all_iff starless_def)
qed

theorem load_config_restores_nothing_witness:
  "\<exists>l. LoadConfig (edit (\<lambda>c. c\<lparr>lport := 1\<rparr>) (SaveConfig True (fresh_Launcher None))) = Inr l \<and> lport (lconfig l) = 1
     \<and> l_file l \<noteq> None \<and> lport (lconfig (fresh_Launcher None)) = 25565"
proof -
  have "one_line (server_name (lconfig (fresh_Launcher None)))" "one_line (bind_ip (lconfig (fresh_Launcher None)))"
    "one_line (rcon_password (lconfig (fresh_Launcher None)))"
    by (simp_all add: one_line_def fresh_Launcher_def default_LauncherConfig_def)
  from load_config_restores_nothing [OF this, of "\<lambda>c. c\<lparr>lport := 1\<rparr>"] show ?thesis
    by (simp add: edit_def SaveConfig_def fresh_Launcher_def default_LauncherConfig_def)
qed

text \<open>
  A server thread that still sleeps when the server is stopped and started again goes on beating
  beside the new one: the flag it tests is set again.
\<close>

lemma restart_revives_old_thread:
  assumes "workers l = [Sleeping i]" "l_running l"
  shows "workers (run_worker 0 (panel_click True Panel_Restart l)) = [Testing (i + 1), Announcing]
    \<and> run_worker 0 (panel_click True Panel_Restart l) =
        (AppendConsole (''Heartbeat '' @ show_nat (i + 1)) ''white'' (panel_click True Panel_Restart l))
          \<lparr>workers := [Testing (i + 1), Announcing]\<rparr>"
proof -
  let ?l = "panel_click True Panel_Restart l"
  have "workers ?l = [] @ Sleeping i # [Announcing]" "l_running ?l"
    using assms by (simp_all add: panel_click_def StartServer_def StopServer_def SaveConfig_def Let_def)
  then show ?thesis
    using run_worker_split [of ?l "[]" "Sleeping i" "[Announcing]"] by simp
qed

subsection \<open>What the panels show\<close>

text \<open>The bullet of the menu bar and the signs of the update line in UTF-8.\<close>

definition utf8 :: "nat list \<Rightarrow> string" where
  "utf8 bytes = map (\<lambda>b. char_of b) bytes"

definition menu_status :: "Launcher \<Rightarrow> string" where
  "menu_status l = utf8 [0xE2, 0x97, 0x8F] @ (if l_running l then '' Running | '' else '' Stopped | '') @ LAUNCHER_VERSION"

definition update_section :: "Launcher \<Rightarrow> string" where
  "update_section l =
     (if checking_update l then ''Checking for updates...''
      else if update_available l then utf8 [0xE2, 0x9A, 0xA0] @ '' Update available: '' @ latest_version l
      else utf8 [0xE2, 0x9C, 0x93] @ '' Up to date ('' @ LAUNCHER_VERSION @ '')'')"

definition quick_stats :: "Launcher \<Rightarrow> string list" where
  "quick_stats l = [''Players: 0/'' @ show_int (max_players (lconfig l)), ''Port: '' @ show_int (lport (lconfig l)),
     ''Mode: '' @ (if demo_mode (lconfig l) then ''Demo'' else ''Production'')]"

text \<open>
  The menu bar tells a running server from a stopped one, whatever else the state is; the line of the players shows
  none, whatever the server does, since it depends on the configuration only.
\<close>

lemma menu_status_tells: "menu_status l = menu_status l' \<longleftrightarrow> l_running l = l_running l'"
  by (simp add: menu_status_def)

lemma quick_stats_of_config: "lconfig l = lconfig l' \<Longrightarrow> quick_stats l = quick_stats l'"
  by (simp add: quick_stats_def)

end
