(* ===== verification/MCX_QtLauncher.thy ===== *)
theory MCX_QtLauncher
  imports MCX_Strings
begin

text \<open>
  The Qt launcher (\<^verbatim>\<open>launcher/mcx_launcher.cpp\<close>) without its layout and style: the state of
  the widgets, the stored settings, the server process, the menu with its shortcuts, and the slots.
  The process, the dialogues and the clock are seen through what they answer, which the events of a
  run carry. Text is a string of characters of one byte, of which \<open>trimmed\<close> knows the spaces of
  ASCII; a line of the console is one block, as it is when the text holds no tag of HTML that opens
  another; output that arrives while a slot waits for the process is an event before or after it.
\<close>

subsection \<open>State\<close>

record Widgets =
  serverNameEdit :: string
  bindIpEdit :: string
  portSpin :: int
  maxPlayersSpin :: int
  demoModeCheck :: bool
  autoUpdateCheck :: bool
  rconEnabledCheck :: bool
  rconPortSpin :: int
  rconPasswordEdit :: string

text \<open>\<open>q_process\<close> holds the arguments of the process while it is alive.\<close>

record QtLauncher =
  widgets :: Widgets
  q_console :: "string list"
  statusLabel :: string
  startEnabled :: bool
  stopEnabled :: bool
  restartEnabled :: bool
  updateEnabled :: bool
  progressVisible :: bool
  progressMax :: int
  progressValue :: int
  checks :: nat
  timers :: nat
  q_process :: "string list option"
  isServerRunning :: bool
  settings :: "(string, string) umap"
  q_opened :: "string list"
  q_boxes :: "string list"
  q_clock :: string
  q_closed :: bool

definition currentVersion :: string where "currentVersion = ''v0.2.0''"

text \<open>A spin box forces its value into its range.\<close>

definition clamp :: "int \<Rightarrow> int \<Rightarrow> int \<Rightarrow> int" where
  "clamp lo hi n = (if n < lo then lo else if hi < n then hi else n)"

definition set_portSpin :: "int \<Rightarrow> Widgets \<Rightarrow> Widgets" where
  "set_portSpin n w = w\<lparr>portSpin := clamp 1 65535 n\<rparr>"

definition set_maxPlayersSpin :: "int \<Rightarrow> Widgets \<Rightarrow> Widgets" where
  "set_maxPlayersSpin n w = w\<lparr>maxPlayersSpin := clamp 1 1000 n\<rparr>"

definition set_rconPortSpin :: "int \<Rightarrow> Widgets \<Rightarrow> Widgets" where
  "set_rconPortSpin n w = w\<lparr>rconPortSpin := clamp 1 65535 n\<rparr>"

text \<open>The widgets as they are set up.\<close>

definition initial_Widgets :: Widgets where
  "initial_Widgets = \<lparr>serverNameEdit = ''MCX Server'', bindIpEdit = ''0.0.0.0'', portSpin = 25565, maxPlayersSpin = 50,
     demoModeCheck = False, autoUpdateCheck = True, rconEnabledCheck = True, rconPortSpin = 25575,
     rconPasswordEdit = ''mcx-password-123''\<rparr>"

subsection \<open>The console\<close>

text \<open>
  The text is put into the line of HTML as it is; the widget keeps the last ten thousand blocks.
\<close>

definition html_line :: "string \<Rightarrow> string \<Rightarrow> string \<Rightarrow> string" where
  "html_line color timestamp text =
     ''<span style='' @ [CHR 0x27] @ ''color:'' @ color @ '';'' @ [CHR 0x27] @ ''>'' @ timestamp @ text @ ''</span>''"

definition appendToConsole :: "string \<Rightarrow> string \<Rightarrow> QtLauncher \<Rightarrow> QtLauncher" where
  "appendToConsole text color q =
     (let ls = q_console q @ [html_line color (q_clock q) text] in q\<lparr>q_console := drop (length ls - 10000) ls\<rparr>)"

definition onClearConsole :: "QtLauncher \<Rightarrow> QtLauncher" where
  "onClearConsole q = q\<lparr>q_console := []\<rparr>"

definition trimmed :: "string \<Rightarrow> string" where
  "trimmed s = rev (dropWhile is_space (rev (dropWhile is_space s)))"

subsection \<open>Settings\<close>

text \<open>
  \<^verbatim>\<open>QSettings\<close> stores the text of a value; \<^verbatim>\<open>toInt\<close> of a text that is no number is zero, and
  \<^verbatim>\<open>toBool\<close> is false for the empty text, \<open>0\<close> and \<open>false\<close> only.
\<close>

definition bool_text :: "bool \<Rightarrow> string" where
  "bool_text b = (if b then ''true'' else ''false'')"

definition toBool :: "string \<Rightarrow> bool" where
  "toBool s \<longleftrightarrow> map to_lower s \<notin> {[], ''0'', ''false''}"

definition toInt :: "string \<Rightarrow> int" where
  "toInt s = (let (neg, ds) = stoi_sign (trimmed s); v = (if neg then - int (read_digits ds) else int (read_digits ds))
     in if ds \<noteq> [] \<and> list_all is_digit ds \<and> in_int v then v else 0)"

definition setting :: "QtLauncher \<Rightarrow> string \<Rightarrow> string \<Rightarrow> string" where
  "setting q key d = (case fmlookup (settings q) key of None \<Rightarrow> d | Some v \<Rightarrow> v)"

definition saved_settings :: "Widgets \<Rightarrow> (string, string) umap \<Rightarrow> (string, string) umap" where
  "saved_settings w s =
     fmupd ''rconPassword'' (rconPasswordEdit w) (fmupd ''rconPort'' (show_int (rconPortSpin w))
     (fmupd ''rconEnabled'' (bool_text (rconEnabledCheck w)) (fmupd ''autoUpdate'' (bool_text (autoUpdateCheck w))
     (fmupd ''demoMode'' (bool_text (demoModeCheck w)) (fmupd ''maxPlayers'' (show_int (maxPlayersSpin w))
     (fmupd ''port'' (show_int (portSpin w)) (fmupd ''bindIp'' (bindIpEdit w) (fmupd ''serverName'' (serverNameEdit w) s))))))))"

definition onSaveConfig :: "QtLauncher \<Rightarrow> QtLauncher" where
  "onSaveConfig q = (let q = q\<lparr>settings := saved_settings (widgets q) (settings q)\<rparr>
     in (appendToConsole ''Configuration saved!'' ''green'' q)\<lparr>statusLabel := ''Configuration saved''\<rparr>)"

definition loaded_widgets :: "QtLauncher \<Rightarrow> Widgets" where
  "loaded_widgets q =
     (let w = (widgets q)\<lparr>serverNameEdit := setting q ''serverName'' ''MCX Server'', bindIpEdit := setting q ''bindIp'' ''0.0.0.0''\<rparr>;
          w = set_portSpin (toInt (setting q ''port'' ''25565'')) w;
          w = set_maxPlayersSpin (toInt (setting q ''maxPlayers'' ''50'')) w;
          w = w\<lparr>demoModeCheck := toBool (setting q ''demoMode'' ''false''), autoUpdateCheck := toBool (setting q ''autoUpdate'' ''true''),
                rconEnabledCheck := toBool (setting q ''rconEnabled'' ''true'')\<rparr>;
          w = set_rconPortSpin (toInt (setting q ''rconPort'' ''25575'')) w
      in w\<lparr>rconPasswordEdit := setting q ''rconPassword'' ''mcx-password-123''\<rparr>)"

definition onLoadConfig :: "QtLauncher \<Rightarrow> QtLauncher" where
  "onLoadConfig q = appendToConsole ''Configuration loaded!'' ''green'' (q\<lparr>widgets := loaded_widgets q\<rparr>)"

definition loadSettings :: "QtLauncher \<Rightarrow> QtLauncher" where
  "loadSettings q = onLoadConfig q"

definition saveSettings :: "QtLauncher \<Rightarrow> QtLauncher" where
  "saveSettings q = onSaveConfig q"

subsection \<open>The server process\<close>

definition server_args :: "Widgets \<Rightarrow> string list" where
  "server_args w = (if demoModeCheck w then [''--demo''] else [''--server''])"

text \<open>
  \<^verbatim>\<open>waitForStarted\<close> is true when the process runs; it is false when the process cannot start, but also
  when five seconds have passed and the process is still starting. Starting and setting the arguments of a
  process that is alive is ignored by Qt, with a warning: the old process goes on with its arguments.
\<close>

datatype start_answer = Started | Failed | Timed_out

definition start_process :: "start_answer \<Rightarrow> QtLauncher \<Rightarrow> string list option" where
  "start_process started q = (if started = Failed then None
     else case q_process q of None \<Rightarrow> Some (server_args (widgets q)) | Some args \<Rightarrow> Some args)"

definition onStartServer :: "start_answer \<Rightarrow> QtLauncher \<Rightarrow> QtLauncher" where
  "onStartServer started q =
     (if isServerRunning q then q
      else let q = onSaveConfig (appendToConsole ''Starting MCX Server...'' ''yellow'' q) in
        let q = q\<lparr>q_process := start_process started q\<rparr> in
        if started = Started then
          appendToConsole ''Server started successfully!'' ''green''
            (q\<lparr>isServerRunning := True, startEnabled := False, stopEnabled := True,
               restartEnabled := True, statusLabel := ''Server Running''\<rparr>)
        else (appendToConsole ''Failed to start server!'' ''red'' q)\<lparr>q_boxes := q_boxes q @ [''Error'']\<rparr>)"

definition onServerFinished :: "int \<Rightarrow> QtLauncher \<Rightarrow> QtLauncher" where
  "onServerFinished exitCode q =
     (appendToConsole (''Server stopped (exit code: '' @ show_int exitCode @ '')'') (if exitCode = 0 then ''green'' else ''red'')
        (q\<lparr>isServerRunning := False, startEnabled := True, stopEnabled := False, restartEnabled := False\<rparr>))
     \<lparr>statusLabel := ''Server Stopped''\<rparr>"

text \<open>
  The process ends: Qt emits \<^verbatim>\<open>finished\<close>, also from within \<^verbatim>\<open>waitForFinished\<close>. \<open>finished\<close> is
  the exit code when the process ends within the five seconds of the wait, else it is killed and
  ends later.
\<close>

definition process_ends :: "int \<Rightarrow> QtLauncher \<Rightarrow> QtLauncher" where
  "process_ends exitCode q = onServerFinished exitCode (q\<lparr>q_process := None\<rparr>)"

definition onStopServer :: "int option \<Rightarrow> QtLauncher \<Rightarrow> QtLauncher" where
  "onStopServer finished q =
     (if \<not> isServerRunning q then q
      else let q = appendToConsole ''Stopping server...'' ''yellow'' q in
        case finished of Some exitCode \<Rightarrow> process_ends exitCode q | None \<Rightarrow> q)"

text \<open>The start after a restart comes from a timer of one second.\<close>

definition onRestartServer :: "int option \<Rightarrow> QtLauncher \<Rightarrow> QtLauncher" where
  "onRestartServer finished q = (let q = onStopServer finished q in q\<lparr>timers := timers q + 1\<rparr>)"

definition onServerOutput :: "string \<Rightarrow> QtLauncher \<Rightarrow> QtLauncher" where
  "onServerOutput data q = appendToConsole (trimmed data) ''white'' q"

definition onServerError :: "string \<Rightarrow> QtLauncher \<Rightarrow> QtLauncher" where
  "onServerError data q = appendToConsole (trimmed data) ''red'' q"

subsection \<open>Updates\<close>

text \<open>
  The bar runs from 0 to a maximum. A value out of the range is ignored, unless the range is empty,
  which stands for a bar that shows no amount; a range without the value resets it to -1.
\<close>

definition progress_setRange :: "int \<Rightarrow> QtLauncher \<Rightarrow> QtLauncher" where
  "progress_setRange maximum q = q\<lparr>progressMax := maximum,
     progressValue := (if 0 \<le> progressValue q \<and> progressValue q \<le> maximum then progressValue q else -1)\<rparr>"

definition onUpdateProgress :: "int \<Rightarrow> QtLauncher \<Rightarrow> QtLauncher" where
  "onUpdateProgress v q = (if 0 \<le> v \<and> v \<le> progressMax q \<or> progressMax q = 0 then q\<lparr>progressValue := v\<rparr> else q)"

definition onCheckUpdate :: "QtLauncher \<Rightarrow> QtLauncher" where
  "onCheckUpdate q = progress_setRange 0 (q\<lparr>statusLabel := ''Checking for updates...'', progressVisible := True, updateEnabled := False,
     checks := checks q + 1\<rparr>)"

definition check_finished :: "QtLauncher \<Rightarrow> QtLauncher" where
  "check_finished q = progress_setRange 100 (q\<lparr>progressVisible := False, statusLabel := ''Ready'', updateEnabled := True, checks := checks q - 1\<rparr>)"

definition startUpdateCheck :: "QtLauncher \<Rightarrow> QtLauncher" where
  "startUpdateCheck q = (if \<not> autoUpdateCheck (widgets q) then q else onCheckUpdate q)"

text \<open>\<open>yes\<close> is the answer to the box.\<close>

definition onUpdateAvailable :: "bool \<Rightarrow> string \<Rightarrow> string \<Rightarrow> QtLauncher \<Rightarrow> QtLauncher" where
  "onUpdateAvailable yes version url q =
     (if version = currentVersion then q\<lparr>q_boxes := q_boxes q @ [''Up to Date'']\<rparr>
      else let q = q\<lparr>q_boxes := q_boxes q @ [''Update Available'']\<rparr> in
        if yes then q\<lparr>q_opened := q_opened q @ [url]\<rparr> else q)"

text \<open>The handler of the update checker, queued to the thread of the window.\<close>

definition update_handler :: "bool \<Rightarrow> bool \<Rightarrow> string \<Rightarrow> string \<Rightarrow> QtLauncher \<Rightarrow> QtLauncher" where
  "update_handler yes available version url q = onUpdateAvailable yes (if available then version else currentVersion) url q"

subsection \<open>Life cycle\<close>

definition setupStatusBar :: "QtLauncher \<Rightarrow> QtLauncher" where
  "setupStatusBar q = q\<lparr>statusLabel := ''Ready - v'' @ currentVersion, progressMax := 100, progressValue := 0, progressVisible := False\<rparr>"

text \<open>
  The window as the constructors of the widgets leave it; a new bar has no value. The timer that
  starts the first check counts among the timers of the window.
\<close>

definition new_window :: "string \<Rightarrow> (string, string) umap \<Rightarrow> QtLauncher" where
  "new_window clk stored =
     \<lparr>widgets = initial_Widgets, q_console = [], statusLabel = [], startEnabled = True, stopEnabled = False,
      restartEnabled = False, updateEnabled = True, progressVisible = True, progressMax = 100, progressValue = -1,
      checks = 0, timers = 0, q_process = None,
      isServerRunning = False, settings = stored, q_opened = [], q_boxes = [], q_clock = clk, q_closed = False\<rparr>"

definition MCXLauncher_new :: "string \<Rightarrow> (string, string) umap \<Rightarrow> QtLauncher" where
  "MCXLauncher_new clk stored = loadSettings (setupStatusBar (new_window clk stored))"

lemmas MCXLauncher_new_defs = MCXLauncher_new_def setupStatusBar_def new_window_def

definition closeEvent :: "bool \<Rightarrow> int option \<Rightarrow> QtLauncher \<Rightarrow> QtLauncher" where
  "closeEvent yes finished q =
     (if isServerRunning q then (if \<not> yes then q else (onStopServer finished q)\<lparr>q_closed := True\<rparr>)
      else q\<lparr>q_closed := True\<rparr>)"

text \<open>The destructor stops a process that is still alive and stores the settings.\<close>

definition MCXLauncher_delete :: "int option \<Rightarrow> QtLauncher \<Rightarrow> QtLauncher" where
  "MCXLauncher_delete finished q = saveSettings
     (case (q_process q, finished) of (Some _, Some exitCode) \<Rightarrow> process_ends exitCode q | _ \<Rightarrow> q)"

subsection \<open>The menu\<close>

datatype slot = Slot_Start | Slot_Stop | Slot_Restart | Slot_Check | Slot_Close | Slot_Clear | Slot_Save | Slot_Load
  | Slot_About | Slot_Documentation

text \<open>The actions in their order, each with the keys that trigger it.\<close>

definition setupMenu :: "(string \<times> slot \<times> string option) list" where
  "setupMenu =
     [(''&Start Server'', Slot_Start, Some ''Ctrl+S''), (''S&top Server'', Slot_Stop, Some ''Ctrl+T''),
      (''&Restart Server'', Slot_Restart, Some ''Ctrl+R''), (''&Check for Updates'', Slot_Check, Some ''Ctrl+U''),
      (''E&xit'', Slot_Close, Some ''Ctrl+Q''),
      (''&Clear Console'', Slot_Clear, Some ''Ctrl+L''), (''&Save Configuration'', Slot_Save, Some ''Ctrl+S''),
      (''&Load Configuration'', Slot_Load, Some ''Ctrl+O''),
      (''&About'', Slot_About, None), (''Online &Documentation'', Slot_Documentation, None)]"

text \<open>Qt triggers the action of a shortcut only when no other enabled action has the same one.\<close>

definition key_slot :: "string \<Rightarrow> slot option" where
  "key_slot key = (case filter (\<lambda>(_, _, k). k = Some key) setupMenu of [(_, s, _)] \<Rightarrow> Some s | _ \<Rightarrow> None)"

definition onAbout :: "QtLauncher \<Rightarrow> QtLauncher" where
  "onAbout q = q\<lparr>q_boxes := q_boxes q @ [''About MCX Launcher'']\<rparr>"

definition documentation_url :: string where
  "documentation_url = ''https://github.com/alanparesys/MCX-docs''"

text \<open>
  What a slot does: \<open>started\<close> is the answer of \<^verbatim>\<open>waitForStarted\<close>, \<open>yes\<close> that of the box it asks,
  \<open>finished\<close> the exit code when the process ends in time.
\<close>

definition run_slot :: "slot \<Rightarrow> start_answer \<Rightarrow> bool \<Rightarrow> int option \<Rightarrow> QtLauncher \<Rightarrow> QtLauncher" where
  "run_slot s started yes finished q =
     (case s of Slot_Start \<Rightarrow> onStartServer started q | Slot_Stop \<Rightarrow> onStopServer finished q
      | Slot_Restart \<Rightarrow> onRestartServer finished q | Slot_Check \<Rightarrow> onCheckUpdate q | Slot_Close \<Rightarrow> closeEvent yes finished q
      | Slot_Clear \<Rightarrow> onClearConsole q | Slot_Save \<Rightarrow> onSaveConfig q | Slot_Load \<Rightarrow> onLoadConfig q
      | Slot_About \<Rightarrow> onAbout q | Slot_Documentation \<Rightarrow> q\<lparr>q_opened := q_opened q @ [documentation_url]\<rparr>)"

definition press :: "string \<Rightarrow> start_answer \<Rightarrow> bool \<Rightarrow> int option \<Rightarrow> QtLauncher \<Rightarrow> QtLauncher" where
  "press key started yes finished q = (case key_slot key of None \<Rightarrow> q | Some s \<Rightarrow> run_slot s started yes finished q)"

text \<open>
  What can happen to the window; a process can only end when it is alive, a check when it runs. A process
  that was still starting may also fail to start after all, of which no slot hears.
\<close>

datatype qt_event =
    Q_Clock string | Q_Slot slot start_answer bool "int option" | Q_Key string start_answer bool "int option" | Q_Timer start_answer
  | Q_Process_ends int | Q_Start_fails
  | Q_Output string | Q_Error string | Q_Start_check | Q_Check_done | Q_Update bool bool string string
  | Q_Edit "Widgets \<Rightarrow> Widgets" | Q_Port int | Q_Players int | Q_RconPort int

text \<open>An edit of the fields other than the spin boxes.\<close>

definition edit_fields :: "(Widgets \<Rightarrow> Widgets) \<Rightarrow> Widgets \<Rightarrow> Widgets" where
  "edit_fields f w = (f w)\<lparr>portSpin := portSpin w, maxPlayersSpin := maxPlayersSpin w, rconPortSpin := rconPortSpin w\<rparr>"

fun qt_exec :: "qt_event \<Rightarrow> QtLauncher \<Rightarrow> QtLauncher" where
  "qt_exec (Q_Clock t) q = q\<lparr>q_clock := t\<rparr>"
| "qt_exec (Q_Slot s started yes finished) q = run_slot s started yes finished q"
| "qt_exec (Q_Key key started yes finished) q = press key started yes finished q"
| "qt_exec (Q_Timer started) q = (if timers q = 0 then q else onStartServer started (q\<lparr>timers := timers q - 1\<rparr>))"
| "qt_exec (Q_Process_ends code) q = (if q_process q = None then q else process_ends code q)"
| "qt_exec Q_Start_fails q = (if isServerRunning q then q else q\<lparr>q_process := None\<rparr>)"
| "qt_exec (Q_Output data) q = onServerOutput data q"
| "qt_exec (Q_Error data) q = onServerError data q"
| "qt_exec Q_Start_check q = startUpdateCheck q"
| "qt_exec Q_Check_done q = (if checks q = 0 then q else check_finished q)"
| "qt_exec (Q_Update yes available version url) q = update_handler yes available version url q"
| "qt_exec (Q_Edit f) q = q\<lparr>widgets := edit_fields f (widgets q)\<rparr>"
| "qt_exec (Q_Port n) q = q\<lparr>widgets := set_portSpin n (widgets q)\<rparr>"
| "qt_exec (Q_Players n) q = q\<lparr>widgets := set_maxPlayersSpin n (widgets q)\<rparr>"
| "qt_exec (Q_RconPort n) q = q\<lparr>widgets := set_rconPortSpin n (widgets q)\<rparr>"

subsection \<open>The invariant of the window\<close>

definition in_ranges :: "Widgets \<Rightarrow> bool" where
  "in_ranges w \<longleftrightarrow> 1 \<le> portSpin w \<and> portSpin w \<le> 65535 \<and> 1 \<le> maxPlayersSpin w \<and> maxPlayersSpin w \<le> 1000
     \<and> 1 \<le> rconPortSpin w \<and> rconPortSpin w \<le> 65535"

definition qt_ok :: "QtLauncher \<Rightarrow> bool" where
  "qt_ok q \<longleftrightarrow> in_ranges (widgets q) \<and> length (q_console q) \<le> 10000
     \<and> (isServerRunning q \<longrightarrow> q_process q \<noteq> None) \<and> startEnabled q = (\<not> isServerRunning q)
     \<and> stopEnabled q = isServerRunning q \<and> restartEnabled q = isServerRunning q"

lemma clamp_range [simp]: "lo \<le> hi \<Longrightarrow> lo \<le> clamp lo hi n \<and> clamp lo hi n \<le> hi"
  by (simp add: clamp_def)

lemma clamp_in [simp]: "lo \<le> n \<Longrightarrow> n \<le> hi \<Longrightarrow> clamp lo hi n = n"
  by (simp add: clamp_def)

lemma set_spins_ranges [simp]:
  "in_ranges w \<Longrightarrow> in_ranges (set_portSpin n w)" "in_ranges w \<Longrightarrow> in_ranges (set_maxPlayersSpin n w)"
  "in_ranges w \<Longrightarrow> in_ranges (set_rconPortSpin n w)" "in_ranges w \<Longrightarrow> in_ranges (edit_fields f w)"
  by (simp_all add: in_ranges_def set_portSpin_def set_maxPlayersSpin_def set_rconPortSpin_def edit_fields_def)

lemma loaded_in_ranges: "in_ranges (loaded_widgets q)"
  by (simp add: in_ranges_def loaded_widgets_def Let_def set_portSpin_def set_maxPlayersSpin_def set_rconPortSpin_def)

lemma appendToConsole_ok [simp]: "qt_ok q \<Longrightarrow> qt_ok (appendToConsole s c q)"
  by (simp add: qt_ok_def appendToConsole_def Let_def)

lemma appendToConsole_fields [simp]:
  "isServerRunning (appendToConsole s c q) = isServerRunning q" "widgets (appendToConsole s c q) = widgets q"
  "settings (appendToConsole s c q) = settings q" "q_process (appendToConsole s c q) = q_process q"
  by (simp_all add: appendToConsole_def Let_def)

lemma appendToConsole_clock [simp]: "q_clock (appendToConsole s c q) = q_clock q"
  by (simp add: appendToConsole_def Let_def)

lemma appendToConsole_last: "last (q_console (appendToConsole s c q)) = html_line c (q_clock q) s"
  by (simp add: appendToConsole_def Let_def)

lemma onSaveConfig_fields [simp]:
  "isServerRunning (onSaveConfig q) = isServerRunning q" "widgets (onSaveConfig q) = widgets q"
  "q_process (onSaveConfig q) = q_process q" "q_clock (onSaveConfig q) = q_clock q"
  by (simp_all add: onSaveConfig_def Let_def)

text \<open>The parts of the state that the invariant does not see.\<close>

lemma qt_ok_unseen [simp]:
  "qt_ok (q\<lparr>statusLabel := s\<rparr>) = qt_ok q" "qt_ok (q\<lparr>settings := m\<rparr>) = qt_ok q" "qt_ok (q\<lparr>q_boxes := b\<rparr>) = qt_ok q"
  "qt_ok (q\<lparr>timers := n\<rparr>) = qt_ok q" "qt_ok (q\<lparr>checks := n\<rparr>) = qt_ok q" "qt_ok (q\<lparr>q_opened := u\<rparr>) = qt_ok q"
  "qt_ok (q\<lparr>q_clock := s\<rparr>) = qt_ok q" "qt_ok (q\<lparr>q_closed := x\<rparr>) = qt_ok q" "qt_ok (q\<lparr>updateEnabled := x\<rparr>) = qt_ok q"
  "qt_ok (q\<lparr>progressVisible := x\<rparr>) = qt_ok q"
  by (simp_all add: qt_ok_def)

lemma onSaveConfig_ok [simp]: "qt_ok q \<Longrightarrow> qt_ok (onSaveConfig q)"
  by (simp add: onSaveConfig_def Let_def)

lemma qt_ok_widgets: "qt_ok q \<Longrightarrow> in_ranges w \<Longrightarrow> qt_ok (q\<lparr>widgets := w\<rparr>)"
  by (simp add: qt_ok_def)

lemma qt_ok_ranges [simp]: "qt_ok q \<Longrightarrow> in_ranges (widgets q)"
  by (simp add: qt_ok_def)

lemma onLoadConfig_ok [simp]: "qt_ok q \<Longrightarrow> qt_ok (onLoadConfig q)"
  by (simp add: onLoadConfig_def qt_ok_widgets loaded_in_ranges)

lemma process_ends_ok: "qt_ok q \<Longrightarrow> qt_ok (process_ends code q)"
  unfolding process_ends_def onServerFinished_def
  by (simp only: qt_ok_unseen) (rule appendToConsole_ok, simp add: qt_ok_def)

lemma onStopServer_ok [simp]: "qt_ok q \<Longrightarrow> qt_ok (onStopServer finished q)"
  by (simp add: onStopServer_def Let_def process_ends_ok split: option.split)

lemma onStartServer_ok [simp]:
  assumes "qt_ok q"
  shows "qt_ok (onStartServer started q)"
proof -
  have "qt_ok (p\<lparr>q_process := Some a, isServerRunning := True, startEnabled := False, stopEnabled := True,
      restartEnabled := True, statusLabel := s\<rparr>)" "\<not> isServerRunning p \<Longrightarrow> qt_ok (p\<lparr>q_process := b\<rparr>)" if "qt_ok p" for p a b s
    using that by (simp_all add: qt_ok_def)
  then show ?thesis using assms by (auto simp: onStartServer_def start_process_def Let_def split: option.split)
qed

lemma progress_setRange_ok [simp]: "qt_ok (progress_setRange m q) \<longleftrightarrow> qt_ok q"
  by (simp add: progress_setRange_def qt_ok_def)

lemma onCheckUpdate_ok [simp]: "qt_ok q \<Longrightarrow> qt_ok (onCheckUpdate q)"
  by (simp add: onCheckUpdate_def)

lemma run_slot_ok [simp]: "qt_ok q \<Longrightarrow> qt_ok (run_slot s started yes finished q)"
  by (cases s) (simp_all add: run_slot_def onRestartServer_def Let_def closeEvent_def onAbout_def,
      simp_all add: onClearConsole_def qt_ok_def)

lemma check_finished_ok [simp]: "qt_ok q \<Longrightarrow> qt_ok (check_finished q)"
  by (simp add: check_finished_def)

lemma qt_ok_no_process: "qt_ok q \<Longrightarrow> \<not> isServerRunning q \<Longrightarrow> qt_ok (q\<lparr>q_process := p\<rparr>)"
  by (simp add: qt_ok_def)

lemma qt_exec_ok: "qt_ok q \<Longrightarrow> qt_ok (qt_exec e q)"
  by (cases e)
    (simp_all add: press_def process_ends_ok qt_ok_no_process onServerOutput_def onServerError_def startUpdateCheck_def
      update_handler_def onUpdateAvailable_def Let_def qt_ok_widgets split: option.split)

interpretation qt: invariant_machine qt_exec qt_ok
  by unfold_locales (rule qt_exec_ok)

lemma MCXLauncher_new_ok: "qt_ok (MCXLauncher_new clk stored)"
  unfolding MCXLauncher_new_defs loadSettings_def
  by (rule onLoadConfig_ok) (simp add: qt_ok_def in_ranges_def initial_Widgets_def)

lemma qt_reachable_ok: "qt_ok (fold qt_exec es (MCXLauncher_new clk stored))"
  by (rule qt.run_inv) (rule MCXLauncher_new_ok)

text \<open>Events in which the launcher does not give up waiting for a process that is still starting.\<close>

fun patient :: "qt_event \<Rightarrow> bool" where
  "patient (Q_Slot s started yes finished) = (started \<noteq> Timed_out)"
| "patient (Q_Key key started yes finished) = (started \<noteq> Timed_out)"
| "patient (Q_Timer started) = (started \<noteq> Timed_out)"
| "patient _ = True"

definition agrees :: "QtLauncher \<Rightarrow> bool" where
  "agrees q \<longleftrightarrow> (isServerRunning q \<longleftrightarrow> q_process q \<noteq> None)"

lemma agrees_console [simp]: "agrees (appendToConsole s c q) = agrees q" "agrees (onSaveConfig q) = agrees q" "agrees (onLoadConfig q) = agrees q"
  by (simp_all add: agrees_def onLoadConfig_def)

lemma agrees_unseen [simp]:
  "agrees (q\<lparr>statusLabel := s\<rparr>) = agrees q" "agrees (q\<lparr>q_boxes := b\<rparr>) = agrees q" "agrees (q\<lparr>timers := n\<rparr>) = agrees q"
  "agrees (q\<lparr>q_opened := u\<rparr>) = agrees q" "agrees (q\<lparr>q_clock := s\<rparr>) = agrees q" "agrees (q\<lparr>q_closed := x\<rparr>) = agrees q"
  "agrees (q\<lparr>widgets := w\<rparr>) = agrees q" "agrees (q\<lparr>q_console := ls\<rparr>) = agrees q"
  by (simp_all add: agrees_def)

lemma agrees_start: "agrees q \<Longrightarrow> started \<noteq> Timed_out \<Longrightarrow> agrees (onStartServer started q)"
  by (cases started) (auto simp: onStartServer_def start_process_def Let_def agrees_def split: option.split)

lemma agrees_stop [simp]: "agrees (process_ends code q)" "agrees q \<Longrightarrow> agrees (onStopServer finished q)"
proof -
  show "agrees (process_ends code q)" for code q by (simp add: process_ends_def onServerFinished_def agrees_def)
  then show "agrees q \<Longrightarrow> agrees (onStopServer finished q)" by (simp add: onStopServer_def Let_def split: option.split)
qed

lemma agrees_check [simp]: "agrees (onCheckUpdate q) = agrees q" "agrees (check_finished q) = agrees q"
  by (simp_all add: onCheckUpdate_def check_finished_def progress_setRange_def agrees_def)

lemma agrees_slot: "agrees q \<Longrightarrow> started \<noteq> Timed_out \<Longrightarrow> agrees (run_slot s started yes finished q)"
  by (cases s) (simp_all add: run_slot_def agrees_start onRestartServer_def Let_def closeEvent_def onAbout_def onClearConsole_def)

lemma agrees_exec: "agrees q \<Longrightarrow> patient e \<Longrightarrow> agrees (qt_exec e q)"
  by (cases e)
    (simp_all add: press_def agrees_slot agrees_start onServerOutput_def onServerError_def startUpdateCheck_def
      update_handler_def onUpdateAvailable_def Let_def split: option.split, simp_all add: agrees_def)

lemma agrees_run: "agrees q \<Longrightarrow> list_all patient es \<Longrightarrow> agrees (fold qt_exec es q)"
  by (induction es arbitrary: q) (simp_all add: agrees_exec)

lemma MCXLauncher_new_agrees: "agrees (MCXLauncher_new clk stored)"
  by (simp add: MCXLauncher_new_defs loadSettings_def) (simp add: agrees_def)

text \<open>
  C38. Whatever was stored, clicked, answered and reported: the three buttons follow the flag, the numbers
  are in their ranges (also those read from the settings) and the console holds at most ten thousand blocks.
  When the flag is set the server process is alive. The converse holds as long as the launcher never
  gave up waiting for a start; a start that takes longer than its five seconds leaves a
  process alive that the launcher takes for failed and refuses to stop.
\<close>

theorem qt_launcher_consistent:
  "let q = fold qt_exec es (MCXLauncher_new clk stored); slow = onStartServer Timed_out q in
     startEnabled q = (\<not> isServerRunning q) \<and> stopEnabled q = isServerRunning q
     \<and> restartEnabled q = isServerRunning q \<and> 1 \<le> portSpin (widgets q) \<and> portSpin (widgets q) \<le> 65535
     \<and> 1 \<le> maxPlayersSpin (widgets q) \<and> maxPlayersSpin (widgets q) \<le> 1000
     \<and> 1 \<le> rconPortSpin (widgets q) \<and> rconPortSpin (widgets q) \<le> 65535 \<and> length (q_console q) \<le> 10000
     \<and> (isServerRunning q \<longrightarrow> q_process q \<noteq> None)
     \<and> (list_all patient es \<longrightarrow> (isServerRunning q \<longleftrightarrow> q_process q \<noteq> None))
     \<and> (\<not> isServerRunning q \<longrightarrow> q_process slow \<noteq> None \<and> \<not> isServerRunning slow \<and> onStopServer finished slow = slow)"
proof -
  let ?q = "fold qt_exec es (MCXLauncher_new clk stored)"
  have "q_process (onStartServer Timed_out ?q) \<noteq> None \<and> \<not> isServerRunning (onStartServer Timed_out ?q)
    \<and> onStopServer finished (onStartServer Timed_out ?q) = onStartServer Timed_out ?q" if "\<not> isServerRunning ?q"
    using that by (auto simp: onStartServer_def start_process_def onStopServer_def Let_def split: option.split)
  then show ?thesis
    using qt_reachable_ok [of es clk stored] agrees_run [OF MCXLauncher_new_agrees, of es clk stored]
    by (simp add: qt_ok_def in_ranges_def agrees_def Let_def)
qed

text \<open>A slow start: the box says that it failed, the start button stays enabled, and the process is there.\<close>

theorem qt_launcher_consistent_witness:
  "let new = MCXLauncher_new ''[12:00:00] '' fmempty; ok = fold qt_exec [Q_Slot Slot_Start Started True None] new;
       slow = onStartServer Timed_out new in
     isServerRunning ok \<and> q_process ok = Some [''--server''] \<and> stopEnabled ok
     \<and> \<not> isServerRunning slow \<and> q_process slow \<noteq> None \<and> onStopServer None slow = slow"
proof -
  let ?new = "MCXLauncher_new ''[12:00:00] '' fmempty"
  let ?es = "[Q_Slot Slot_Start Started True None]"
  have n: "\<not> isServerRunning ?new" by (simp add: MCXLauncher_new_defs loadSettings_def onLoadConfig_def)
  have p: "q_process ?new = None" by (simp add: MCXLauncher_new_defs loadSettings_def onLoadConfig_def)
  have d: "\<not> demoModeCheck (widgets ?new)"
    by (simp add: MCXLauncher_new_defs loadSettings_def onLoadConfig_def loaded_widgets_def Let_def set_rconPortSpin_def setting_def) code_simp
  have r: "isServerRunning (fold qt_exec ?es ?new)" "q_process (fold qt_exec ?es ?new) = Some [''--server'']"
    using n p d by (simp_all add: run_slot_def onStartServer_def start_process_def server_args_def Let_def)
  then have "stopEnabled (fold qt_exec ?es ?new)"
    using qt_launcher_consistent [of ?es "''[12:00:00] ''" fmempty] by (simp add: Let_def)
  with r n show ?thesis
    using qt_launcher_consistent [of "[]" "''[12:00:00] ''" fmempty None] by (simp add: Let_def)
qed

subsection \<open>The progress bar\<close>

text \<open>No event of the window is \<open>onUpdateProgress\<close>: the slot is connected to nothing.\<close>

definition bar_ok :: "QtLauncher \<Rightarrow> bool" where
  "bar_ok q \<longleftrightarrow> progressValue q = 0 \<and> progressMax q = (if progressVisible q then 0 else 100) \<and> updateEnabled q = (\<not> progressVisible q)"

lemma bar_ok_console [simp]: "bar_ok (appendToConsole text color q) \<longleftrightarrow> bar_ok q"
  by (simp add: bar_ok_def appendToConsole_def Let_def)

lemma bar_ok_save [simp]: "bar_ok (onSaveConfig q) \<longleftrightarrow> bar_ok q"
  unfolding onSaveConfig_def Let_def by (simp add: bar_ok_def appendToConsole_def Let_def)

lemma bar_ok_load [simp]: "bar_ok (onLoadConfig q) \<longleftrightarrow> bar_ok q"
  unfolding onLoadConfig_def bar_ok_console by (simp add: bar_ok_def)

lemma bar_ok_unseen [simp]:
  "bar_ok (q\<lparr>q_boxes := bs\<rparr>) \<longleftrightarrow> bar_ok q" "bar_ok (q\<lparr>statusLabel := st\<rparr>) \<longleftrightarrow> bar_ok q" "bar_ok (q\<lparr>timers := n\<rparr>) \<longleftrightarrow> bar_ok q"
  "bar_ok (q\<lparr>q_process := p\<rparr>) \<longleftrightarrow> bar_ok q" "bar_ok (q\<lparr>q_closed := cl\<rparr>) \<longleftrightarrow> bar_ok q" "bar_ok (q\<lparr>q_opened := os\<rparr>) \<longleftrightarrow> bar_ok q"
  "bar_ok (q\<lparr>q_clock := t\<rparr>) \<longleftrightarrow> bar_ok q" "bar_ok (q\<lparr>widgets := w\<rparr>) \<longleftrightarrow> bar_ok q" "bar_ok (q\<lparr>q_console := ls\<rparr>) \<longleftrightarrow> bar_ok q"
  "bar_ok (q\<lparr>isServerRunning := r\<rparr>) \<longleftrightarrow> bar_ok q" "bar_ok (q\<lparr>startEnabled := r\<rparr>) \<longleftrightarrow> bar_ok q"
  "bar_ok (q\<lparr>stopEnabled := r\<rparr>) \<longleftrightarrow> bar_ok q" "bar_ok (q\<lparr>restartEnabled := r\<rparr>) \<longleftrightarrow> bar_ok q"
  by (simp_all add: bar_ok_def)

lemma bar_ok_start [simp]: "bar_ok (onStartServer started q) \<longleftrightarrow> bar_ok q"
  by (simp add: onStartServer_def Let_def)

lemma bar_ok_stop [simp]: "bar_ok (process_ends code q) \<longleftrightarrow> bar_ok q" "bar_ok (onStopServer finished q) \<longleftrightarrow> bar_ok q"
  by (simp_all add: process_ends_def onServerFinished_def onStopServer_def Let_def split: option.split)

lemma bar_ok_check [simp]: "bar_ok q \<Longrightarrow> bar_ok (onCheckUpdate q)" "bar_ok q \<Longrightarrow> bar_ok (check_finished q)"
  by (simp_all add: onCheckUpdate_def check_finished_def progress_setRange_def bar_ok_def)

lemma bar_ok_slot [simp]: "bar_ok q \<Longrightarrow> bar_ok (run_slot s started yes finished q)"
  by (cases s) (simp_all add: run_slot_def onRestartServer_def Let_def closeEvent_def onAbout_def onClearConsole_def)

lemma bar_ok_exec: "bar_ok q \<Longrightarrow> bar_ok (qt_exec e q)"
  by (cases e)
    (simp_all add: press_def onServerOutput_def onServerError_def startUpdateCheck_def update_handler_def onUpdateAvailable_def
      Let_def split: option.split)

interpretation bar: invariant_machine qt_exec bar_ok
  by unfold_locales (rule bar_ok_exec)

lemma MCXLauncher_new_bar_ok: "bar_ok (MCXLauncher_new clk stored)"
  by (simp add: MCXLauncher_new_def loadSettings_def) (simp add: setupStatusBar_def new_window_def bar_ok_def)

text \<open>
  Whatever happens to the window, the bar shows no amount: it is hidden at 0 of 100, or, while the
  button for updates is off, shown without a range.
\<close>

theorem progress_bar_never_moves:
  "let q = fold qt_exec es (MCXLauncher_new clk stored) in
     progressValue q = 0 \<and> progressMax q = (if progressVisible q then 0 else 100) \<and> updateEnabled q = (\<not> progressVisible q)"
  using bar.run_inv [OF MCXLauncher_new_bar_ok, of es clk stored] by (simp add: bar_ok_def Let_def)

text \<open>The slot alone: during a check it takes any value, and one above 100 is gone when the check ends.\<close>

lemma onUpdateProgress_in_check:
  "progressMax q = 0 \<Longrightarrow> 100 < v \<Longrightarrow> progressValue (onUpdateProgress v q) = v \<and> progressValue (check_finished (onUpdateProgress v q)) = -1"
  by (simp add: onUpdateProgress_def check_finished_def progress_setRange_def)

subsection \<open>Settings are restored\<close>

lemma digits_no_space: "list_all is_digit s \<Longrightarrow> dropWhile is_space s = s"
  by (cases s) (auto simp: is_digit_not_space)

lemma trimmed_ends:
  assumes "s \<noteq> []" "\<not> is_space (hd s)" "\<not> is_space (last s)"
  shows "trimmed s = s"
proof -
  have "dropWhile is_space s = s" using assms by (cases s) auto
  moreover have "dropWhile is_space (rev s) = rev s" using assms by (cases s rule: rev_cases) auto
  ultimately show ?thesis by (simp add: trimmed_def)
qed

lemma toInt_show_int:
  assumes "in_int n" "0 \<le> n"
  shows "toInt (show_int n) = n"
proof -
  let ?s = "show_nat (nat n)"
  have d: "list_all is_digit ?s" by (simp add: list_all_iff show_nat_digits)
  have "\<not> is_space (hd ?s)" "\<not> is_space (last ?s)"
    using show_nat_digits [of _ "nat n"] by (simp_all add: is_digit_not_space)
  then have "trimmed ?s = ?s" by (simp add: trimmed_ends)
  moreover have "stoi_sign ?s = (False, ?s)" using stoi_sign_show_nat [of "nat n" "[]"] by simp
  ultimately show ?thesis using assms d by (simp add: toInt_def show_int_def)
qed

lemma toBool_bool_text: "toBool (bool_text b) = b"
  by (cases b; simp only: bool_text_def if_True if_False; code_simp)

lemma spin_restored:
  assumes "1 \<le> n" "n \<le> hi" "hi \<le> 65535"
  shows "clamp 1 hi (toInt (show_int n)) = n"
  using assms by (simp add: toInt_show_int int_range_defs)

lemma setting_saved:
  "settings q = saved_settings w s \<Longrightarrow> setting q ''serverName'' d = serverNameEdit w"
  "settings q = saved_settings w s \<Longrightarrow> setting q ''bindIp'' d = bindIpEdit w"
  "settings q = saved_settings w s \<Longrightarrow> setting q ''port'' d = show_int (portSpin w)"
  "settings q = saved_settings w s \<Longrightarrow> setting q ''maxPlayers'' d = show_int (maxPlayersSpin w)"
  "settings q = saved_settings w s \<Longrightarrow> setting q ''demoMode'' d = bool_text (demoModeCheck w)"
  "settings q = saved_settings w s \<Longrightarrow> setting q ''autoUpdate'' d = bool_text (autoUpdateCheck w)"
  "settings q = saved_settings w s \<Longrightarrow> setting q ''rconEnabled'' d = bool_text (rconEnabledCheck w)"
  "settings q = saved_settings w s \<Longrightarrow> setting q ''rconPort'' d = show_int (rconPortSpin w)"
  "settings q = saved_settings w s \<Longrightarrow> setting q ''rconPassword'' d = rconPasswordEdit w"
  by (simp_all add: setting_def saved_settings_def)

lemma loaded_saved:
  assumes "in_ranges w" "settings q = saved_settings w s"
  shows "loaded_widgets q = w"
  using assms(1)
  by (simp add: loaded_widgets_def setting_saved [OF assms(2)] toBool_bool_text set_portSpin_def set_maxPlayersSpin_def
      set_rconPortSpin_def spin_restored in_ranges_def)

lemma MCXLauncher_delete_settings:
  "widgets (MCXLauncher_delete finished q) = widgets q"
  "settings (MCXLauncher_delete finished q) = saved_settings (widgets q) (settings q)"
  by (simp_all add: MCXLauncher_delete_def saveSettings_def onSaveConfig_def process_ends_def onServerFinished_def Let_def
      split: option.split)

text \<open>
  What the Qt launcher saves it restores: after any history, saving the configuration or leaving
  the launcher, and starting it again on the stored settings, gives exactly the same widgets.
\<close>

theorem qt_settings_roundtrip:
  "let q = fold qt_exec es (MCXLauncher_new clk stored) in
     widgets (MCXLauncher_new clk' (settings (onSaveConfig q))) = widgets q
     \<and> widgets (MCXLauncher_new clk' (settings (MCXLauncher_delete finished q))) = widgets q"
proof -
  let ?q = "fold qt_exec es (MCXLauncher_new clk stored)"
  have "in_ranges (widgets ?q)" using qt_reachable_ok by (simp add: qt_ok_def)
  moreover have "settings (onSaveConfig ?q) = saved_settings (widgets ?q) (settings ?q)"
    by (simp add: onSaveConfig_def Let_def)
  ultimately show ?thesis
    by (simp add: Let_def MCXLauncher_new_defs loadSettings_def onLoadConfig_def loaded_saved MCXLauncher_delete_settings)
qed

subsection \<open>Shortcuts\<close>

text \<open>
  Of the seven key sequences of the menu six trigger their own action. \<^verbatim>\<open>Ctrl+S\<close> is given to
  two actions, to start the server and to save the configuration, and does neither.
\<close>

theorem ctrl_s_does_nothing:
  "press ''Ctrl+S'' started yes finished q = q
   \<and> press ''Ctrl+T'' started yes finished q = onStopServer finished q \<and> press ''Ctrl+R'' started yes finished q = onRestartServer finished q
   \<and> press ''Ctrl+U'' started yes finished q = onCheckUpdate q \<and> press ''Ctrl+Q'' started yes finished q = closeEvent yes finished q
   \<and> press ''Ctrl+L'' started yes finished q = onClearConsole q \<and> press ''Ctrl+O'' started yes finished q = onLoadConfig q"
  by (simp add: press_def key_slot_def setupMenu_def run_slot_def)

text \<open>A second check from the menu: the first to end enables the button while the other runs.\<close>

lemma checks_overlap:
  fixes started yes finished
  defines "check \<equiv> Q_Slot Slot_Check started yes finished"
  shows "updateEnabled (fold qt_exec [check, check, Q_Check_done] q) \<and> \<not> progressVisible (fold qt_exec [check, check, Q_Check_done] q)
    \<and> checks (fold qt_exec [check, check, Q_Check_done] q) = checks q + 1"
  by (simp add: check_def run_slot_def onCheckUpdate_def check_finished_def progress_setRange_def)

subsection \<open>The tool bar\<close>

text \<open>The buttons by their hints, with their slots and whether they are enabled when they are made.\<close>

definition setupToolbar :: "(string \<times> slot \<times> bool) list" where
  "setupToolbar = [(''Start MCX Server'', Slot_Start, True), (''Stop MCX Server'', Slot_Stop, False),
     (''Restart MCX Server'', Slot_Restart, False), (''Check for new version'', Slot_Check, True)]"

definition button_enabled :: "slot \<Rightarrow> QtLauncher \<Rightarrow> bool" where
  "button_enabled s q = (case s of Slot_Start \<Rightarrow> startEnabled q | Slot_Stop \<Rightarrow> stopEnabled q
     | Slot_Restart \<Rightarrow> restartEnabled q | Slot_Check \<Rightarrow> updateEnabled q | _ \<Rightarrow> True)"

definition click_button :: "slot \<Rightarrow> start_answer \<Rightarrow> bool \<Rightarrow> int option \<Rightarrow> QtLauncher \<Rightarrow> QtLauncher" where
  "click_button s started yes finished q = (if button_enabled s q then run_slot s started yes finished q else q)"

lemma toolbar_as_made: "map (\<lambda>(_, s, _). button_enabled s (MCXLauncher_new clk stored)) setupToolbar = map (\<lambda>(_, _, e). e) setupToolbar"
  by (simp add: setupToolbar_def button_enabled_def MCXLauncher_new_defs loadSettings_def onLoadConfig_def appendToConsole_def Let_def)

text \<open>
  After any history either the start button or the two others are enabled, by the flag; so a click on
  start never meets a running server, nor one on stop a stopped one, which the slots would refuse.
\<close>

lemma toolbar_follows_flag:
  "let q = fold qt_exec es (MCXLauncher_new clk stored) in
     map (\<lambda>(_, s, _). button_enabled s q) (take 3 setupToolbar) = (if isServerRunning q then [False, True, True] else [True, False, False])"
  using qt_reachable_ok [of es clk stored] by (auto simp: qt_ok_def Let_def setupToolbar_def button_enabled_def)

end
