(* ===== verification/Spec2Isabelle.thy ===== *)
theory Spec2Isabelle
  imports MCX_Protocol MCX_Server MCX_Timed MCX_Pool MCX_Acceptors MCX_HttpWorker MCX_UpdateThread MCX_Updates MCX_Economy MCX_Stats MCX_Kits MCX_Bans MCX_Teleport MCX_Chat MCX_Entities MCX_Commands MCX_ConsoleThread MCX_Config MCX_Backup MCX_Bridges MCX_BridgeThreads MCX_LoopThreads MCX_Main MCX_Windows
    MCX_Launcher MCX_QtLauncher
begin

text \<open>
  MCX: a verification development.

  MCX is a scripting layer for a game server: a C++ process that receives events of the game
  (joins, quits, chat, commands), lets a script runtime and native modules answer each with a
  list of actions, and applies the actions. Around this core stand background executors, network
  front ends, managers of game data, configuration, backups, two bridges to a game server, the
  program's \<^verbatim>\<open>main\<close> and two graphical launchers. The development follows the sources
  file by file; paths are relative to \<^verbatim>\<open>src/\<close> of the repository, whose own code is in
  \<^verbatim>\<open>src/src\<close> and \<^verbatim>\<open>src/include/mcx\<close>.

  \<^bold>\<open>How the parts work together.\<close> \<open>main\<close> (\<^verbatim>\<open>main.cpp\<close>) chooses between the demo, the set-up,
  the version and the update check. The set-up asks its questions (\<^verbatim>\<open>setup_wizard.cpp\<close>), writes a
  file and runs a \<open>Server\<close> (\<^verbatim>\<open>server.cpp\<close>). The server owns the script runtime, the scene
  manager, the player registry, the frame scheduler, the timed executor, the metrics, the permissions
  and the module loader. \<open>Run\<close> loads scripts and modules and enters \<open>MainLoop\<close>, which runs
  one frame of the scheduler per turn until a signal arrives; \<open>HandleEvent\<close> counts the event,
  keeps the registry, asks the runtime and then the modules. The other components are called
  by their users (a console, a bridge, a launcher) and not by the server.

  \<^bold>\<open>The theories.\<close>
  \<^item> \<open>MCX_Prelude\<close>: results with undefined behaviour and exceptions as values, the console, checked
    arithmetic, the logger (\<^verbatim>\<open>core/log.cpp\<close>), and six interfaces of the library:
    \<open>keyed_store\<close> (what a lookup gives after an insertion or removal), \<open>invariant_machine\<close> and
    \<open>invariant_steps\<close> (an invariant that every operation, or step, keeps), \<open>simulation\<close> (the
    concrete operations implement abstract ones), \<open>byte_codec\<close> (decoding undoes encoding,
    whatever follows) and \<open>fifo\<close>. \<open>MCX_Stopping\<close>: the stages of a \<open>Stop\<close> that joins a thread, and the interface
    \<open>winding_down\<close> (once the flag is cleared, what is still started is bounded) and \<open>ending\<close> (a measure falls,
    so the thread ends). Each is interpreted on the model's own definitions in the theories below.
  \<^item> \<open>MCX_Strings\<close>, \<open>MCX_Double\<close>: the parts of the standard library that the code calls (searching,
    \<^verbatim>\<open>substr\<close>, \<^verbatim>\<open>stoi\<close>, \<^verbatim>\<open>to_string\<close>, streams of words, the arithmetic and printing of \<^verbatim>\<open>double\<close>).
  \<^item> \<open>MCX_Protocol\<close>: the bridge protocol and the field serializer (\<^verbatim>\<open>core/protocol.cpp\<close>,
    \<^verbatim>\<open>core/packet_serializer.cpp\<close>): verdict of the decoder, streams of packets, wrap-around of the length.
  \<^item> \<open>MCX_Events\<close>, \<open>MCX_Actions\<close>, \<open>MCX_Players\<close>: events and the bus, actions and their two interpreters,
    the registry and the permissions, as refinements of maps and of a relation.
  \<^item> \<open>MCX_Scheduler\<close>, \<open>MCX_Timed\<close>, \<open>MCX_Pool\<close>: the frame scheduler with its iterator; the timed executor
    with its waiting and stopping, and the pool over any number of threads, as step relations.
  \<^item> \<open>MCX_Scripts\<close>, \<open>MCX_Modules\<close>, \<open>MCX_Server\<close>: the three runtimes, the module loader with an account
    of the open libraries, the server with signals, main loop and the timed executor that it owns.
  \<^item> \<open>MCX_Net\<close>, \<open>MCX_Rcon\<close>, \<open>MCX_WebSocket\<close>, \<open>MCX_Http\<close>, \<open>MCX_Updates\<close>: the socket interface, RCON, the
    WebSocket server, the HTTP client, the update checker: framing round trips, lengths, sessions, end-to-end runs.
  \<^item> \<open>MCX_Acceptors\<close>, \<open>MCX_HttpWorker\<close>: the threads behind them beside \<open>Stop\<close>, as step relations: in every run the handlers of the
    WebSocket server see well-formed sessions, one client at a time, a silent client (or a
    lost notification) keeps \<open>Stop\<close> waiting, requests are served in order and those still queued at the end are dropped. \<open>MCX_UpdateThread\<close>: the update checker over
    that worker does, under any interleaving, what the sequential one does or nothing.
  \<^item> \<open>MCX_Windows\<close>: what the branches for Windows do otherwise.
  \<^item> \<open>MCX_Economy\<close>, \<open>MCX_Stats\<close>, \<open>MCX_Kits\<close>, \<open>MCX_Bans\<close>, \<open>MCX_Teleport\<close>, \<open>MCX_Chat\<close>, \<open>MCX_Entities\<close>,
    \<open>MCX_Commands\<close>, \<open>MCX_ConsoleThread\<close>: the managers of \<^verbatim>\<open>core/\<close> of these names, worlds, the command parser, registry and console.
  \<^item> \<open>MCX_Config\<close>, \<open>MCX_Backup\<close>: validation, loading, the set-up dialogue, the file watcher, the log
    file; backups on a disk of trees.
  \<^item> \<open>MCX_Bridges\<close>: \<^verbatim>\<open>integration/network_bridge.cpp\<close>, \<^verbatim>\<open>integration/paper_bridge.cpp\<close> and
    the placeholder. \<open>MCX_BridgeThreads\<close>, \<open>MCX_LoopThreads\<close>: the threads of the two bridges, of the automatic
    backups and of the file watcher beside their \<open>Stop\<close>: what reaches the callback in every run, whether \<open>Stop\<close>
    returns, and what it waits for.
  \<^item> \<open>MCX_Main\<close>: \<^verbatim>\<open>main.cpp\<close>, up to the end of \<open>main\<close> as functions, and from there as a step relation
    of the process, in which the destructor of the server joins the worker of its timed executor before the exit.
  \<^item> \<open>MCX_Launcher\<close>, \<open>MCX_QtLauncher\<close>: \<^verbatim>\<open>launcher_imgui/\<close> and \<^verbatim>\<open>launcher/\<close>.
  \<^item> This theory: what the Qt launcher and the program it starts do together.

  \<^bold>\<open>Conventions.\<close> A class is a record with the names of its members, a method a definition with its name
  that takes the object and returns it changed (a suffix such as \<open>_ws\<close> or \<open>_http\<close> tells classes apart).
  What is written to the console is returned as a list. A result is \<open>Inr\<close> of a value, \<open>Inl Undefined\<close>
  where the standard gives no meaning (signed overflow, a read outside an object, a moved vector), or
  \<open>Inl (Exception e)\<close>. A callback or task is an effect on a client state that may throw. Signed
  integers are integers with their range checked, unsigned ones and bytes are words. A hash map
  is a finite map with, where the code iterates, the order as an argument. Clocks, dice of the
  system (order of directory entries, whether a file opens) and user input are arguments.

  \<^bold>\<open>Termination and fuel.\<close> Most loops are structural recursions or recursions over what the environment
  delivers (clients, frames, lines, ticks), where the end of the list is the end of observation.
  \<open>Update\<close> of the scheduler has fuel, since tasks may keep scheduling tasks: one more than the number of
  tasks is shown to be enough when no task schedules. The response loop of the HTTP client has fuel: more than
  the length of the answer is enough. The set-up dialogue re-asks and is a partial function, which is shown to
  return. The Start loop of the worker pool is shown not to return when the pool has threads already, whatever the fuel.

  \<^bold>\<open>Assumptions.\<close> A little-endian platform with signed \<^verbatim>\<open>char\<close> of eight bits, 32-bit \<^verbatim>\<open>int\<close>
  and 64-bit \<^verbatim>\<open>size_t\<close>; libstdc++ (doubling of vectors, nanosecond clocks) and the texts of its
  exceptions; the POSIX or Linux branch of every \<^verbatim>\<open>#ifdef\<close>, except for the file watcher, which has both, and for \<open>MCX_Windows\<close>.
  Steps of threads interleave but each is atomic; where the code shares data without a lock this
  is an idealisation, noted in the theory. Exceptions derive from \<^verbatim>\<open>std::exception\<close>: the code throws no others,
  and tasks, callbacks, modules and scripts are assumed to throw no others. The copies and removals of the backups
  do not fail for want of space or rights. Sockets, the dynamic linker, the Lua interpreter, the JSON parser
  and regular expressions are parameters; what a theorem needs of them is a hypothesis, and its
  witness instantiates them.

  \<^bold>\<open>Not modelled.\<close> The vendored \<^verbatim>\<open>third_party/nlohmann/json.hpp\<close>; \<^verbatim>\<open>launcher-rs\<close>, a second installer
  in Rust that shares no code; layout, style and drawing of the launchers, which have no state; the names of the
  system calls of Windows; the Lua
  examples, the build files.
\<close>

section \<open>The launcher and the program it starts\<close>

text \<open>
  C29. No server runs behind the Qt launcher. With the demo mode off the process that it starts prints the
  usage and its only step is to exit with code 1, since its argument is none that the program knows. With the
  demo mode on it prints the lines of the demo and can only exit with code 0; it can exit, but it can also
  hang for ever while it stops the timed executor of its server. When the process has ended the launcher shows
  a server that has stopped, and says so in red or in green.
\<close>

theorem qt_launcher_starts_no_server:
  assumes "\<not> isServerRunning q" "q_process q = None" "0 < env_fuel env"
  shows "let demo = demoModeCheck (widgets q); running = onStartServer Started q; code = (if demo then 0 else 1);
             ending = Returning code (if demo then Some (new_ThreadScheduler ()) else None); stopped = process_ends code running in
      map_option (main env) (q_process running) = Some (Some (Inr (ending, PrintBanner @ (if demo then demo_lines else PrintUsage), [])))
      \<and> {c. process_step\<^sup>*\<^sup>* ending (Exited c)} = {code}
      \<and> (if demo then \<exists>x. process_step\<^sup>*\<^sup>* ending (Returning code (Some x)) \<and> {c. unwoken_process\<^sup>*\<^sup>* (Returning code (Some x)) (Exited c)} = {}
         else {p. process_step ending p} = {Exited code})
      \<and> isServerRunning running \<and> \<not> isServerRunning stopped \<and> q_process stopped = None
      \<and> last (q_console stopped) = html_line (if demo then ''green'' else ''red'') (q_clock q)
          (''Server stopped (exit code: '' @ show_int code @ '')'')"
proof -
  obtain fuel where "env_fuel env = Suc fuel" using assms(3) by (cases "env_fuel env") auto
  then have m: "main env (server_args (widgets q)) = Some (Inr (if demoModeCheck (widgets q)
      then (Returning 0 (Some (new_ThreadScheduler ())), PrintBanner @ demo_lines, []) else (Returning 1 None, PrintBanner @ PrintUsage, [])))"
    by (simp add: server_args_def main_def RunDemo_run demo_final_executor)
  have run: "q_process (onStartServer Started q) = Some (server_args (widgets q))" "isServerRunning (onStartServer Started q)"
    "q_clock (onStartServer Started q) = q_clock q"
    using assms(1,2) by (simp_all add: onStartServer_def start_process_def Let_def)
  have stop: "\<not> isServerRunning (process_ends code p)" "q_process (process_ends code p) = None"
    "last (q_console (process_ends code p)) = html_line (if code = 0 then ''green'' else ''red'') (q_clock p)
       (''Server stopped (exit code: '' @ show_int code @ '')'')" for code p
    by (simp_all add: process_ends_def onServerFinished_def appendToConsole_last)
  have usage: "{p. process_step (Returning 1 None) p} = {Exited 1}" by (auto intro: process_step.no_server elim: process_stepE)
  have "process_step\<^sup>*\<^sup>* (Returning 1 None) (Exited 1)" by (blast intro: process_step.no_server)
  note codes = exit_codes [OF this] exit_codes [OF unused_process_exits]
  have hang: "\<exists>x. process_step\<^sup>*\<^sup>* (Returning 0 (Some (new_ThreadScheduler ()))) (Returning 0 (Some x))
      \<and> {c. unwoken_process\<^sup>*\<^sup>* (Returning 0 (Some x)) (Exited c)} = {}" by (rule unused_process_hangs)
  show ?thesis using m run stop usage codes hang by (cases "demoModeCheck (widgets q)") (simp_all add: Let_def)
qed

theorem qt_launcher_starts_no_server_witness:
  "\<forall>env :: (Wire, unit) Environment.
     map_option (main (env\<lparr>env_fuel := 1\<rparr>)) (q_process (onStartServer Started (MCXLauncher_new ''[12:00:00] '' fmempty)))
       = Some (Some (Inr (Returning 1 None, PrintBanner @ PrintUsage, [])))"
proof
  fix env :: "(Wire, unit) Environment"
  let ?q = "MCXLauncher_new ''[12:00:00] '' fmempty"
  have h: "\<not> isServerRunning ?q" "q_process ?q = None" by (simp_all add: MCXLauncher_new_defs loadSettings_def onLoadConfig_def)
  have d: "\<not> demoModeCheck (widgets ?q)"
    by (simp add: MCXLauncher_new_defs loadSettings_def onLoadConfig_def loaded_widgets_def Let_def set_rconPortSpin_def setting_def) code_simp
  show "map_option (main (env\<lparr>env_fuel := 1\<rparr>)) (q_process (onStartServer Started ?q)) = Some (Some (Inr (Returning 1 None, PrintBanner @ PrintUsage, [])))"
    using qt_launcher_starts_no_server [OF h, of "env\<lparr>env_fuel := 1\<rparr>"] d by (simp add: Let_def)
qed

end
